(* ===== verification/Prelude.thy ===== *)
theory Prelude
  imports Main "HOL-Library.Word" "HOL-Library.Multiset"
begin

text \<open>
  Shared vocabulary of the development: the machine integers of the Go engine as words,
  Go strings as byte strings (one \<open>char\<close> per byte), Go's \<open>(value, error)\<close> results as sums,
  and the generic facts about words and lists that several components use.
  Go's \<open>int\<close> is modelled as \<open>int\<close>: every \<open>int\<close> of the modelled code is a count, an index or a
  small direction flag that stays far inside 64 bits; \<open>uint16\<close>, \<open>uint32\<close> and \<open>uint64\<close> keep
  their width, so ticks and wire fields wrap as they do in Go.
\<close>

unbundle bit_operations_syntax

type_synonym u8 = "8 word"
type_synonym u16 = "16 word"
type_synonym u32 = "32 word"
type_synonym u64 = "64 word"
type_synonym bytes = "8 word list"

named_theorems codec_simps "equations of encoders and readers"
named_theorems step_defs "definitions of the step operations of a component"

subsection \<open>Results with errors\<close>

fun bindE :: "'e + 'a \<Rightarrow> ('a \<Rightarrow> 'e + 'b) \<Rightarrow> 'e + 'b" where
  "bindE (Inl e) f = Inl e"
| "bindE (Inr x) f = f x"

lemma bindE_Inr_iff: "bindE m f = Inr y \<longleftrightarrow> (\<exists>x. m = Inr x \<and> f x = Inr y)"
  by (cases m) auto

definition guardE :: "bool \<Rightarrow> 'e \<Rightarrow> 'e + unit" where
  "guardE ok e = (if ok then Inr () else Inl e)"

lemma guardE_Inr_iff [simp]: "guardE ok e = Inr u \<longleftrightarrow> ok"
  by (simp add: guardE_def)

lemma guardE_True [simp]: "guardE True e = Inr ()"
  by (simp add: guardE_def)

subsection \<open>Strings as bytes\<close>

text \<open>\<open>[]byte(s)\<close> and \<open>string(b)\<close>: Go strings are byte sequences, a \<open>char\<close> is a byte.\<close>

definition byte_of_char :: "char \<Rightarrow> u8" where
  "byte_of_char c = word_of_nat (of_char c)"

definition char_of_byte :: "u8 \<Rightarrow> char" where
  "char_of_byte b = char_of (unat b)"

lemma of_char_less_256: "(of_char c :: nat) < 256"
  by (metis char_of_char mod_less_divisor of_char_of zero_less_numeral)

lemma char_of_byte_of_char [simp]: "char_of_byte (byte_of_char c) = c"
proof -
  have "unat (word_of_nat (of_char c) :: u8) = (of_char c :: nat)"
    by (simp add: unat_of_nat of_char_less_256)
  then show ?thesis
    by (simp add: char_of_byte_def byte_of_char_def)
qed

definition bytes_of :: "string \<Rightarrow> bytes" where
  "bytes_of s = map byte_of_char s"

definition string_of :: "bytes \<Rightarrow> string" where
  "string_of bs = map char_of_byte bs"

lemma string_of_bytes_of [simp]: "string_of (bytes_of s) = s"
  by (simp add: string_of_def bytes_of_def comp_def)

lemma length_bytes_of [simp]: "length (bytes_of s) = length s"
  by (simp add: bytes_of_def)

lemma length_string_of [simp]: "length (string_of bs) = length bs"
  by (simp add: string_of_def)

lemma string_of_Nil [simp]: "string_of [] = ''''"
  by (simp add: string_of_def)

lemma bytes_of_inj: "bytes_of s = bytes_of t \<longleftrightarrow> s = t"
  by (metis string_of_bytes_of)

subsection \<open>Words\<close>

lemma unat_u8_less [simp]: "unat (w :: u8) < 256"
  using unsigned_less [of w] by simp

lemma unat_u16_less [simp]: "unat (w :: u16) < 65536"
  using unsigned_less [of w] by simp

lemma unat_u32_less [simp]: "unat (w :: u32) < 4294967296"
  using unsigned_less [of w] by simp

lemma unat_u64_less [simp]: "unat (w :: u64) < 18446744073709551616"
  using unsigned_less [of w] by simp

lemma unat_of_nat_u8: "n < 256 \<Longrightarrow> unat (word_of_nat n :: u8) = n"
  by (simp add: unat_of_nat)

lemma unat_of_nat_u16: "n < 65536 \<Longrightarrow> unat (word_of_nat n :: u16) = n"
  by (simp add: unat_of_nat)

lemma unat_of_nat_u32: "n < 4294967296 \<Longrightarrow> unat (word_of_nat n :: u32) = n"
  by (simp add: unat_of_nat)

text \<open>\<open>uint32(int32(x))\<close> and \<open>int(int32(u))\<close>.\<close>

definition i32_bits :: "int \<Rightarrow> u32" where
  "i32_bits x = word_of_int x"

definition i32_of :: "u32 \<Rightarrow> int" where
  "i32_of w = sint w"

definition i32_range :: "int \<Rightarrow> bool" where
  "i32_range x \<longleftrightarrow> - 2147483648 \<le> x \<and> x < 2147483648"

lemma i32_of_bits: "i32_range x \<Longrightarrow> i32_of (i32_bits x) = x"
  by (simp add: i32_of_def i32_bits_def i32_range_def signed_of_int signed_take_bit_int_eq_self)

lemma unat_of_nat_le_u64: "d \<le> unat (x :: u64) \<Longrightarrow> unat (word_of_nat d :: u64) = d"
  by (metis le_unat_uoi unat_of_nat)

lemma u64_add_no_wrap:
  "unat a + unat b < 18446744073709551616 \<Longrightarrow> unat (a + b :: u64) = unat a + unat b"
  by (simp add: unat_plus_if')

lemma u64_sub_unat: "b \<le> a \<Longrightarrow> unat (a - b :: u64) = unat a - unat b"
  by (simp add: unat_sub word_le_nat_alt)

subsection \<open>Lists\<close>

lemma take_append_exact [simp]: "take (length xs) (xs @ ys) = xs"
  by simp

text \<open>The first position of a list that satisfies a test, as a Go search loop finds it.\<close>

fun find_index :: "('a \<Rightarrow> bool) \<Rightarrow> 'a list \<Rightarrow> nat option" where
  "find_index P [] = None"
| "find_index P (x # xs) = (if P x then Some 0 else map_option Suc (find_index P xs))"

lemma find_index_Some_iff:
  "find_index P xs = Some i \<longleftrightarrow> i < length xs \<and> P (xs ! i) \<and> (\<forall>j < i. \<not> P (xs ! j))"
proof (induction xs arbitrary: i)
  case Nil
  then show ?case by simp
next
  case (Cons x xs)
  then show ?case
    by (cases i) (auto simp: All_less_Suc2)
qed

lemma find_index_None_iff: "find_index P xs = None \<longleftrightarrow> (\<forall>x \<in> set xs. \<not> P x)"
  by (induction xs) auto

lemma find_index_bound: "find_index P xs = Some i \<Longrightarrow> i < length xs"
  by (simp add: find_index_Some_iff)

text \<open>\<open>sort.SliceStable\<close> by a strict order: stable insertion into the sorted prefix.\<close>

fun insort_by :: "('a \<Rightarrow> 'a \<Rightarrow> bool) \<Rightarrow> 'a \<Rightarrow> 'a list \<Rightarrow> 'a list" where
  "insort_by lt x [] = [x]"
| "insort_by lt x (y # ys) = (if lt y x then y # insort_by lt x ys else x # y # ys)"

definition stable_sort :: "('a \<Rightarrow> 'a \<Rightarrow> bool) \<Rightarrow> 'a list \<Rightarrow> 'a list" where
  "stable_sort lt xs = foldr (insort_by lt) xs []"

lemma set_insort_by [simp]: "set (insort_by lt x xs) = insert x (set xs)"
  by (induction xs) auto

lemma mset_insort_by: "mset (insort_by lt x xs) = add_mset x (mset xs)"
  by (induction xs) auto

lemma mset_stable_sort: "mset (stable_sort lt xs) = mset xs"
  by (induction xs) (simp_all add: stable_sort_def mset_insort_by)

lemma set_stable_sort [simp]: "set (stable_sort lt xs) = set xs"
  using mset_stable_sort [of lt xs] by (metis set_mset_mset)

lemma length_stable_sort [simp]: "length (stable_sort lt xs) = length xs"
  using mset_stable_sort [of lt xs] by (metis size_mset)

text \<open>A strict weak order is what Go's \<open>less\<close> callbacks must be.\<close>

locale strict_weak =
  fixes lt :: "'a \<Rightarrow> 'a \<Rightarrow> bool"
  assumes asym: "lt x y \<Longrightarrow> \<not> lt y x"
    and trans: "lt x y \<Longrightarrow> lt y z \<Longrightarrow> lt x z"
    and incomp_trans: "\<not> lt y x \<Longrightarrow> \<not> lt z y \<Longrightarrow> \<not> lt z x"
begin

lemma sorted_insort:
  "sorted_wrt (\<lambda>a b. \<not> lt b a) xs \<Longrightarrow> sorted_wrt (\<lambda>a b. \<not> lt b a) (insort_by lt x xs)"
proof (induction xs)
  case Nil
  then show ?case by simp
next
  case (Cons y ys)
  then show ?case
    by (auto dest: asym) (meson asym incomp_trans)+
qed

lemma sorted_stable: "sorted_wrt (\<lambda>a b. \<not> lt b a) (stable_sort lt xs)"
  by (induction xs) (simp_all add: stable_sort_def sorted_insort)

text \<open>Stability: elements of one equivalence class keep their order.\<close>

lemma filter_insort_same:
  assumes "\<And>a b. P a \<Longrightarrow> P b \<Longrightarrow> \<not> lt a b"
  shows "filter P (insort_by lt x xs) = (if P x then x # filter P xs else filter P xs)"
  using assms by (induction xs) auto

lemma filter_stable:
  assumes "\<And>a b. P a \<Longrightarrow> P b \<Longrightarrow> \<not> lt a b"
  shows "filter P (stable_sort lt xs) = filter P xs"
  using assms by (induction xs) (simp_all add: stable_sort_def filter_insort_same)

end

end
