(* ===== verification/Bytes.thy ===== *)
theory Bytes
  imports Prelude
begin

text \<open>
  Little-endian fields (\<open>encoding/binary\<close>) and the two cursors every codec of the repository
  is written with: the append-only writer and the sticky-error reader (\<open>byteReader\<close> of
  \<open>engine/keyframe.go\<close>, \<open>sigReader\<close> of \<open>engine/natsio/sigframe.go\<close>, which have the same
  body). The locale \<open>field\<close> is the interface between a writer and a reader of one field; the
  record codecs are clients of it.
\<close>

subsection \<open>Little-endian integers\<close>

fun le_enc :: "nat \<Rightarrow> nat \<Rightarrow> bytes" where
  "le_enc 0 x = []"
| "le_enc (Suc n) x = word_of_nat (x mod 256) # le_enc n (x div 256)"

fun le_dec :: "bytes \<Rightarrow> nat" where
  "le_dec [] = 0"
| "le_dec (b # bs) = unat b + 256 * le_dec bs"

lemma length_le_enc [simp]: "length (le_enc n x) = n"
  by (induction n arbitrary: x) auto

lemma le_dec_enc: "le_dec (le_enc n x) = x mod 256 ^ n"
proof (induction n arbitrary: x)
  case 0
  then show ?case by simp
next
  case (Suc n)
  have "x mod (256 * 256 ^ n) = 256 * (x div 256 mod 256 ^ n) + x mod 256"
    by (simp add: mod_mult2_eq)
  then show ?case
    using Suc by (simp add: unat_of_nat)
qed

lemma le_enc_dec: "le_enc (length bs) (le_dec bs) = bs"
proof (induction bs)
  case Nil
  then show ?case by simp
next
  case (Cons b bs)
  show ?case
    using Cons unat_u8_less [of b] by simp
qed

definition put_u8 :: "u8 \<Rightarrow> bytes" where "put_u8 x = [x]"
definition put_u16 :: "u16 \<Rightarrow> bytes" where "put_u16 x = le_enc 2 (unat x)"
definition put_u32 :: "u32 \<Rightarrow> bytes" where "put_u32 x = le_enc 4 (unat x)"
definition put_u64 :: "u64 \<Rightarrow> bytes" where "put_u64 x = le_enc 8 (unat x)"
definition get_u16 :: "bytes \<Rightarrow> u16" where "get_u16 b = word_of_nat (le_dec (take 2 b))"
definition get_u32 :: "bytes \<Rightarrow> u32" where "get_u32 b = word_of_nat (le_dec (take 4 b))"
definition get_u64 :: "bytes \<Rightarrow> u64" where "get_u64 b = word_of_nat (le_dec (take 8 b))"

lemma length_put [simp]:
  "length (put_u8 a) = 1" "length (put_u16 b) = 2" "length (put_u32 c) = 4" "length (put_u64 d) = 8"
  by (simp_all add: put_u8_def put_u16_def put_u32_def put_u64_def)

lemma le_dec_enc_word:
  "256 ^ n = (2::nat) ^ LENGTH('a) \<Longrightarrow> le_dec (le_enc n (unat (x :: 'a::len word))) = unat x"
  by (simp add: le_dec_enc)

lemma get_put [simp, codec_simps]:
  "get_u16 (put_u16 a @ r) = a" "get_u32 (put_u32 b @ r) = b" "get_u64 (put_u64 c @ r) = c"
  by (simp_all add: get_u16_def put_u16_def get_u32_def put_u32_def get_u64_def put_u64_def
      le_dec_enc_word)

lemma get_put' [simp]: "get_u16 (put_u16 a) = a" "get_u32 (put_u32 b) = b" "get_u64 (put_u64 c) = c"
  using get_put(1) [of a "[]"] get_put(2) [of b "[]"] get_put(3) [of c "[]"] by simp_all

lemma put_inj [simp]:
  "put_u16 a = put_u16 b \<longleftrightarrow> a = b" "put_u32 c = put_u32 d \<longleftrightarrow> c = d" "put_u64 e = put_u64 f \<longleftrightarrow> e = f"
  by (metis get_put')+

text \<open>Reading back at an offset: \<open>buf[k:]\<close>.\<close>

lemma drop_put [simp]:
  "drop 2 (put_u16 a @ r) = r" "drop 4 (put_u32 b @ r) = r" "drop 8 (put_u64 c @ r) = r"
  by simp_all

subsection \<open>The sticky reader\<close>

text \<open>
  \<open>take\<close> returns nothing once an error is set, sets a short-read error when fewer than \<open>n\<close>
  bytes remain, and otherwise consumes \<open>n\<close> bytes. A typed read after an error yields the zero
  value. \<open>Short n m\<close> is Go's \<open>short read: want n bytes, have m\<close>; \<open>Zero_duration\<close> is the
  semantic error \<open>ParseSignalFrame\<close> stores in the same field.
\<close>

datatype rerror = Short nat nat | Zero_duration string nat

record reader =
  rbuf :: bytes
  rerr :: "rerror option"

definition good :: "bytes \<Rightarrow> reader" where
  "good b = \<lparr>rbuf = b, rerr = None\<rparr>"

lemma good_sel [simp]: "rbuf (good b) = b" "rerr (good b) = None"
  by (simp_all add: good_def)

lemma good_eq [simp]: "good a = good b \<longleftrightarrow> a = b"
  by (simp add: good_def)

definition rd_take :: "nat \<Rightarrow> reader \<Rightarrow> bytes option \<times> reader" where
  "rd_take n r =
     (if rerr r \<noteq> None then (None, r)
      else if length (rbuf r) < n then (None, r\<lparr>rerr := Some (Short n (length (rbuf r)))\<rparr>)
      else (Some (take n (rbuf r)), r\<lparr>rbuf := drop n (rbuf r)\<rparr>))"

definition rd_u8 :: "reader \<Rightarrow> u8 \<times> reader" where
  "rd_u8 r = (case rd_take 1 r of (None, r') \<Rightarrow> (0, r') | (Some b, r') \<Rightarrow> (hd b, r'))"

definition rd_u16 :: "reader \<Rightarrow> u16 \<times> reader" where
  "rd_u16 r = (case rd_take 2 r of (None, r') \<Rightarrow> (0, r') | (Some b, r') \<Rightarrow> (get_u16 b, r'))"

definition rd_u32 :: "reader \<Rightarrow> u32 \<times> reader" where
  "rd_u32 r = (case rd_take 4 r of (None, r') \<Rightarrow> (0, r') | (Some b, r') \<Rightarrow> (get_u32 b, r'))"

definition rd_u64 :: "reader \<Rightarrow> u64 \<times> reader" where
  "rd_u64 r = (case rd_take 8 r of (None, r') \<Rightarrow> (0, r') | (Some b, r') \<Rightarrow> (get_u64 b, r'))"

text \<open>\<open>bytesN(n)\<close>: nil after an error, a copy of the bytes otherwise.\<close>

definition rd_bytes :: "nat \<Rightarrow> reader \<Rightarrow> bytes \<times> reader" where
  "rd_bytes n r = (case rd_take n r of (None, r') \<Rightarrow> ([], r') | (Some b, r') \<Rightarrow> (b, r'))"

lemma rd_take_good: "length b = n \<Longrightarrow> rd_take n (good (b @ r)) = (Some b, good r)"
  by (auto simp: rd_take_def good_def)

lemma rd_put [simp, codec_simps]:
  "rd_u8 (good (put_u8 a @ r)) = (a, good r)"
  "rd_u16 (good (put_u16 b @ r)) = (b, good r)"
  "rd_u32 (good (put_u32 c @ r)) = (c, good r)"
  "rd_u64 (good (put_u64 d @ r)) = (d, good r)"
  using rd_take_good [of "put_u8 a" 1] 
  by (simp_all add: rd_u8_def rd_u16_def rd_u32_def rd_u64_def rd_take_good put_u8_def)

lemma rd_bytes_put [simp, codec_simps]: "length b = n \<Longrightarrow> rd_bytes n (good (b @ r)) = (b, good r)"
  by (simp add: rd_bytes_def rd_take_good)

lemma rd_sticky [simp]:
  "rerr r \<noteq> None \<Longrightarrow> rd_take n r = (None, r)"
  "rerr r \<noteq> None \<Longrightarrow> rd_u8 r = (0, r)"
  "rerr r \<noteq> None \<Longrightarrow> rd_u16 r = (0, r)"
  "rerr r \<noteq> None \<Longrightarrow> rd_u32 r = (0, r)"
  "rerr r \<noteq> None \<Longrightarrow> rd_u64 r = (0, r)"
  "rerr r \<noteq> None \<Longrightarrow> rd_bytes n r = ([], r)"
  by (auto simp: rd_take_def rd_u8_def rd_u16_def rd_u32_def rd_u64_def rd_bytes_def)

subsection \<open>The interface of one field\<close>

text \<open>
  \<open>put\<close> writes a value, \<open>get\<close> reads it back and leaves the rest of the buffer, for every value
  in the range \<open>ok\<close> the wire can carry.
\<close>

fun read_many :: "nat \<Rightarrow> (reader \<Rightarrow> 'a \<times> reader) \<Rightarrow> reader \<Rightarrow> 'a list \<times> reader" where
  "read_many 0 get r = ([], r)"
| "read_many (Suc n) get r =
     (let (x, r') = get r; (xs, r'') = read_many n get r' in (x # xs, r''))"

locale field =
  fixes put :: "'a \<Rightarrow> bytes" and get :: "reader \<Rightarrow> 'a \<times> reader" and ok :: "'a \<Rightarrow> bool"
  assumes get_good: "ok x \<Longrightarrow> get (good (put x @ r)) = (x, good r)"
begin

lemma get_good_end: "ok x \<Longrightarrow> get (good (put x)) = (x, good [])"
  using get_good [of x "[]"] by simp

lemma read_many_good:
  "\<forall>x \<in> set xs. ok x \<Longrightarrow>
   read_many (length xs) get (good (concat (map put xs) @ r)) = (xs, good r)"
  by (induction xs) (simp_all add: get_good)

lemma put_prefix_free:
  assumes "ok x" and "ok y" and "put x @ r = put y @ s"
  shows "x = y \<and> r = s"
  using assms by (metis get_good good_eq prod.inject)

end

interpretation u8_field: field put_u8 rd_u8 "\<lambda>_. True" by unfold_locales simp
interpretation u16_field: field put_u16 rd_u16 "\<lambda>_. True" by unfold_locales simp
interpretation u32_field: field put_u32 rd_u32 "\<lambda>_. True" by unfold_locales simp
interpretation u64_field: field put_u64 rd_u64 "\<lambda>_. True" by unfold_locales simp

text \<open>A length-prefixed string with a one-byte and with a two-byte length.\<close>

definition put_str8 :: "string \<Rightarrow> bytes" where
  "put_str8 s = put_u8 (word_of_nat (length s)) @ bytes_of s"

definition rd_str8 :: "reader \<Rightarrow> string \<times> reader" where
  "rd_str8 r =
     (case rd_take 1 r of
        (None, r') \<Rightarrow> ('''', r')
      | (Some b, r') \<Rightarrow> (case rd_take (unat (hd b)) r' of
            (None, r'') \<Rightarrow> ('''', r'')
          | (Some s, r'') \<Rightarrow> (string_of s, r'')))"

definition put_str16 :: "string \<Rightarrow> bytes" where
  "put_str16 s = put_u16 (word_of_nat (length s)) @ bytes_of s"

definition rd_str16 :: "reader \<Rightarrow> string \<times> reader" where
  "rd_str16 r = (let (n, r') = rd_u16 r; (b, r'') = rd_bytes (unat n) r' in (string_of b, r''))"

lemma rd_str8_good: "length s < 256 \<Longrightarrow> rd_str8 (good (put_str8 s @ r)) = (s, good r)"
  by (simp add: rd_str8_def put_str8_def put_u8_def unat_of_nat_u8
      rd_take_good [of "[_]" 1, simplified] rd_take_good)

lemma rd_str16_good: "length s < 65536 \<Longrightarrow> rd_str16 (good (put_str16 s @ r)) = (s, good r)"
  by (simp add: rd_str16_def put_str16_def unat_of_nat_u16)

interpretation str8_field: field put_str8 rd_str8 "\<lambda>s. length s < 256"
  by unfold_locales (rule rd_str8_good)
interpretation str16_field: field put_str16 rd_str16 "\<lambda>s. length s < 65536"
  by unfold_locales (rule rd_str16_good)

lemma rd_str_sticky [simp]:
  "rerr r \<noteq> None \<Longrightarrow> rd_str8 r = ('''', r)" "rerr r \<noteq> None \<Longrightarrow> rd_str16 r = ('''', r)"
  by (simp_all add: rd_str8_def rd_str16_def string_of_def)

end
