(* ===== verification/Float64.thy ===== *)
theory Float64
  imports Prelude
begin

text \<open>
  Go's \<open>float64\<close>: IEEE-754 binary64, as its bit pattern (\<open>math.Float64bits\<close> is the identity
  here, so the wire codecs carry a float without touching it). Arithmetic goes through the
  exact rational value and rounds to nearest, ties to even, as amd64 does; every definition
  computes. A NaN result is one fixed quiet NaN: no modelled code reads a NaN's payload.
\<close>

type_synonym f64 = "64 word"

datatype fval = NaN | Inf bool | Fin bool int int \<comment> \<open>sign (True is negative), mantissa, exponent\<close>

definition f64_exp :: "f64 \<Rightarrow> int" where
  "f64_exp w = uint w div 4503599627370496 mod 2048"

definition f64_frac :: "f64 \<Rightarrow> int" where
  "f64_frac w = uint w mod 4503599627370496"

definition f64_sign :: "f64 \<Rightarrow> bool" where
  "f64_sign w \<longleftrightarrow> 9223372036854775808 \<le> uint w"

text \<open>\<open>Fin s m e\<close> is the number \<open>m * 2 ^ e\<close>, negated when \<open>s\<close>.\<close>

definition fval_of :: "f64 \<Rightarrow> fval" where
  "fval_of w =
     (let s = f64_sign w; e = f64_exp w; f = f64_frac w in
      if e = 2047 then (if f = 0 then Inf s else NaN)
      else if e = 0 then Fin s f (- 1074)
      else Fin s (4503599627370496 + f) (e - 1075))"

definition is_nan :: "f64 \<Rightarrow> bool" where "is_nan w \<longleftrightarrow> fval_of w = NaN"

definition is_inf :: "f64 \<Rightarrow> bool" where
  "is_inf w \<longleftrightarrow> (case fval_of w of Inf s \<Rightarrow> True | _ \<Rightarrow> False)"

subsection \<open>Rounding a fraction to binary64\<close>

fun bitlen_of :: "int \<Rightarrow> int" where
  "bitlen_of n = (if n \<le> 0 then 0 else 1 + bitlen_of (n div 2))"

declare bitlen_of.simps [simp del]

definition shl :: "int \<Rightarrow> int \<Rightarrow> int" where
  "shl n k = (if 0 \<le> k then n * 2 ^ nat k else n)"

text \<open>The binary logarithm of \<open>n / d\<close>, rounded down, for positive \<open>n\<close> and \<open>d\<close>.\<close>

definition flog2 :: "int \<Rightarrow> int \<Rightarrow> int" where
  "flog2 n d =
     (let e = bitlen_of n - bitlen_of d
      in if shl n (- e) < shl d e then e - 1 else e)"

text \<open>\<open>n / d\<close> to the nearest integer, ties to even.\<close>

definition div_even :: "int \<Rightarrow> int \<Rightarrow> int" where
  "div_even n d =
     (let q = n div d; r = n mod d in
      if 2 * r < d then q else if d < 2 * r then q + 1 else if even q then q else q + 1)"

definition with_sign :: "bool \<Rightarrow> int \<Rightarrow> f64" where
  "with_sign s b = word_of_int (if s then b + 9223372036854775808 else b)"

text \<open>
  \<open>n / d\<close> as a binary64: the exponent is that of the leading bit, but not below the subnormal
  one; \<open>(E + 1022) * 2 ^ 52 + m\<close> is the bit pattern of the rounded significand \<open>m\<close> for normal,
  subnormal and carried-over results alike; anything from the bit pattern of infinity on is
  an overflow.
\<close>

definition pack :: "bool \<Rightarrow> int \<Rightarrow> int \<Rightarrow> f64" where
  "pack s n d =
     (if n = 0 then with_sign s 0
      else let E = max (flog2 n d) (- 1022);
               m = div_even (shl n (52 - E)) (shl d (E - 52));
               b = (E + 1022) * 4503599627370496 + m
           in with_sign s (min b 9218868437227405312))"

definition f64_nan :: f64 where "f64_nan = 9221120237041090561"

text \<open>A decimal literal \<open>n / d\<close> of the source.\<close>

definition f64_lit :: "int \<Rightarrow> int \<Rightarrow> f64" where
  "f64_lit n d = pack (n < 0) \<bar>n\<bar> d"

subsection \<open>Arithmetic and comparison\<close>

definition sval :: "bool \<Rightarrow> int \<Rightarrow> int" where
  "sval s m = (if s then - m else m)"

definition pack2 :: "bool \<Rightarrow> int \<Rightarrow> int \<Rightarrow> f64" where
  "pack2 s m e = pack s (shl m e) (shl 1 (- e))"

definition fneg :: "f64 \<Rightarrow> f64" where
  "fneg w = w XOR 9223372036854775808"

definition fadd :: "f64 \<Rightarrow> f64 \<Rightarrow> f64" where
  "fadd a b =
     (case (fval_of a, fval_of b) of
        (NaN, _) \<Rightarrow> f64_nan
      | (_, NaN) \<Rightarrow> f64_nan
      | (Inf s, Inf t) \<Rightarrow> (if s = t then a else f64_nan)
      | (Inf s, Fin _ _ _) \<Rightarrow> a
      | (Fin _ _ _, Inf t) \<Rightarrow> b
      | (Fin s m d, Fin t n e) \<Rightarrow>
          (let k = min d e; x = shl (sval s m) (d - k) + shl (sval t n) (e - k) in
           if x = 0 then with_sign (s \<and> t) 0 else pack2 (x < 0) \<bar>x\<bar> k))"

definition fsub :: "f64 \<Rightarrow> f64 \<Rightarrow> f64" where
  "fsub a b = (if is_nan b then f64_nan else fadd a (fneg b))"

definition fmul :: "f64 \<Rightarrow> f64 \<Rightarrow> f64" where
  "fmul a b =
     (case (fval_of a, fval_of b) of
        (NaN, _) \<Rightarrow> f64_nan
      | (_, NaN) \<Rightarrow> f64_nan
      | (Inf s, Inf t) \<Rightarrow> with_sign (s \<noteq> t) 9218868437227405312
      | (Inf s, Fin t n _) \<Rightarrow> (if n = 0 then f64_nan else with_sign (s \<noteq> t) 9218868437227405312)
      | (Fin s m _, Inf t) \<Rightarrow> (if m = 0 then f64_nan else with_sign (s \<noteq> t) 9218868437227405312)
      | (Fin s m d, Fin t n e) \<Rightarrow> pack2 (s \<noteq> t) (m * n) (d + e))"

definition fdiv :: "f64 \<Rightarrow> f64 \<Rightarrow> f64" where
  "fdiv a b =
     (case (fval_of a, fval_of b) of
        (NaN, _) \<Rightarrow> f64_nan
      | (_, NaN) \<Rightarrow> f64_nan
      | (Inf s, Inf t) \<Rightarrow> f64_nan
      | (Inf s, Fin t _ _) \<Rightarrow> with_sign (s \<noteq> t) 9218868437227405312
      | (Fin s _ _, Inf t) \<Rightarrow> with_sign (s \<noteq> t) 0
      | (Fin s m d, Fin t n e) \<Rightarrow>
          (if n = 0 then (if m = 0 then f64_nan else with_sign (s \<noteq> t) 9218868437227405312)
           else pack (s \<noteq> t) (shl m (d - e)) (shl n (e - d))))"

text \<open>Comparisons: every comparison with a NaN is false, the two zeros are equal.\<close>

definition flt :: "f64 \<Rightarrow> f64 \<Rightarrow> bool" where
  "flt a b =
     (case (fval_of a, fval_of b) of
        (NaN, _) \<Rightarrow> False
      | (_, NaN) \<Rightarrow> False
      | (Inf s, Inf t) \<Rightarrow> s \<and> \<not> t
      | (Inf s, Fin _ _ _) \<Rightarrow> s
      | (Fin _ _ _, Inf t) \<Rightarrow> \<not> t
      | (Fin s m d, Fin t n e) \<Rightarrow> (let k = min d e in shl (sval s m) (d - k) < shl (sval t n) (e - k)))"

definition feq :: "f64 \<Rightarrow> f64 \<Rightarrow> bool" where
  "feq a b =
     (case (fval_of a, fval_of b) of
        (Inf s, Inf t) \<Rightarrow> s = t
      | (Fin s m d, Fin t n e) \<Rightarrow> (let k = min d e in shl (sval s m) (d - k) = shl (sval t n) (e - k))
      | _ \<Rightarrow> False)"

definition fle :: "f64 \<Rightarrow> f64 \<Rightarrow> bool" where
  "fle a b \<longleftrightarrow> flt a b \<or> feq a b"

subsection \<open>Rounding and conversion\<close>

text \<open>\<open>math.Round\<close>: nearest integer, halves away from zero.\<close>

definition f64_round :: "f64 \<Rightarrow> f64" where
  "f64_round a =
     (case fval_of a of
        Fin s m e \<Rightarrow> (if 0 \<le> e then a
                      else pack s ((2 * m + shl 1 (- e)) div (2 * shl 1 (- e))) 1)
      | _ \<Rightarrow> a)"

text \<open>
  \<open>uint64(f)\<close>: truncation towards zero. Go leaves a value outside the range to the
  implementation; the model keeps the low 64 bits, as amd64 does for negative values.
\<close>

definition f64_to_u64 :: "f64 \<Rightarrow> u64" where
  "f64_to_u64 a =
     (case fval_of a of
        Fin s m e \<Rightarrow> word_of_int (sval s (shl m e div shl 1 (- e)))
      | _ \<Rightarrow> 9223372036854775808)"

definition f64_of_nat :: "nat \<Rightarrow> f64" where
  "f64_of_nat n = pack False (int n) 1"

text \<open>\<open>uint64(math.Round(x / dt))\<close>: seconds onto the tick grid.\<close>

definition to_ticks :: "f64 \<Rightarrow> f64 \<Rightarrow> u64" where
  "to_ticks x dt = f64_to_u64 (f64_round (fdiv x dt))"

subsection \<open>Facts about comparison\<close>

text \<open>Comparison at a common exponent does not depend on which one is chosen.\<close>

lemma shl_shl: "0 \<le> j \<Longrightarrow> 0 \<le> k \<Longrightarrow> shl (shl n j) k = shl n (j + k)"
  by (simp add: shl_def nat_add_distrib power_add algebra_simps)

lemma shl_mono [simp]: "shl m k < shl n k \<longleftrightarrow> m < n" "shl m k = shl n k \<longleftrightarrow> m = n"
  by (simp_all add: shl_def)

lemma align_cmp:
  assumes "j \<le> min d e"
  shows "shl m (d - min d e) < shl n (e - min d e) \<longleftrightarrow> shl m (d - j) < shl n (e - j)"
    and "shl m (d - min d e) = shl n (e - min d e) \<longleftrightarrow> shl m (d - j) = shl n (e - j)"
proof -
  have "shl m (d - j) = shl (shl m (d - min d e)) (min d e - j)"
    and "shl n (e - j) = shl (shl n (e - min d e)) (min d e - j)"
    using assms by (simp_all add: shl_shl)
  then show "shl m (d - min d e) < shl n (e - min d e) \<longleftrightarrow> shl m (d - j) < shl n (e - j)"
    and "shl m (d - min d e) = shl n (e - min d e) \<longleftrightarrow> shl m (d - j) = shl n (e - j)"
    by simp_all
qed

lemma flt_nan: "is_nan a \<or> is_nan b \<Longrightarrow> \<not> flt a b"
  by (auto simp: flt_def is_nan_def split: fval.splits)

text \<open>
  Every number that is not a NaN has a place in a linear order: \<open>rank j\<close> puts the finite ones
  at a common exponent \<open>j\<close> below all of theirs.
\<close>

definition rank :: "int \<Rightarrow> f64 \<Rightarrow> int \<times> int" where
  "rank j a = (case fval_of a of NaN \<Rightarrow> (0, 0) | Inf s \<Rightarrow> (if s then - 1 else 1, 0)
     | Fin s m e \<Rightarrow> (0, shl (sval s m) (e - j)))"

definition exp_of :: "f64 \<Rightarrow> int" where
  "exp_of a = (case fval_of a of Fin s m e \<Rightarrow> e | _ \<Rightarrow> 0)"

definition lex_less :: "int \<times> int \<Rightarrow> int \<times> int \<Rightarrow> bool" where
  "lex_less p q \<longleftrightarrow> fst p < fst q \<or> fst p = fst q \<and> snd p < snd q"

lemma flt_rank:
  assumes "\<not> is_nan a" and "\<not> is_nan b" and "j \<le> exp_of a" and "j \<le> exp_of b"
  shows "flt a b \<longleftrightarrow> lex_less (rank j a) (rank j b)"
  using assms
  by (auto simp: flt_def is_nan_def rank_def exp_of_def lex_less_def Let_def align_cmp [of j]
      split: fval.splits)

lemma lex_less_asym: "lex_less p q \<Longrightarrow> \<not> lex_less q p"
  by (auto simp: lex_less_def)

lemma lex_less_trans: "lex_less p q \<Longrightarrow> lex_less q r \<Longrightarrow> lex_less p r"
  by (auto simp: lex_less_def)

lemma lex_less_linear: "\<not> lex_less q p \<Longrightarrow> \<not> lex_less r q \<Longrightarrow> \<not> lex_less r p"
  by (auto simp: lex_less_def)

lemma flt_irrefl: "\<not> flt a a"
  by (simp add: flt_def split: fval.splits)

lemma flt_asym: "flt a b \<Longrightarrow> \<not> flt b a"
  by (meson flt_nan flt_rank lex_less_asym min.cobounded1 min.cobounded2)

text \<open>One exponent below those of three numbers.\<close>

lemma common_exp:
  obtains j where "j \<le> exp_of a" and "j \<le> exp_of b" and "j \<le> exp_of c"
  using that [of "min (exp_of a) (min (exp_of b) (exp_of c))"] by simp

lemma flt_trans:
  assumes "flt a b" and "flt b c"
  shows "flt a c"
proof -
  obtain j where j: "j \<le> exp_of a" "j \<le> exp_of b" "j \<le> exp_of c"
    by (rule common_exp)
  have n: "\<not> is_nan a" "\<not> is_nan b" "\<not> is_nan c"
    using assms flt_nan by blast+
  show ?thesis
    using assms j n flt_rank lex_less_trans by meson
qed

text \<open>Without NaNs, \<open>not less\<close> is transitive too: sorting by a float key is well defined.\<close>

lemma flt_incomp_trans:
  assumes "\<not> flt b a" and "\<not> flt c b" and "\<not> is_nan a" and "\<not> is_nan b" and "\<not> is_nan c"
  shows "\<not> flt c a"
proof -
  obtain j where j: "j \<le> exp_of a" "j \<le> exp_of b" "j \<le> exp_of c"
    by (rule common_exp)
  show ?thesis
    using assms j flt_rank lex_less_linear by meson
qed

end
