(* ===== verification/Rng.thy ===== *)
theory Rng
  imports Bytes Float64
begin

text \<open>
  \<open>engine/rng.go\<close>: the counted per-vehicle random streams. A stream is the two PCG state
  words of \<open>math/rand/v2\<close> and the number of draws made through it. Derivation is FNV-1a 64
  over a domain label, the seed and the vehicle id; a keyframe carries the raw PCG words.
  \<open>Norm\<close> (the ziggurat normal of the standard library) is not modelled: nothing here needs a
  drawn value, only that streams are reproduced exactly.
\<close>

record stream =
  st_hi :: u64
  st_lo :: u64
  st_n :: u64

subsection \<open>Derivation\<close>

definition fnv_offset :: u64 where "fnv_offset = 14695981039346656037"

definition fnv_byte :: "u64 \<Rightarrow> u8 \<Rightarrow> u64" where
  "fnv_byte h b = (h XOR ucast b) * 1099511628211"

definition fnv_write :: "u64 \<Rightarrow> bytes \<Rightarrow> u64" where
  "fnv_write h bs = foldl fnv_byte h bs"

lemma fnv_write_append: "fnv_write h (a @ b) = fnv_write (fnv_write h a) b"
  by (simp add: fnv_write_def)

definition deriveStreamDomain :: "string \<Rightarrow> u64 \<Rightarrow> u64 \<Rightarrow> stream" where
  "deriveStreamDomain domain seed vid =
     (let s1 = fnv_write (fnv_write (fnv_write fnv_offset (bytes_of domain)) (put_u64 seed)) (put_u64 vid);
          s2 = fnv_write (fnv_write fnv_offset (bytes_of (domain @ ''/2''))) (put_u64 s1)
      in \<lparr>st_hi = s1, st_lo = s2, st_n = 0\<rparr>)"

definition deriveStream :: "u64 \<Rightarrow> u64 \<Rightarrow> stream" where
  "deriveStream seed vid = deriveStreamDomain ''traffic-sim/engine/vehicle-stream'' seed vid"

definition spawnAttrStream :: "u64 \<Rightarrow> u64 \<Rightarrow> stream" where
  "spawnAttrStream seed vid = deriveStreamDomain ''traffic-sim/engine/spawn-attr-stream'' seed vid"

subsection \<open>Draws\<close>

text \<open>
  \<open>rand.PCG\<close>: a 128-bit congruential step and the DXSM output; \<open>Rand.Float64\<close> keeps the low
  53 bits and divides by \<open>2 ^ 53\<close>.
\<close>

definition pcg_next :: "stream \<Rightarrow> stream" where
  "pcg_next s =
     (let x = (uint (st_hi s) * 2 ^ 64 + uint (st_lo s)) * 47026247687942121848144207491837523525
              + 117397592171526113268558934119004209487
      in s\<lparr>st_hi := word_of_int (x div 2 ^ 64), st_lo := word_of_int x\<rparr>)"

definition pcg_output :: "stream \<Rightarrow> u64" where
  "pcg_output s =
     (let h1 = st_hi s XOR drop_bit 32 (st_hi s);
          h2 = h1 * 15750249268501108917;
          h3 = h2 XOR drop_bit 48 h2
      in h3 * (st_lo s OR 1))"

definition stream_Float64 :: "stream \<Rightarrow> f64 \<times> stream" where
  "stream_Float64 s =
     (let s' = pcg_next (s\<lparr>st_n := st_n s + 1\<rparr>);
          k = drop_bit 11 (push_bit 11 (pcg_output s'))
      in (fdiv (f64_of_nat (unat k)) (f64_lit 9007199254740992 1), s'))"

definition Draws :: "stream \<Rightarrow> u64" where "Draws s = st_n s"

subsection \<open>Exact state capture\<close>

definition put_be64 :: "u64 \<Rightarrow> bytes" where "put_be64 x = rev (put_u64 x)"
definition get_be64 :: "bytes \<Rightarrow> u64" where "get_be64 b = get_u64 (rev (take 8 b))"

lemma length_put_be64 [simp]: "length (put_be64 x) = 8"
  by (simp add: put_be64_def)

lemma get_put_be64 [simp]: "get_be64 (put_be64 x @ r) = x"
  by (simp add: get_be64_def put_be64_def)

text \<open>\<open>PCG.MarshalBinary\<close>: the tag \<open>pcg:\<close> and the two words, big-endian.\<close>

definition marshalStream :: "stream \<Rightarrow> bytes" where
  "marshalStream s = bytes_of ''pcg:'' @ put_be64 (st_hi s) @ put_be64 (st_lo s)"

definition unmarshalStream :: "bytes \<Rightarrow> u64 \<Rightarrow> stream option" where
  "unmarshalStream b draws =
     (if length b \<noteq> 20 \<or> take 4 b \<noteq> bytes_of ''pcg:'' then None
      else Some \<lparr>st_hi = get_be64 (drop 4 b), st_lo = get_be64 (drop 12 b), st_n = draws\<rparr>)"

lemma length_marshalStream [simp]: "length (marshalStream s) = 20"
  by (simp add: marshalStream_def)

lemma unmarshal_marshal [simp, codec_simps]:
  "unmarshalStream (marshalStream s) (Draws s) = Some s"
proof -
  have "drop 4 (marshalStream s) = put_be64 (st_hi s) @ put_be64 (st_lo s)"
    and "drop 12 (marshalStream s) = put_be64 (st_lo s) @ []"
    and "take 4 (marshalStream s) = bytes_of ''pcg:''"
    by (simp_all add: marshalStream_def)
  then show ?thesis
    by (simp only: unmarshalStream_def length_marshalStream get_put_be64) (simp add: Draws_def)
qed

end
