(* ===== verification/World.thy ===== *)
theory World
  imports Rng "HOL-Library.AList"
begin

text \<open>
  The state of the simulation kernel, field by field as the Go structs have it
  (\<open>engine/engine.go\<close>, \<open>network.go\<close>, \<open>vehicle.go\<close>, \<open>spawn.go\<close>, \<open>signal.go\<close>, \<open>sigctl.go\<close>,
  \<open>director.go\<close>, \<open>intent.go\<close>). A pointer to a lane, a signal program or a vehicle type is its
  index in the list that owns it: \<open>NewEngine\<close> rejects a network whose \<open>Lane.Index\<close> is not the
  slice position, so indices identify exactly what pointers do. Observability counters that no
  modelled operation reads are left out of the records.
\<close>

subsection \<open>Network\<close>

datatype RowState = RowNone | RowMajor | RowMinor | RowStop

record SignalPhase =
  ph_Duration :: f64
  ph_State :: string

record SignalProgram =
  pg_ID :: string
  pg_Junction :: string
  pg_Offset :: f64
  pg_Phases :: "SignalPhase list"
  pg_phaseTicks :: "u64 list"
  pg_cycle :: u64
  pg_offsetTicks :: u64
  pg_clearance :: u64

record VehicleType =
  vt_Name :: string
  vt_Length :: f64
  vt_Width :: f64
  vt_S0 :: f64
  vt_T :: f64
  vt_A :: f64
  vt_B :: f64
  vt_V0 :: f64

record Lane =
  l_ID :: string
  l_Section :: string
  l_Length :: f64
  l_SpeedLimit :: f64
  l_Successors :: "nat list"
  l_Prevs :: "nat list"
  l_Left :: "nat option"
  l_Right :: "nat option"
  l_Exit :: bool
  l_EndWall :: bool
  l_Internal :: bool
  l_Row :: RowState
  l_FoesCross :: "nat list"
  l_FoesMerge :: "nat list"
  l_Signal :: "nat option"
  l_LinkIdx :: nat
  l_ttEMA :: f64

record Network =
  n_Lanes :: "Lane list"
  n_Origins :: "nat list"
  n_Signals :: "SignalProgram list"

subsection \<open>Vehicles and demand\<close>

record Vehicle =
  v_ID :: u64
  v_TypeIdx :: nat
  v_Lane :: nat
  v_S :: f64
  v_V :: f64
  v_F :: f64
  v_Acc :: f64
  v_Cooldown :: u64
  v_rng :: stream
  v_Cruise :: f64
  v_CruiseOK :: bool
  v_HeldTurn :: int
  v_Signals :: int
  v_Route :: string
  v_reqAcc :: f64
  v_reqAccOK :: bool
  v_reqLane :: int
  v_stopDone :: bool
  v_stuckTicks :: u64
  v_laneEntryTick :: u64

text \<open>The pending vehicle of an origin is kept as its id and stream until it enters.\<close>

record originState =
  o_lane :: nat
  o_rate :: f64
  o_pendID :: u64
  o_pendRng :: stream
  o_tick :: u64

record Spawner =
  sp_target :: f64
  sp_sched :: "(u64 \<times> f64) list"
  sp_next :: nat
  sp_origins :: "originState list"

subsection \<open>Intents and directives\<close>

record Intent =
  in_VehicleID :: u64
  in_Accel :: f64
  in_AccelSet :: bool
  in_SpeedSetpoint :: f64
  in_SpeedSet :: bool
  in_LaneDelta :: int
  in_Turn :: int
  in_TurnSet :: bool
  in_Route :: string
  in_RouteSet :: bool
  in_Signals :: int
  in_SignalSet :: bool

record KeyedIntent =
  ki_Controller :: string
  ki_Seq :: u64
  ki_Grant :: u8
  ki_Held :: bool
  ki_Intent :: Intent

record TickedIntent =
  ti_Tick :: u64
  ti_Superseded :: bool
  ti_Keyed :: KeyedIntent

record SpawnDirective =
  sd_RequestID :: string
  sd_Origin :: string
  sd_TypeName :: string
  sd_EarliestTick :: u64
  sd_Destination :: string
  sd_OffsetM :: f64

record TickedSpawn =
  ts_Tick :: u64
  ts_TypeIdx :: nat
  ts_LaneIdx :: nat
  ts_Dir :: SpawnDirective

record SignalDirective =
  sg_RequestID :: string
  sg_Signal :: string
  sg_Phase :: int
  sg_HoldTicks :: u64

record TickedSignal =
  tg_Tick :: u64
  tg_SignalIdx :: nat
  tg_Dir :: SignalDirective

text \<open>\<open>[ov_since, ov_until)\<close> is the interval a held command governs.\<close>

record sigOverride =
  ov_phase :: int
  ov_since :: u64
  ov_until :: u64
  ov_chainStart :: u64
  ov_requestID :: string

record SigLapse =
  lp_Signal :: string
  lp_Phase :: int
  lp_Since :: u64
  lp_Until :: u64
  lp_RequestID :: string

subsection \<open>The engine\<close>

record Params =
  p_Dt :: f64
  p_BSafe :: f64
  p_Politeness :: f64
  p_LCThreshold :: f64
  p_MinGapLC :: f64
  p_MinGapMerge :: f64
  p_MergeZone :: f64
  p_MergeUrgencyGain :: f64
  p_LCCooldown :: u64
  p_SpawnCooldown :: u64
  p_SpeedFactorSigma :: f64
  p_SpawnJitter :: f64
  p_SafetyDecel :: f64
  p_StrandAfterS :: f64
  p_AdaptiveRouting :: bool

text \<open>The fields of the scenario that a running engine reads, besides the vehicle types.\<close>

record Scenario =
  sc_DensityTargetPerKm :: f64
  sc_TypeWeights :: "f64 list"
  sc_UncontrolledPolicy :: string

text \<open>
  \<open>e_order\<close> is the live population in spawn order. The Go \<open>index\<close> map is rebuilt from it and
  written by \<open>register\<close> in the same order, so a lookup is the last vehicle of \<open>e_order\<close> with
  the id. The override table \<open>e_sigOv\<close> is an association list, so that its emptiness test
  (\<open>len(e.sigOv) > 0\<close>) computes.
\<close>

record Engine =
  e_Params :: Params
  e_Seed :: u64
  e_Net :: Network
  e_Tick :: u64
  e_order :: "Vehicle list"
  e_nextID :: u64
  e_Types :: "VehicleType list"
  e_scen :: Scenario
  e_spawner :: "Spawner option"
  e_crc :: u64
  e_intentQ :: "KeyedIntent list"
  e_applied :: "TickedIntent list"
  e_IntentLog :: "TickedIntent list"
  e_DropIntentLog :: bool
  e_dirNew :: "TickedSpawn list"
  e_dirQueue :: "TickedSpawn list"
  e_sigOv :: "(string \<times> sigOverride list) list"
  e_sigNew :: "TickedSignal list"
  e_appliedSig :: "TickedSignal list"
  e_sigLapses :: "SigLapse list"
  e_SigLog :: "TickedSignal list"
  e_ttSnap :: "f64 list"

abbreviation e_Lanes :: "Engine \<Rightarrow> Lane list" where "e_Lanes e \<equiv> n_Lanes (e_Net e)"
abbreviation e_Signals :: "Engine \<Rightarrow> SignalProgram list" where "e_Signals e \<equiv> n_Signals (e_Net e)"

text \<open>\<open>e.sigOv[id]\<close>: a missing key reads as the empty history.\<close>

definition ov_hist :: "(string \<times> sigOverride list) list \<Rightarrow> string \<Rightarrow> sigOverride list" where
  "ov_hist t k = (case map_of t k of Some h \<Rightarrow> h | None \<Rightarrow> [])"

lemma ov_hist_update: "ov_hist (AList.update k v t) j = (if j = k then v else ov_hist t j)"
  by (simp add: ov_hist_def update_conv')

lemma ov_hist_delete: "ov_hist (AList.delete k t) j = (if j = k then [] else ov_hist t j)"
  by (simp add: ov_hist_def delete_conv')

end
