(* ===== verification/Signal.thy ===== *)
theory Signal
  imports World
begin

text \<open>
  \<open>engine/signal.go\<close>: fixed-time signal programs and the phase in force. A program is data;
  its light state is a function of the tick and of the table of commanded overrides
  (\<open>sigctl.go\<close>). \<open>sigPhaseAt\<close> is the one derivation point; \<open>sigState\<close>, \<open>sigPermissive\<close> and
  \<open>sigInClearance\<close> read the phase through it. \<open>sigGate\<close>, which turns the state into an
  acceleration cap, needs the car-following arithmetic and is not modelled here.
  Go panics on a modulo by a zero cycle; \<open>compileTicks\<close> never produces one (\<open>compiled_pos\<close>).
\<close>

datatype SigState = SigOff | SigGreen | SigAmber | SigRed

datatype sig_error =
    Empty_id
  | No_phases string
  | Bad_duration string nat f64
  | Ragged string nat nat nat
  | Bad_tick string f64
  | Zero_ticks string nat f64 f64

subsection \<open>Building and compiling a program\<close>

fun check_phases :: "string \<Rightarrow> nat \<Rightarrow> nat \<Rightarrow> SignalPhase list \<Rightarrow> sig_error + unit" where
  "check_phases pid n i [] = Inr ()"
| "check_phases pid n i (ph # phs) =
     (if fle (ph_Duration ph) 0 then Inl (Bad_duration pid i (ph_Duration ph))
      else if length (ph_State ph) \<noteq> n then Inl (Ragged pid i (length (ph_State ph)) n)
      else check_phases pid n (Suc i) phs)"

definition newSignalProgram ::
  "string \<Rightarrow> string \<Rightarrow> f64 \<Rightarrow> SignalPhase list \<Rightarrow> sig_error + SignalProgram" where
  "newSignalProgram pid junction offset phases =
     (if pid = '''' then Inl Empty_id
      else case phases of
        [] \<Rightarrow> Inl (No_phases pid)
      | ph # _ \<Rightarrow> (case check_phases pid (length (ph_State ph)) 0 phases of
          Inl e \<Rightarrow> Inl e
        | Inr _ \<Rightarrow> Inr \<lparr>pg_ID = pid, pg_Junction = junction, pg_Offset = offset,
            pg_Phases = phases, pg_phaseTicks = [], pg_cycle = 0, pg_offsetTicks = 0,
            pg_clearance = 0\<rparr>))"

definition clearanceSeconds :: f64 where "clearanceSeconds = f64_lit 3 1"

fun compile_phases ::
  "string \<Rightarrow> f64 \<Rightarrow> nat \<Rightarrow> SignalPhase list \<Rightarrow> u64 \<Rightarrow> sig_error + (u64 list \<times> u64)" where
  "compile_phases pid dt i [] cyc = Inr ([], cyc)"
| "compile_phases pid dt i (ph # phs) cyc =
     (let tk = to_ticks (ph_Duration ph) dt in
      if tk = 0 then Inl (Zero_ticks pid i (ph_Duration ph) dt)
      else case compile_phases pid dt (Suc i) phs (cyc + tk) of
        Inl e \<Rightarrow> Inl e
      | Inr (tks, c) \<Rightarrow> Inr (tk # tks, c))"

definition compileTicks :: "f64 \<Rightarrow> SignalProgram \<Rightarrow> sig_error + SignalProgram" where
  "compileTicks dt p =
     (if fle dt 0 then Inl (Bad_tick (pg_ID p) dt)
      else case compile_phases (pg_ID p) dt 0 (pg_Phases p) (pg_cycle p) of
        Inl e \<Rightarrow> Inl e
      | Inr (tks, c) \<Rightarrow> Inr (p\<lparr>pg_phaseTicks := tks, pg_cycle := c,
          pg_offsetTicks := to_ticks (pg_Offset p) dt,
          pg_clearance := to_ticks clearanceSeconds dt\<rparr>))"

fun compileSignalTicks :: "f64 \<Rightarrow> SignalProgram list \<Rightarrow> sig_error + SignalProgram list" where
  "compileSignalTicks dt [] = Inr []"
| "compileSignalTicks dt (p # ps) =
     (case compileTicks dt p of
        Inl e \<Rightarrow> Inl e
      | Inr p' \<Rightarrow> (case compileSignalTicks dt ps of Inl e \<Rightarrow> Inl e | Inr ps' \<Rightarrow> Inr (p' # ps')))"

subsection \<open>The fixed-time schedule\<close>

fun phase_walk :: "u64 list \<Rightarrow> nat \<Rightarrow> u64 \<Rightarrow> (int \<times> u64) option" where
  "phase_walk [] i x = None"
| "phase_walk (tk # tks) i x = (if x < tk then Some (int i, x) else phase_walk tks (Suc i) (x - tk))"

definition phaseAtElapsed :: "SignalProgram \<Rightarrow> u64 \<Rightarrow> int \<times> u64" where
  "phaseAtElapsed p tick =
     (let c = pg_cycle p; x = (tick mod c + c - pg_offsetTicks p mod c) mod c in
      case phase_walk (pg_phaseTicks p) 0 x of
        Some r \<Rightarrow> r
      | None \<Rightarrow> (int (length (pg_phaseTicks p)) - 1, 0))"

definition phaseAt :: "SignalProgram \<Rightarrow> u64 \<Rightarrow> int" where
  "phaseAt p tick = fst (phaseAtElapsed p tick)"

definition CompiledTicks :: "SignalProgram \<Rightarrow> u64 list \<times> u64" where
  "CompiledTicks p = (pg_phaseTicks p, pg_offsetTicks p)"

subsection \<open>The phase in force\<close>

definition mapSigChar :: "char \<Rightarrow> SigState" where
  "mapSigChar c =
     (if c = CHR ''g'' \<or> c = CHR ''G'' then SigGreen
      else if c = CHR ''y'' then SigAmber
      else if c = CHR ''r'' then SigRed
      else SigOff)"

definition ov_covers :: "sigOverride \<Rightarrow> u64 \<Rightarrow> bool" where
  "ov_covers ov tick \<longleftrightarrow> ov_since ov \<le> tick \<and> tick < ov_until ov"

definition sigPhaseAt :: "Engine \<Rightarrow> SignalProgram \<Rightarrow> u64 \<Rightarrow> int \<times> u64" where
  "sigPhaseAt e p tick =
     (case find (\<lambda>ov. ov_covers ov tick) (rev (ov_hist (e_sigOv e) (pg_ID p))) of
        Some ov \<Rightarrow> (ov_phase ov, tick - ov_since ov)
      | None \<Rightarrow> phaseAtElapsed p tick)"

definition phase_state :: "SignalProgram \<Rightarrow> int \<Rightarrow> string" where
  "phase_state p i = ph_State (pg_Phases p ! nat i)"

definition sigState :: "Engine \<Rightarrow> Lane \<Rightarrow> SigState" where
  "sigState e l =
     (case l_Signal l of
        None \<Rightarrow> SigOff
      | Some k \<Rightarrow>
          (let p = e_Signals e ! k in
           if pg_phaseTicks p = [] then SigOff
           else let st = phase_state p (fst (sigPhaseAt e p (e_Tick e))) in
             if length st \<le> l_LinkIdx l then SigOff else mapSigChar (st ! l_LinkIdx l)))"

definition sigPermissive :: "Engine \<Rightarrow> Lane \<Rightarrow> bool" where
  "sigPermissive e l =
     (case l_Signal l of
        None \<Rightarrow> False
      | Some k \<Rightarrow>
          (let p = e_Signals e ! k in
           if pg_phaseTicks p = [] then False
           else let st = phase_state p (fst (sigPhaseAt e p (e_Tick e))) in
             if length st \<le> l_LinkIdx l then False else st ! l_LinkIdx l = CHR ''g''))"

subsection \<open>Display onset and red clearance\<close>

text \<open>The newest-first scan of \<open>sigSpanOnset\<close>: the covering hold, or the most recent lapse.\<close>

fun span_scan :: "SignalProgram \<Rightarrow> u64 \<Rightarrow> sigOverride list \<Rightarrow> (int \<times> u64 \<times> bool) option" where
  "span_scan p x [] = None"
| "span_scan p x (ov # h) =
     (if ov_covers ov x then Some (ov_phase ov, ov_since ov, True)
      else if ov_until ov \<le> x then
        (let (idx, elapsed) = phaseAtElapsed p x in
         if x < elapsed then
           (if 0 < ov_until ov then Some (idx, ov_until ov, True) else Some (idx, 0, False))
         else let fixedOnset = x - elapsed in
           if fixedOnset < ov_until ov then Some (idx, ov_until ov, True)
           else Some (idx, fixedOnset, ov_until ov = fixedOnset))
      else span_scan p x h)"

definition sigSpanOnset :: "Engine \<Rightarrow> SignalProgram \<Rightarrow> u64 \<Rightarrow> int \<times> u64 \<times> bool" where
  "sigSpanOnset e p x =
     (case span_scan p x (rev (ov_hist (e_sigOv e) (pg_ID p))) of
        Some r \<Rightarrow> r
      | None \<Rightarrow> (let (idx, elapsed) = phaseAtElapsed p x in
                if x < elapsed then (idx, 0, False) else (idx, x - elapsed, False)))"

definition sigPhaseState :: "SignalProgram \<Rightarrow> nat \<Rightarrow> int \<Rightarrow> SigState" where
  "sigPhaseState p link idx =
     (let st = phase_state p idx in if length st \<le> link then SigOff else mapSigChar (st ! link))"

lemma u64_diff_le: "(y :: u64) \<le> x \<Longrightarrow> x - y \<le> x"
  by (simp add: word_le_nat_alt unat_sub)

lemma span_scan_onset_le: "span_scan p x h = Some (i, on, b) \<Longrightarrow> on \<le> x"
  by (induction h)
    (auto simp: ov_covers_def Let_def u64_diff_le split: if_splits prod.splits)

lemma sigSpanOnset_le: "sigSpanOnset e p x = (i, on, b) \<Longrightarrow> on \<le> x"
  by (auto simp: sigSpanOnset_def u64_diff_le dest: span_scan_onset_le
      split: option.splits if_splits prod.splits)

lemma u64_pred_less: "0 < (x :: u64) \<Longrightarrow> y \<le> x - 1 \<Longrightarrow> unat y < unat x"
proof -
  assume a: "0 < x" and b: "y \<le> x - 1"
  have "unat (x - 1) = unat x - 1"
    using a by (subst u64_sub_unat) (simp_all add: word_le_nat_alt word_less_nat_alt)
  then show ?thesis
    using a b by (simp add: word_le_nat_alt word_less_nat_alt)
qed

text \<open>The onset walk of \<open>sigDisplayedOnset\<close>; every step moves the onset strictly back.\<close>

function displayed_walk ::
  "Engine \<Rightarrow> SignalProgram \<Rightarrow> nat \<Rightarrow> SigState \<Rightarrow> u64 \<Rightarrow> u64 \<Rightarrow> bool \<Rightarrow> u64" where
  "displayed_walk e p link state tick onset boundary =
     (if 0 < onset \<and> boundary \<and> tick - onset \<le> pg_clearance p
      then (case sigSpanOnset e p (onset - 1) of (prevIdx, prevOnset, prevBoundary) \<Rightarrow>
        if sigPhaseState p link prevIdx \<noteq> state then onset
        else displayed_walk e p link state tick prevOnset prevBoundary)
      else onset)"
  by pat_completeness auto
termination
  by (relation "measure (\<lambda>(e, p, link, state, tick, onset, boundary). unat onset)")
    (auto dest!: sigSpanOnset_le [OF sym] intro: u64_pred_less)

declare displayed_walk.simps [simp del]

definition sigDisplayedOnset :: "Engine \<Rightarrow> SignalProgram \<Rightarrow> nat \<Rightarrow> u64 \<Rightarrow> int \<times> u64" where
  "sigDisplayedOnset e p link tick =
     (let (idx, onset, boundary) = sigSpanOnset e p tick in
      (idx, displayed_walk e p link (sigPhaseState p link idx) tick onset boundary))"

definition sigInClearance :: "Engine \<Rightarrow> Lane \<Rightarrow> bool" where
  "sigInClearance e l =
     (case l_Signal l of
        None \<Rightarrow> False
      | Some k \<Rightarrow>
          (let p = e_Signals e ! k; (_, onset) = sigDisplayedOnset e p (l_LinkIdx l) (e_Tick e) in
           if onset = 0 \<or> pg_clearance p < e_Tick e - onset then False
           else let prev = phase_state p (fst (sigPhaseAt e p (onset - 1))) in
             if length prev \<le> l_LinkIdx l then False
             else mapSigChar (prev ! l_LinkIdx l) = SigAmber))"

subsection \<open>The schedule is a cyclic walk\<close>

text \<open>What \<open>compileTicks\<close> establishes and the schedule relies on.\<close>

definition compiled :: "SignalProgram \<Rightarrow> bool" where
  "compiled p \<longleftrightarrow>
     pg_phaseTicks p \<noteq> [] \<and> length (pg_phaseTicks p) = length (pg_Phases p) \<and>
     0 \<notin> set (pg_phaseTicks p) \<and>
     unat (pg_cycle p) = sum_list (map unat (pg_phaseTicks p)) \<and>
     unat (pg_cycle p) < 9223372036854775808"

abbreviation ticks_before :: "u64 list \<Rightarrow> nat \<Rightarrow> nat" where
  "ticks_before tks k \<equiv> sum_list (map unat (take k tks))"

lemma compiled_pos: "compiled p \<Longrightarrow> 0 < unat (pg_cycle p)"
  by (cases "pg_phaseTicks p") (auto simp: compiled_def unat_gt_0)

text \<open>Every position inside the cycle lies in exactly one phase.\<close>

lemma ticks_position:
  "y < sum_list (map unat tks) \<Longrightarrow>
   \<exists>k < length tks. ticks_before tks k \<le> y \<and> y < ticks_before tks k + unat (tks ! k)"
proof (induction tks arbitrary: y)
  case Nil
  then show ?case by simp
next
  case (Cons tk tks)
  show ?case
  proof (cases "y < unat tk")
    case True
    then show ?thesis by (intro exI [of _ 0]) simp
  next
    case False
    with Cons.prems have "y - unat tk < sum_list (map unat tks)" by simp
    from Cons.IH [OF this] obtain k where "k < length tks"
      "ticks_before tks k \<le> y - unat tk" "y - unat tk < ticks_before tks k + unat (tks ! k)"
      by blast
    then show ?thesis using False by (intro exI [of _ "Suc k"]) auto
  qed
qed

lemma phase_walk_at:
  "k < length tks \<Longrightarrow> unat el < unat (tks ! k) \<Longrightarrow> unat x = ticks_before tks k + unat el \<Longrightarrow>
   phase_walk tks i x = Some (int (i + k), el)"
proof (induction tks arbitrary: k i x)
  case Nil
  then show ?case by simp
next
  case (Cons tk tks)
  show ?case
  proof (cases k)
    case 0
    then have "unat x = unat el" using Cons.prems by simp
    then have "x = el" by (rule word_unat_eq_iff [THEN iffD2])
    then show ?thesis using Cons.prems 0 by (simp add: word_less_nat_alt)
  next
    case (Suc k')
    then have x: "unat x = unat tk + (ticks_before tks k' + unat el)"
      using Cons.prems(3) by simp
    then have le: "tk \<le> x" by (simp add: word_le_nat_alt)
    then have d: "unat (x - tk) = ticks_before tks k' + unat el"
      using x by (simp add: u64_sub_unat)
    have "phase_walk tks (Suc i) (x - tk) = Some (int (Suc i + k'), el)"
      using Cons.prems(1,2) Suc d by (intro Cons.IH) simp_all
    moreover have "\<not> x < tk" using le by simp
    ultimately show ?thesis using Suc by simp
  qed
qed

text \<open>The position in the cycle as the code computes it, in exact arithmetic.\<close>

definition cycle_pos :: "SignalProgram \<Rightarrow> u64 \<Rightarrow> nat" where
  "cycle_pos p tick =
     (unat tick + (unat (pg_cycle p) - unat (pg_offsetTicks p) mod unat (pg_cycle p)))
     mod unat (pg_cycle p)"

lemma cycle_pos_word:
  assumes "compiled p"
  shows "unat ((tick mod pg_cycle p + pg_cycle p - pg_offsetTicks p mod pg_cycle p) mod pg_cycle p)
         = cycle_pos p tick"
proof -
  let ?c = "unat (pg_cycle p)" and ?o = "unat (pg_offsetTicks p)"
  have c: "0 < ?c" "?c < 9223372036854775808"
    using assms compiled_pos by (auto simp: compiled_def)
  have t: "unat tick mod ?c < ?c" and o: "?o mod ?c < ?c"
    using c by simp_all
  have a: "unat (tick mod pg_cycle p + pg_cycle p) = unat tick mod ?c + ?c"
  proof -
    have "unat tick mod ?c + ?c < 18446744073709551616" using t c(2) by linarith
    then have "unat (tick mod pg_cycle p) + ?c < 18446744073709551616" by (simp only: unat_mod)
    then show ?thesis by (simp only: u64_add_no_wrap unat_mod)
  qed
  have "unat (tick mod pg_cycle p + pg_cycle p - pg_offsetTicks p mod pg_cycle p)
        = unat tick mod ?c + ?c - ?o mod ?c"
    using o by (subst u64_sub_unat) (simp_all add: a word_le_nat_alt unat_mod)
  also have "\<dots> = unat tick mod ?c + (?c - ?o mod ?c)"
    using o by simp
  finally show ?thesis
    by (simp add: unat_mod cycle_pos_def mod_add_left_eq)
qed

lemma phaseAtElapsed_at:
  assumes "compiled p" and "k < length (pg_phaseTicks p)"
    and "unat el < unat (pg_phaseTicks p ! k)"
    and "cycle_pos p tick = ticks_before (pg_phaseTicks p) k + unat el"
  shows "phaseAtElapsed p tick = (int k, el)"
  using assms phase_walk_at [of k "pg_phaseTicks p" el _ 0] cycle_pos_word [OF assms(1)]
  by (simp add: phaseAtElapsed_def Let_def)

lemma cycle_pos_less: "compiled p \<Longrightarrow> cycle_pos p tick < unat (pg_cycle p)"
  using compiled_pos by (simp add: cycle_pos_def)

text \<open>The characterisation every later fact about the schedule uses.\<close>

lemma phaseAtElapsed_spec:
  assumes "compiled p"
  obtains k el where "phaseAtElapsed p tick = (int k, el)" and "k < length (pg_phaseTicks p)"
    and "unat el < unat (pg_phaseTicks p ! k)"
    and "cycle_pos p tick = ticks_before (pg_phaseTicks p) k + unat el"
proof -
  have "cycle_pos p tick < sum_list (map unat (pg_phaseTicks p))"
    using cycle_pos_less [OF assms, of tick] assms by (simp add: compiled_def)
  from ticks_position [OF this] obtain k where k: "k < length (pg_phaseTicks p)"
    and lo: "ticks_before (pg_phaseTicks p) k \<le> cycle_pos p tick"
    and hi: "cycle_pos p tick < ticks_before (pg_phaseTicks p) k + unat (pg_phaseTicks p ! k)"
    by blast
  let ?d = "cycle_pos p tick - ticks_before (pg_phaseTicks p) k"
  have "?d < 18446744073709551616"
    using hi lo unat_u64_less [of "pg_phaseTicks p ! k"] by linarith
  then have u: "unat (word_of_nat ?d :: u64) = ?d"
    by (simp add: unat_of_nat)
  have "phaseAtElapsed p tick = (int k, word_of_nat ?d)"
    using k hi lo u by (intro phaseAtElapsed_at [OF assms]) simp_all
  then show thesis
    by (rule that [OF _ k]) (use hi lo u in simp_all)
qed

lemma cycle_pos_Suc:
  assumes "compiled p" and "unat tick + 1 < 18446744073709551616"
  shows "cycle_pos p (tick + 1) = (cycle_pos p tick + 1) mod unat (pg_cycle p)"
proof -
  have "unat (tick + 1) = unat tick + 1"
    using assms(2) by (subst u64_add_no_wrap) simp_all
  then show ?thesis
    by (simp add: cycle_pos_def mod_Suc_eq)
qed

lemma ticks_before_Suc:
  "k < length tks \<Longrightarrow> ticks_before tks (Suc k) = ticks_before tks k + unat (tks ! k)"
  by (simp add: take_Suc_conv_app_nth)

text \<open>
  the fixed-time schedule is a cyclic walk. From one tick to the next, the phase in force
  either stays and its age grows by one, or its compiled duration is used up and the next
  phase of the table (the first after the last) begins with age 0. Nothing is skipped and no
  phase is shown for longer or shorter than its duration.
\<close>

theorem phase_advances:
  assumes "compiled p" and "unat tick + 1 < 18446744073709551616"
    and "phaseAtElapsed p tick = (i, el)"
  shows "0 \<le> i \<and> nat i < length (pg_phaseTicks p) \<and> el < pg_phaseTicks p ! nat i \<and>
         phaseAtElapsed p (tick + 1) =
           (if el + 1 < pg_phaseTicks p ! nat i then (i, el + 1)
            else ((i + 1) mod int (length (pg_phaseTicks p)), 0))"
proof -
  let ?tks = "pg_phaseTicks p"
  obtain k where k: "i = int k" "k < length ?tks" "unat el < unat (?tks ! k)"
    and y: "cycle_pos p tick = ticks_before ?tks k + unat el"
    using phaseAtElapsed_spec [OF assms(1), of tick] assms(3) by (metis prod.inject)
  have c: "unat (pg_cycle p) = ticks_before ?tks (length ?tks)" and zero: "0 \<notin> set ?tks"
    using assms(1) by (simp_all add: compiled_def)
  have el1: "unat (el + 1) = unat el + 1"
  proof -
    have "unat el + unat (1 :: u64) < 18446744073709551616"
      using k(3) unat_u64_less [of "?tks ! k"] by (simp only: unat_1)
    then show ?thesis by (simp only: u64_add_no_wrap) simp
  qed
  have mono: "ticks_before ?tks (Suc k) \<le> ticks_before ?tks (length ?tks)"
  proof -
    have "ticks_before ?tks (length ?tks)
          = ticks_before ?tks (Suc k) + sum_list (map unat (drop (Suc k) ?tks))"
      by (metis append_take_drop_id map_append sum_list.append take_all_iff order_refl)
    then show ?thesis by simp
  qed
  have next_phase: "phaseAtElapsed p (tick + 1) =
      (if el + 1 < ?tks ! k then (int k, el + 1) else (int (Suc k mod length ?tks), 0))"
  proof (cases "el + 1 < ?tks ! k")
    case True
    then have "cycle_pos p tick + 1 < unat (pg_cycle p)"
      using y mono ticks_before_Suc [OF k(2)] c el1 by (simp add: word_less_nat_alt)
    then have "cycle_pos p (tick + 1) = ticks_before ?tks k + unat (el + 1)"
      using cycle_pos_Suc [OF assms(1,2)] y el1 by simp
    then show ?thesis
      using True k phaseAtElapsed_at [OF assms(1) k(2), of "el + 1"]
      by (simp add: word_less_nat_alt)
  next
    case False
    then have full: "cycle_pos p tick + 1 = ticks_before ?tks (Suc k)"
      using y k(3) el1 ticks_before_Suc [OF k(2)] by (simp add: word_less_nat_alt)
    show ?thesis
    proof (cases "Suc k < length ?tks")
      case True
      then have pos: "0 < unat (?tks ! Suc k)"
        using zero by (metis nth_mem unat_gt_0)
      have "ticks_before ?tks (Suc (Suc k)) \<le> ticks_before ?tks (length ?tks)"
        by (metis append_take_drop_id map_append sum_list.append take_all_iff order_refl
            le_add1)
      then have "cycle_pos p (tick + 1) = ticks_before ?tks (Suc k) + unat (0 :: u64)"
        using cycle_pos_Suc [OF assms(1,2)] full c pos ticks_before_Suc [OF True] by simp
      then show ?thesis
        using False True pos phaseAtElapsed_at [OF assms(1) True, of 0] by simp
    next
      case last: False
      then have "Suc k = length ?tks" using k(2) by simp
      then have "cycle_pos p (tick + 1) = ticks_before ?tks 0 + unat (0 :: u64)"
        using cycle_pos_Suc [OF assms(1,2)] full c by simp
      moreover have "0 < unat (?tks ! 0)" and "0 < length ?tks"
        using zero k(2) by (metis nth_mem unat_gt_0 gr_zeroI not_less_zero, linarith)
      ultimately show ?thesis
        using False \<open>Suc k = length ?tks\<close> phaseAtElapsed_at [OF assms(1), of 0 0]
        by (simp del: length_greater_0_conv)
    qed
  qed
  show ?thesis
    using k next_phase by (simp add: word_less_nat_alt zmod_int algebra_simps)
qed

end
