(* ===== verification/Demo.thy ===== *)
theory Demo
  imports Signal
begin

text \<open>
  A small concrete world: one lane of 100 m behind a signal with the phases green, amber, red,
  and an engine at tick 25 whose override table still retains an amber hold that governed the
  ticks 10 to 19. The witnesses of the other theories evaluate the model on it.
\<close>

definition demo_phases :: "SignalPhase list" where
  "demo_phases = [\<lparr>ph_Duration = f64_lit 30 1, ph_State = ''Gr''\<rparr>,
    \<lparr>ph_Duration = f64_lit 3 1, ph_State = ''yr''\<rparr>,
    \<lparr>ph_Duration = f64_lit 27 1, ph_State = ''rG''\<rparr>]"

definition demo_program :: SignalProgram where
  "demo_program = \<lparr>pg_ID = ''j1'', pg_Junction = ''j1'', pg_Offset = 0, pg_Phases = demo_phases,
     pg_phaseTicks = [], pg_cycle = 0, pg_offsetTicks = 0, pg_clearance = 0\<rparr>"

definition demo_compiled :: SignalProgram where
  "demo_compiled = demo_program\<lparr>pg_phaseTicks := [300, 30, 270], pg_cycle := 600,
     pg_offsetTicks := 0, pg_clearance := 30\<rparr>"

lemma demo_compiled_ok: "compiled demo_compiled"
  by (simp add: compiled_def demo_compiled_def demo_program_def demo_phases_def)

definition demo_lane :: Lane where
  "demo_lane = \<lparr>l_ID = ''a'', l_Section = ''s'', l_Length = f64_lit 100 1,
     l_SpeedLimit = f64_lit 14 1, l_Successors = [], l_Prevs = [], l_Left = None, l_Right = None,
     l_Exit = True, l_EndWall = False, l_Internal = False, l_Row = RowNone, l_FoesCross = [],
     l_FoesMerge = [], l_Signal = Some 0, l_LinkIdx = 0, l_ttEMA = 0\<rparr>"

definition demo_net :: Network where
  "demo_net = \<lparr>n_Lanes = [demo_lane], n_Origins = [0], n_Signals = [demo_compiled]\<rparr>"

definition demo_params :: Params where
  "demo_params = \<lparr>p_Dt = f64_lit 1 10, p_BSafe = f64_lit 4 1, p_Politeness = f64_lit 3 10,
     p_LCThreshold = f64_lit 2 10, p_MinGapLC = f64_lit 1 2, p_MinGapMerge = f64_lit 3 10,
     p_MergeZone = f64_lit 200 1, p_MergeUrgencyGain = f64_lit 5 1, p_LCCooldown = 20,
     p_SpawnCooldown = 10, p_SpeedFactorSigma = f64_lit 1 10, p_SpawnJitter = f64_lit 3 10,
     p_SafetyDecel = 0, p_StrandAfterS = f64_lit 300 1, p_AdaptiveRouting = False\<rparr>"

definition demo_scen :: Scenario where
  "demo_scen = \<lparr>sc_DensityTargetPerKm = 0, sc_TypeWeights = [], sc_UncontrolledPolicy = ''idm''\<rparr>"

definition demo_hold :: sigOverride where
  "demo_hold = \<lparr>ov_phase = 1, ov_since = 10, ov_until = 20, ov_chainStart = 10,
     ov_requestID = ''r1''\<rparr>"

definition demo_type :: VehicleType where
  "demo_type = \<lparr>vt_Name = ''car'', vt_Length = f64_lit 5 1, vt_Width = f64_lit 2 1,
     vt_S0 = f64_lit 2 1, vt_T = f64_lit 3 2, vt_A = f64_lit 3 2, vt_B = f64_lit 2 1,
     vt_V0 = f64_lit 30 1\<rparr>"

definition demo_vehicle :: "u64 \<Rightarrow> Vehicle" where
  "demo_vehicle vid = \<lparr>v_ID = vid, v_TypeIdx = 0, v_Lane = 0, v_S = f64_lit 20 1, v_V = f64_lit 7 1,
     v_F = f64_lit 1 1, v_Acc = 0, v_Cooldown = 0, v_rng = \<lparr>st_hi = 3, st_lo = 5, st_n = 0\<rparr>,
     v_Cruise = 0, v_CruiseOK = False, v_HeldTurn = 0, v_Signals = 0, v_Route = [], v_reqAcc = 0,
     v_reqAccOK = False, v_reqLane = 0, v_stopDone = False, v_stuckTicks = 0, v_laneEntryTick = 0\<rparr>"

definition demo_engine :: Engine where
  "demo_engine = \<lparr>e_Params = demo_params, e_Seed = 1, e_Net = demo_net, e_Tick = 25,
     e_order = [demo_vehicle 1, demo_vehicle 2],
     e_nextID = 3, e_Types = [demo_type], e_scen = demo_scen, e_spawner = None, e_crc = 0, e_intentQ = [], e_applied = [],
     e_IntentLog = [], e_DropIntentLog = False, e_dirNew = [], e_dirQueue = [],
     e_sigOv = [(''j1'', [demo_hold])], e_sigNew = [], e_appliedSig = [], e_sigLapses = [],
     e_SigLog = [], e_ttSnap = []\<rparr>"

lemma phase_advances_witness:
  "phaseAtElapsed demo_compiled 299 = (0, 299) \<and> phaseAtElapsed demo_compiled 300 = (1, 0)"
proof -
  have "phaseAtElapsed demo_compiled 299 = (0, 299)" by code_simp
  then show ?thesis
    using phase_advances [OF demo_compiled_ok, of 299 0 299]
    by (simp add: demo_compiled_def)
qed

end
