(* ===== verification/Intents.thy ===== *)
theory Intents
  imports Demo "HOL-Library.Char_ord" "HOL-Library.List_Lexorder" "HOL-Library.Product_Lexorder"
begin

text \<open>
  \<open>engine/intent.go\<close>: arbitration and application of controller intents at a tick boundary.
  The queue is sorted by (grant descending, vehicle, controller, sequence); the first intent of
  each vehicle is applied to it, later ones are recorded as superseded. Go strings compare
  bytewise, which is the lexicographic order of the character codes.
\<close>

subsection \<open>Operations\<close>

definition emergencyDecel :: f64 where "emergencyDecel = f64_lit 9 1"

definition EnqueueIntent :: "KeyedIntent \<Rightarrow> Engine \<Rightarrow> Engine" where
  "EnqueueIntent k e = e\<lparr>e_intentQ := e_intentQ e @ [k]\<rparr>"

definition intent_before :: "KeyedIntent \<Rightarrow> KeyedIntent \<Rightarrow> bool" where
  "intent_before a b =
     (if ki_Grant a \<noteq> ki_Grant b then ki_Grant b < ki_Grant a
      else if in_VehicleID (ki_Intent a) \<noteq> in_VehicleID (ki_Intent b)
      then in_VehicleID (ki_Intent a) < in_VehicleID (ki_Intent b)
      else if ki_Controller a \<noteq> ki_Controller b then ki_Controller a < ki_Controller b
      else ki_Seq a < ki_Seq b)"

definition clampDir :: "int \<Rightarrow> int" where
  "clampDir d = (if d > 0 then 1 else if d < 0 then - 1 else 0)"

definition clampSignals :: "int \<Rightarrow> int" where
  "clampSignals s = (if s < 0 then 0 else if s > 3 then 3 else s)"

text \<open>\<open>e.index[id]\<close>: the vehicle registered last under the id.\<close>

definition vehicleByID :: "Engine \<Rightarrow> u64 \<Rightarrow> nat option" where
  "vehicleByID e vid =
     (case find_index (\<lambda>v. v_ID v = vid) (rev (e_order e)) of
        None \<Rightarrow> None | Some i \<Rightarrow> Some (length (e_order e) - 1 - i))"

definition v0eff :: "Engine \<Rightarrow> Vehicle \<Rightarrow> nat \<Rightarrow> f64" where
  "v0eff e v lane =
     (let v0 = vt_V0 (e_Types e ! v_TypeIdx v); sl = l_SpeedLimit (e_Lanes e ! lane) in
      fmul (v_F v) (if flt sl v0 then sl else v0))"

text \<open>The axes of an intent, one after the other as the code applies them.\<close>

definition ax_accel :: "Intent \<Rightarrow> Vehicle \<Rightarrow> Vehicle" where
  "ax_accel it v = (if in_AccelSet it then v\<lparr>v_reqAcc := in_Accel it, v_reqAccOK := True\<rparr> else v)"

definition ax_speed :: "Engine \<Rightarrow> Intent \<Rightarrow> Vehicle \<Rightarrow> Vehicle" where
  "ax_speed e it v =
     (if in_SpeedSet it
      then if flt (in_SpeedSetpoint it) 0 then v\<lparr>v_CruiseOK := False\<rparr>
           else let v0 = v0eff e v (v_Lane v); sp = in_SpeedSetpoint it in
             v\<lparr>v_Cruise := (if flt v0 sp then v0 else sp), v_CruiseOK := True\<rparr>
      else v)"

definition ax_lane :: "Intent \<Rightarrow> Vehicle \<Rightarrow> Vehicle" where
  "ax_lane it v = (if in_LaneDelta it \<noteq> 0 then v\<lparr>v_reqLane := in_LaneDelta it\<rparr> else v)"

definition ax_turn :: "Intent \<Rightarrow> Vehicle \<Rightarrow> Vehicle" where
  "ax_turn it v = (if in_TurnSet it then v\<lparr>v_HeldTurn := clampDir (in_Turn it)\<rparr> else v)"

definition ax_route :: "Intent \<Rightarrow> Vehicle \<Rightarrow> Vehicle" where
  "ax_route it v = (if in_RouteSet it then v\<lparr>v_Route := in_Route it\<rparr> else v)"

definition ax_signals :: "Intent \<Rightarrow> Vehicle \<Rightarrow> Vehicle" where
  "ax_signals it v = (if in_SignalSet it then v\<lparr>v_Signals := clampSignals (in_Signals it)\<rparr> else v)"

definition applyAxes :: "Engine \<Rightarrow> Vehicle \<Rightarrow> Intent \<Rightarrow> Vehicle" where
  "applyAxes e v it =
     ax_signals it (ax_route it (ax_turn it (ax_lane it (ax_speed e it (ax_accel it v)))))"

definition apply_to :: "Engine \<Rightarrow> Intent \<Rightarrow> Engine" where
  "apply_to e it =
     (case vehicleByID e (in_VehicleID it) of
        None \<Rightarrow> e
      | Some i \<Rightarrow> e\<lparr>e_order := (e_order e)[i := applyAxes e (e_order e ! i) it]\<rparr>)"

definition record_entry :: "bool \<Rightarrow> KeyedIntent \<Rightarrow> Engine \<Rightarrow> Engine" where
  "record_entry superseded k e =
     (let entry = \<lparr>ti_Tick = e_Tick e, ti_Superseded = superseded, ti_Keyed = k\<rparr> in
      e\<lparr>e_applied := e_applied e @ [entry],
        e_IntentLog := (if e_DropIntentLog e then e_IntentLog e else e_IntentLog e @ [entry])\<rparr>)"

fun apply_loop :: "KeyedIntent list \<Rightarrow> u64 list \<Rightarrow> Engine \<Rightarrow> Engine" where
  "apply_loop [] won e = e"
| "apply_loop (k # ks) won e =
     (let vid = in_VehicleID (ki_Intent k) in
      if vid \<in> set won then apply_loop ks won (record_entry True k e)
      else apply_loop ks (vid # won) (record_entry False k (apply_to e (ki_Intent k))))"

definition applyIntents :: "Engine \<Rightarrow> Engine" where
  "applyIntents e0 =
     (let e = e0\<lparr>e_applied := []\<rparr> in
      if e_intentQ e = [] then e
      else (apply_loop (stable_sort intent_before (e_intentQ e)) [] e)\<lparr>e_intentQ := []\<rparr>)"

text \<open>\<open>intentAccel\<close>: the commanded acceleration inside the envelope $[-9, A]$.\<close>

definition intentAccel :: "Engine \<Rightarrow> Vehicle \<Rightarrow> f64" where
  "intentAccel e v =
     (let amax = vt_A (e_Types e ! v_TypeIdx v); a = v_reqAcc v; a = (if flt amax a then amax else a) in
      if flt a (fneg emergencyDecel) then fneg emergencyDecel else a)"

subsection \<open>The arbitration order\<close>

definition intent_key :: "KeyedIntent \<Rightarrow> nat \<times> u64 \<times> string \<times> u64" where
  "intent_key k = (255 - unat (ki_Grant k), in_VehicleID (ki_Intent k), ki_Controller k, ki_Seq k)"

lemma intent_before_key: "intent_before a b \<longleftrightarrow> intent_key a < intent_key b"
proof -
  have "unat (ki_Grant a) < 256" "unat (ki_Grant b) < 256" by (rule unat_u8_less)+
  then have "255 - unat (ki_Grant a) < 255 - unat (ki_Grant b) \<longleftrightarrow> ki_Grant b < ki_Grant a"
    and "255 - unat (ki_Grant a) = 255 - unat (ki_Grant b) \<longleftrightarrow> ki_Grant a = ki_Grant b"
    unfolding word_less_nat_alt word_unat_eq_iff by linarith+
  then show ?thesis by (auto simp: intent_before_def intent_key_def less_prod_def')
qed

interpretation arb: strict_weak intent_before
  by unfold_locales (auto simp: intent_before_key)

text \<open>Sorting by a key that tells the elements apart has one result.\<close>

lemma sorted_unique:
  assumes "sorted_wrt (\<lambda>a b. \<not> intent_before b a) xs" and "sorted_wrt (\<lambda>a b. \<not> intent_before b a) ys"
    and "mset xs = mset ys" and "inj_on intent_key (set xs)"
  shows "xs = ys"
proof -
  have s: "sorted (map intent_key zs)" if "sorted_wrt (\<lambda>a b. \<not> intent_before b a) zs" for zs
    using that by (simp add: sorted_map intent_before_key not_less)
  have "map intent_key xs = map intent_key ys"
    using s [OF assms(1)] s [OF assms(2)] assms(3)
    by (metis mset_map properties_for_sort)
  moreover have "set xs = set ys" using assms(3) by (rule mset_eq_setD)
  ultimately show ?thesis using assms(4) by (simp add: inj_on_map_eq_map)
qed


subsection \<open>The loop, entry by entry and vehicle by vehicle\<close>

abbreviation ki_vid :: "KeyedIntent \<Rightarrow> u64" where "ki_vid k \<equiv> in_VehicleID (ki_Intent k)"

lemma applyAxes_frame [simp]:
  "v_ID (applyAxes e v it) = v_ID v" "v_Lane (applyAxes e v it) = v_Lane v"
  "v_S (applyAxes e v it) = v_S v" "v_V (applyAxes e v it) = v_V v"
  "v_rng (applyAxes e v it) = v_rng v" "v_TypeIdx (applyAxes e v it) = v_TypeIdx v"
  by (simp_all add: applyAxes_def ax_accel_def ax_speed_def ax_lane_def ax_turn_def ax_route_def
      ax_signals_def Let_def)

lemma applyAxes_cong:
  "e_Types e' = e_Types e \<Longrightarrow> e_Net e' = e_Net e \<Longrightarrow> applyAxes e' = applyAxes e"
  by (intro ext) (simp add: applyAxes_def ax_speed_def v0eff_def)

lemma record_entry_frame [simp]:
  "e_Types (record_entry b k e) = e_Types e" "e_Net (record_entry b k e) = e_Net e"
  "e_Tick (record_entry b k e) = e_Tick e" "e_order (record_entry b k e) = e_order e"
  "e_DropIntentLog (record_entry b k e) = e_DropIntentLog e"
  "e_sigOv (record_entry b k e) = e_sigOv e"
  "e_applied (record_entry b k e) =
     e_applied e @ [\<lparr>ti_Tick = e_Tick e, ti_Superseded = b, ti_Keyed = k\<rparr>]"
  "e_IntentLog (record_entry b k e) =
     (if e_DropIntentLog e then e_IntentLog e
      else e_IntentLog e @ [\<lparr>ti_Tick = e_Tick e, ti_Superseded = b, ti_Keyed = k\<rparr>])"
  by (simp_all add: record_entry_def Let_def)

lemma applyAxes_log [simp]:
  "applyAxes (record_entry b k e) = applyAxes e" "applyAxes (e\<lparr>e_applied := x\<rparr>) = applyAxes e"
  by (rule applyAxes_cong; simp)+

lemma apply_to_sigOv [simp]: "e_sigOv (apply_to e it) = e_sigOv e"
  by (simp add: apply_to_def split: option.split)

lemma apply_to_frame [simp]:
  "e_Types (apply_to e it) = e_Types e" "e_Net (apply_to e it) = e_Net e"
  "e_Tick (apply_to e it) = e_Tick e" "e_applied (apply_to e it) = e_applied e"
  "e_IntentLog (apply_to e it) = e_IntentLog e" "e_DropIntentLog (apply_to e it) = e_DropIntentLog e"
  "e_intentQ (apply_to e it) = e_intentQ e" "map v_ID (e_order (apply_to e it)) = map v_ID (e_order e)"
  by (simp_all add: apply_to_def map_update list_update_same_conv split: option.split)
    (metis list_update_id map_update)

lemma applyAxes_apply_to [simp]: "applyAxes (apply_to e it) = applyAxes e"
  by (rule applyAxes_cong) simp_all

fun loop_entries :: "u64 \<Rightarrow> KeyedIntent list \<Rightarrow> u64 list \<Rightarrow> TickedIntent list" where
  "loop_entries tick [] won = []"
| "loop_entries tick (k # ks) won =
     \<lparr>ti_Tick = tick, ti_Superseded = (ki_vid k \<in> set won), ti_Keyed = k\<rparr>
     # loop_entries tick ks (if ki_vid k \<in> set won then won else ki_vid k # won)"

lemma apply_loop_log:
  "e_applied (apply_loop ks won e) = e_applied e @ loop_entries (e_Tick e) ks won \<and>
   e_IntentLog (apply_loop ks won e) =
     (if e_DropIntentLog e then e_IntentLog e else e_IntentLog e @ loop_entries (e_Tick e) ks won)"
  by (induction ks arbitrary: won e) (simp_all add: Let_def)

lemma loop_entries_nth:
  "i < length ks \<Longrightarrow> loop_entries tick ks won ! i =
     \<lparr>ti_Tick = tick, ti_Superseded = (ki_vid (ks ! i) \<in> set won \<union> ki_vid ` set (take i ks)),
      ti_Keyed = ks ! i\<rparr>"
  by (induction ks arbitrary: won i) (auto simp: nth_Cons split: nat.split)

lemma loop_entries_keyed [simp]: "map ti_Keyed (loop_entries tick ks won) = ks"
  by (induction ks arbitrary: won) simp_all

lemma length_loop_entries [simp]: "length (loop_entries tick ks won) = length ks"
  by (induction ks arbitrary: won) simp_all

lemma vehicleByID_Some:
  assumes "vehicleByID e vid = Some i"
  shows "i < length (e_order e) \<and> v_ID (e_order e ! i) = vid"
proof -
  obtain j where "find_index (\<lambda>v. v_ID v = vid) (rev (e_order e)) = Some j"
    and "i = length (e_order e) - 1 - j"
    using assms by (auto simp: vehicleByID_def split: option.splits)
  then show ?thesis by (auto simp: find_index_Some_iff rev_nth)
qed

lemma vehicleByID_None: "vehicleByID e vid = None \<Longrightarrow> v \<in> set (e_order e) \<Longrightarrow> v_ID v \<noteq> vid"
  by (auto simp: vehicleByID_def find_index_None_iff split: option.splits)

lemma apply_to_order:
  assumes "distinct (map v_ID (e_order e))"
  shows "e_order (apply_to e it) =
         map (\<lambda>v. if v_ID v = in_VehicleID it then applyAxes e v it else v) (e_order e)"
proof (cases "vehicleByID e (in_VehicleID it)")
  case None
  then show ?thesis
    using vehicleByID_None [OF None] by (simp add: apply_to_def map_idI)
next
  case (Some i)
  note i = vehicleByID_Some [OF Some]
  have "e_order e ! j \<noteq> e_order e ! i \<and> v_ID (e_order e ! j) \<noteq> v_ID (e_order e ! i)"
    if "j < length (e_order e)" "j \<noteq> i" for j
    using assms i that nth_eq_iff_index_eq [OF assms, of j i] by auto
  then show ?thesis
    using i Some by (auto simp: apply_to_def nth_list_update intro!: nth_equalityI)
qed

lemma apply_loop_order:
  assumes "distinct (map v_ID (e_order e))"
  shows "e_order (apply_loop ks won e) =
         map (\<lambda>v. if v_ID v \<in> set won then v
                   else case find (\<lambda>k. ki_vid k = v_ID v) ks of None \<Rightarrow> v
                        | Some k \<Rightarrow> applyAxes e v (ki_Intent k)) (e_order e)"
  using assms
proof (induction ks arbitrary: won e)
  case (Cons k ks)
  show ?case
  proof (cases "ki_vid k \<in> set won")
    case True
    then show ?thesis
      using Cons by (auto simp: Let_def split: option.split)
  next
    case False
    have "distinct (map v_ID (e_order (apply_to e (ki_Intent k))))" using Cons.prems by simp
    then show ?thesis
      using Cons.IH False apply_to_order [OF Cons.prems, of "ki_Intent k"]
      by (auto simp: Let_def split: option.split)
  qed
qed (simp add: map_idI)


lemma apply_loop_frame:
  "e_Net (apply_loop ks won e) = e_Net e \<and> e_Tick (apply_loop ks won e) = e_Tick e \<and>
   e_sigOv (apply_loop ks won e) = e_sigOv e"
  by (induction ks won e rule: apply_loop.induct) (simp_all add: Let_def)

lemma apply_to_queue:
  "apply_to (e\<lparr>e_intentQ := q\<rparr>) it = (apply_to e it)\<lparr>e_intentQ := q\<rparr>"
proof -
  have "applyAxes (e\<lparr>e_intentQ := q\<rparr>) = applyAxes e" by (rule applyAxes_cong) simp_all
  then show ?thesis by (simp add: apply_to_def vehicleByID_def split: option.split)
qed

lemma record_entry_queue:
  "record_entry b k (e\<lparr>e_intentQ := q\<rparr>) = (record_entry b k e)\<lparr>e_intentQ := q\<rparr>"
  by (simp add: record_entry_def Let_def)

text \<open>The queue field is not read inside the loop.\<close>

lemma apply_loop_queue:
  "apply_loop ks won (e\<lparr>e_intentQ := q\<rparr>) = (apply_loop ks won e)\<lparr>e_intentQ := q\<rparr>"
  by (induction ks arbitrary: won e) (simp_all add: Let_def apply_to_queue record_entry_queue)

subsection \<open>Properties\<close>

lemma applyIntents_unfold:
  "applyIntents e = (if e_intentQ e = [] then e\<lparr>e_applied := []\<rparr>
     else (apply_loop (stable_sort intent_before (e_intentQ e)) [] (e\<lparr>e_applied := []\<rparr>))\<lparr>e_intentQ := []\<rparr>)"
  by (simp add: applyIntents_def Let_def)

lemma taken_before:
  "i < length xs \<Longrightarrow> f (xs ! i) \<in> f ` set (take i xs) \<longleftrightarrow> (\<exists>j < i. f (xs ! j) = f (xs ! i))"
proof -
  assume "i < length xs"
  then have "f ` set (take i xs) = (\<lambda>j. f (xs ! j)) ` {..<i}"
    by (simp add: nth_image [symmetric] lessThan_atLeast0 image_image)
  then show ?thesis by (simp only: image_iff) (metis lessThan_iff)
qed

text \<open>
  C14: the arbitrated record is complete and names one winner per vehicle. After a boundary the
  applied list is the queue in arbitration order (a permutation of it, sorted by grant
  descending, vehicle, controller and sequence), every entry stamped with the tick, and an
  entry is superseded exactly when an earlier entry addresses the same vehicle. The run-long
  log grows by exactly that list unless it is dropped, and the queue is empty.
\<close>

theorem arbitration_record:
  "let log = e_applied (applyIntents e) in
     mset (map ti_Keyed log) = mset (e_intentQ e) \<and>
     sorted_wrt (\<lambda>a b. \<not> intent_before b a) (map ti_Keyed log) \<and>
     (\<forall>i < length log. ti_Tick (log ! i) = e_Tick e \<and>
        (ti_Superseded (log ! i) \<longleftrightarrow>
           (\<exists>j < i. ki_vid (ti_Keyed (log ! j)) = ki_vid (ti_Keyed (log ! i))))) \<and>
     e_IntentLog (applyIntents e) = (if e_DropIntentLog e then e_IntentLog e else e_IntentLog e @ log) \<and>
     e_intentQ (applyIntents e) = []"
proof -
  let ?xs = "stable_sort intent_before (e_intentQ e)"
  have log: "e_applied (applyIntents e) = loop_entries (e_Tick e) ?xs []"
    and intentlog: "e_IntentLog (applyIntents e) =
      (if e_DropIntentLog e then e_IntentLog e else e_IntentLog e @ e_applied (applyIntents e))"
    by (auto simp: applyIntents_unfold apply_loop_log stable_sort_def)
  have "ti_Tick (loop_entries (e_Tick e) ?xs [] ! i) = e_Tick e \<and>
      (ti_Superseded (loop_entries (e_Tick e) ?xs [] ! i) \<longleftrightarrow>
        (\<exists>j < i. ki_vid (ti_Keyed (loop_entries (e_Tick e) ?xs [] ! j))
               = ki_vid (ti_Keyed (loop_entries (e_Tick e) ?xs [] ! i))))"
    if "i < length ?xs" for i
    using that taken_before [OF that, of ki_vid]
    by (simp add: loop_entries_nth order.strict_trans [of _ i] cong: conj_cong)
  moreover have "e_intentQ (applyIntents e) = []" by (simp add: applyIntents_unfold)
  ultimately show ?thesis
    using arb.sorted_stable [of "e_intentQ e"] intentlog
    unfolding Let_def log loop_entries_keyed length_loop_entries
    by (simp only: mset_stable_sort simp_thms) blast
qed


text \<open>
  C24: arrival order does not matter. Two queues that hold the same intents, in whatever order
  the bus delivered them, leave the engine in the same state, as long as no two intents share
  grant, vehicle, controller and sequence number.
\<close>

theorem arbitration_deterministic:
  assumes "mset q1 = mset q2" and "inj_on intent_key (set q1)"
  shows "applyIntents (e\<lparr>e_intentQ := q1\<rparr>) = applyIntents (e\<lparr>e_intentQ := q2\<rparr>)"
proof -
  have "stable_sort intent_before q1 = stable_sort intent_before q2"
    using sorted_unique arb.sorted_stable assms by (metis mset_stable_sort set_stable_sort)
  moreover have "q1 = [] \<longleftrightarrow> q2 = []" using assms(1) by auto
  moreover have "(apply_loop ks won (e\<lparr>e_intentQ := q, e_applied := []\<rparr>))\<lparr>e_intentQ := []\<rparr>
      = (apply_loop ks won (e\<lparr>e_applied := []\<rparr>))\<lparr>e_intentQ := []\<rparr>" for ks won q
  proof -
    have "e\<lparr>e_intentQ := q, e_applied := []\<rparr> = e\<lparr>e_applied := [], e_intentQ := q\<rparr>" by simp
    then show ?thesis by (simp only: apply_loop_queue) simp
  qed
  ultimately show ?thesis by (simp add: applyIntents_unfold)
qed

text \<open>
  the winner's axes reach its vehicle and nothing else happens. With distinct vehicle ids,
  each live vehicle is transformed by the first intent addressed to it in arbitration order,
  and is untouched if there is none; the order of the population, the network, the tick and
  the override table stay as they were.
\<close>

theorem winner_applies:
  assumes "distinct (map v_ID (e_order e))"
  shows "e_order (applyIntents e) =
           map (\<lambda>v. case find (\<lambda>k. ki_vid k = v_ID v) (stable_sort intent_before (e_intentQ e)) of
                  None \<Rightarrow> v | Some k \<Rightarrow> applyAxes e v (ki_Intent k)) (e_order e) \<and>
         e_Net (applyIntents e) = e_Net e \<and> e_Tick (applyIntents e) = e_Tick e \<and>
         e_sigOv (applyIntents e) = e_sigOv e"
proof -
  have "applyAxes (e\<lparr>e_applied := []\<rparr>) = applyAxes e" by simp
  then show ?thesis
    using apply_loop_order [of "e\<lparr>e_applied := []\<rparr>" "stable_sort intent_before (e_intentQ e)" "[]"]
      assms
    by (simp add: applyIntents_unfold apply_loop_frame stable_sort_def map_idI
        cong: option.case_cong)
qed

text \<open>
  C35: no command leaves the envelope. Whatever an intent asks for, the held turn and the signal
  state of its vehicle end up in their ranges, a cruise setpoint in force is not above the
  vehicle's desired speed on its lane, and the commanded acceleration the engine integrates is
  neither below the emergency deceleration nor above the type's maximum, if that maximum is
  itself not below the emergency deceleration. (A NaN is neither below nor above anything: the
  comparisons are Go's.)
\<close>

theorem intent_envelope:
  assumes "v' = applyAxes e v it"
  shows "(in_TurnSet it \<longrightarrow> v_HeldTurn v' \<in> {- 1, 0, 1}) \<and>
         (in_SignalSet it \<longrightarrow> v_Signals v' \<in> {0, 1, 2, 3}) \<and>
         (in_SpeedSet it \<and> v_CruiseOK v' \<longrightarrow> \<not> flt (v0eff e v (v_Lane v)) (v_Cruise v')) \<and>
         (\<not> flt (vt_A (e_Types e ! v_TypeIdx v)) (fneg emergencyDecel) \<longrightarrow>
            \<not> flt (intentAccel e v') (fneg emergencyDecel) \<and>
            \<not> flt (vt_A (e_Types e ! v_TypeIdx v)) (intentAccel e v'))"
proof -
  have t: "v_HeldTurn v' \<in> {- 1, 0, 1}" if "in_TurnSet it"
    using that assms
    by (simp add: applyAxes_def ax_turn_def ax_route_def ax_signals_def clampDir_def)
  have g: "v_Signals v' \<in> {0, 1, 2, 3}" if "in_SignalSet it"
    using that assms by (auto simp: applyAxes_def ax_signals_def clampSignals_def)
  have c: "\<not> flt (v0eff e v (v_Lane v)) (v_Cruise v')" if "in_SpeedSet it" "v_CruiseOK v'"
    using that assms flt_irrefl
    by (auto simp: applyAxes_def ax_accel_def ax_speed_def ax_lane_def ax_turn_def ax_route_def
        ax_signals_def v0eff_def Let_def split: if_splits)
  have idx: "v_TypeIdx v' = v_TypeIdx v" using assms by simp
  have a: "\<not> flt (intentAccel e v') (fneg emergencyDecel) \<and>
      \<not> flt (vt_A (e_Types e ! v_TypeIdx v)) (intentAccel e v')"
    if "\<not> flt (vt_A (e_Types e ! v_TypeIdx v)) (fneg emergencyDecel)"
    using that flt_irrefl unfolding intentAccel_def idx Let_def by simp
  show ?thesis using t g c a by blast
qed


subsection \<open>Witnesses\<close>

definition demo_intent :: "u64 \<Rightarrow> Intent" where
  "demo_intent vid = \<lparr>in_VehicleID = vid, in_Accel = f64_lit 50 1, in_AccelSet = True,
     in_SpeedSetpoint = f64_lit 100 1, in_SpeedSet = True, in_LaneDelta = 1, in_Turn = 7,
     in_TurnSet = True, in_Route = ''a'', in_RouteSet = True, in_Signals = 9, in_SignalSet = True\<rparr>"

definition demo_keyed :: "u8 \<Rightarrow> u64 \<Rightarrow> u64 \<Rightarrow> KeyedIntent" where
  "demo_keyed grant vid sq = \<lparr>ki_Controller = ''c'', ki_Seq = sq, ki_Grant = grant,
     ki_Held = False, ki_Intent = demo_intent vid\<rparr>"

definition demo_queued :: Engine where
  "demo_queued = demo_engine\<lparr>e_intentQ := [demo_keyed 1 2 1, demo_keyed 3 2 2]\<rparr>"

lemma arbitration_record_witness:
  "map ti_Superseded (e_applied (applyIntents demo_queued)) = [False, True] \<and>
   \<not> intent_before (ti_Keyed (e_applied (applyIntents demo_queued) ! 1))
       (ti_Keyed (e_applied (applyIntents demo_queued) ! 0))"
proof -
  let ?log = "e_applied (applyIntents demo_queued)"
  have l: "map ti_Superseded ?log = [False, True]" "length ?log = 2" by code_simp+
  have "sorted_wrt (\<lambda>a b. \<not> intent_before b a) (map ti_Keyed ?log)"
    using arbitration_record [of demo_queued] by (simp add: Let_def)
  from sorted_wrt_nth_less [OF this, of 0 1] show ?thesis using l by simp
qed

lemma arbitration_deterministic_witness:
  "applyIntents (demo_engine\<lparr>e_intentQ := [demo_keyed 1 2 1, demo_keyed 3 2 2]\<rparr>)
   = applyIntents (demo_engine\<lparr>e_intentQ := [demo_keyed 3 2 2, demo_keyed 1 2 1]\<rparr>)"
  by (rule arbitration_deterministic) (simp_all add: intent_key_def demo_keyed_def)

lemma winner_applies_witness:
  "v_HeldTurn (e_order (applyIntents demo_queued) ! 1) = 1 \<and>
   e_order (applyIntents demo_queued) ! 0 = demo_vehicle 1"
proof -
  have o: "e_order demo_queued = [demo_vehicle 1, demo_vehicle 2]"
    "e_intentQ demo_queued = [demo_keyed 1 2 1, demo_keyed 3 2 2]"
    by (simp_all add: demo_queued_def demo_engine_def)
  have "distinct (map v_ID (e_order demo_queued))"
    by (simp add: o demo_vehicle_def)
  from winner_applies [OF this] show ?thesis
    by (simp add: o stable_sort_def intent_before_def demo_keyed_def demo_intent_def demo_vehicle_def
        applyAxes_def ax_turn_def ax_route_def ax_signals_def clampDir_def)
qed

lemma intent_envelope_witness:
  "\<not> flt (f64_lit 3 2) (intentAccel demo_engine (applyAxes demo_engine (demo_vehicle 1) (demo_intent 1)))"
proof -
  have "\<not> flt (f64_lit 3 2) (fneg emergencyDecel)" by code_simp
  then show ?thesis
    using intent_envelope [OF refl, where e = demo_engine and v = "demo_vehicle 1" and it = "demo_intent 1"]
    by (simp add: demo_engine_def demo_vehicle_def demo_type_def)
qed

end
