(* ===== verification/IntentCodec.thy ===== *)
theory IntentCodec
  imports Bytes Intents
begin

text \<open>
  The wire and log forms of intents (\<open>engine/natsio\<close>): the v2 message of \<open>bus.go\<close>
  (\<open>EncodeIntent\<close>, \<open>DecodeIntent\<close>), the TSIB batch of \<open>tsib.go\<close>, the logged record of
  \<open>recorder.go\<close> and \<open>replay.go\<close> (\<open>appendLoggedIntent\<close>, \<open>decodeLoggedIntentAt\<close>), and the TSLB
  batch of \<open>tslb.go\<close> with the recorder's splitting (\<open>logIntentBatch\<close>). A buffer is a byte list;
  \<open>buf[k:]\<close> is \<open>drop k\<close>. Publishing to the stream is a parameter.
\<close>

subsection \<open>The v2 message\<close>

definition intentFixedBytes :: nat where "intentFixedBytes = 44"
definition intentMaxRoute :: nat where "intentMaxRoute = 48"

definition flagAccel :: u32 where "flagAccel = 1"
definition flagSpeed :: u32 where "flagSpeed = 2"
definition flagSignal :: u32 where "flagSignal = 4"
definition flagTurn :: u32 where "flagTurn = 8"
definition flagRoute :: u32 where "flagRoute = 16"
definition logFlagHeld :: u32 where "logFlagHeld = 32"
definition logFlagSuperseded :: u32 where "logFlagSuperseded = 64"

lemmas flag_defs = flagAccel_def flagSpeed_def flagSignal_def flagTurn_def flagRoute_def
  logFlagHeld_def logFlagSuperseded_def

definition bit_if :: "bool \<Rightarrow> u32 \<Rightarrow> u32" where
  "bit_if b f = (if b then f else 0)"

definition has :: "u32 \<Rightarrow> u32 \<Rightarrow> bool" where
  "has flags f \<longleftrightarrow> flags AND f \<noteq> 0"

definition no_intent :: Intent where
  "no_intent = \<lparr>in_VehicleID = 0, in_Accel = 0, in_AccelSet = False, in_SpeedSetpoint = 0,
     in_SpeedSet = False, in_LaneDelta = 0, in_Turn = 0, in_TurnSet = False, in_Route = [],
     in_RouteSet = False, in_Signals = 0, in_SignalSet = False\<rparr>"

definition intentFixedFlags :: "Intent \<Rightarrow> u32" where
  "intentFixedFlags it =
     bit_if (in_AccelSet it) flagAccel OR bit_if (in_SpeedSet it) flagSpeed OR
     bit_if (in_SignalSet it) flagSignal OR bit_if (in_TurnSet it) flagTurn"

text \<open>The last two bytes are reserved: the buffer is zeroed and they are never written.\<close>

definition putIntentFixed :: "Intent \<Rightarrow> u32 \<Rightarrow> u16 \<Rightarrow> bytes" where
  "putIntentFixed it flags routeLen =
     put_u64 (in_VehicleID it) @ put_u32 flags @ put_u32 (i32_bits (in_LaneDelta it)) @
     put_u64 (in_Accel it) @ put_u64 (in_SpeedSetpoint it) @ put_u32 (i32_bits (in_Signals it)) @
     put_u32 (i32_bits (in_Turn it)) @ put_u16 routeLen @ put_u16 0"

definition getIntentFixed :: "bytes \<Rightarrow> Intent \<Rightarrow> Intent \<times> u32 \<times> nat" where
  "getIntentFixed buf it =
     (it\<lparr>in_VehicleID := get_u64 buf, in_LaneDelta := i32_of (get_u32 (drop 12 buf)),
         in_Accel := get_u64 (drop 16 buf), in_SpeedSetpoint := get_u64 (drop 24 buf),
         in_Signals := i32_of (get_u32 (drop 32 buf)), in_Turn := i32_of (get_u32 (drop 36 buf))\<rparr>,
      get_u32 (drop 8 buf), unat (get_u16 (drop 40 buf)))"

definition applyIntentFlags :: "Intent \<Rightarrow> u32 \<Rightarrow> Intent option" where
  "applyIntentFlags it flags =
     (if has flags flagAccel \<and> (is_nan (in_Accel it) \<or> is_inf (in_Accel it)) then None
      else let it1 = (if has flags flagAccel then it\<lparr>in_AccelSet := True\<rparr> else it) in
        if has flags flagSpeed \<and> (is_nan (in_SpeedSetpoint it1) \<or> is_inf (in_SpeedSetpoint it1)) then None
        else let it2 = (if has flags flagSpeed then it1\<lparr>in_SpeedSet := True\<rparr> else it1);
                 it3 = (if has flags flagSignal then it2\<lparr>in_SignalSet := True\<rparr> else it2) in
          Some (if has flags flagTurn then it3\<lparr>in_TurnSet := True\<rparr> else it3))"

text \<open>The route as both encoders write it: only when set and nonempty, cut at 48 bytes.\<close>

definition wire_route :: "Intent \<Rightarrow> string" where
  "wire_route it =
     (if in_RouteSet it \<and> in_Route it \<noteq> [] then take intentMaxRoute (in_Route it) else [])"

definition EncodeIntent :: "Intent \<Rightarrow> bytes" where
  "EncodeIntent it =
     putIntentFixed it
       (intentFixedFlags it OR bit_if (in_RouteSet it \<and> in_Route it \<noteq> []) flagRoute)
       (word_of_nat (length (wire_route it))) @ bytes_of (wire_route it)"

definition DecodeIntent :: "bytes \<Rightarrow> Intent option" where
  "DecodeIntent buf =
     (if length buf < intentFixedBytes then None
      else case getIntentFixed buf no_intent of (it, flags, routeLen) \<Rightarrow>
        if intentMaxRoute < routeLen \<or> length buf \<noteq> intentFixedBytes + routeLen then None
        else case applyIntentFlags it flags of
            None \<Rightarrow> None
          | Some it' \<Rightarrow> Some (if has flags flagRoute
              then it'\<lparr>in_RouteSet := True, in_Route := string_of (drop intentFixedBytes buf)\<rparr>
              else it'))"

subsection \<open>Reading back the fixed section\<close>

lemma length_putIntentFixed [simp]: "length (putIntentFixed it f n) = 44"
  by (simp add: putIntentFixed_def)

definition fixed_part :: "Intent \<Rightarrow> Intent" where
  "fixed_part it = no_intent\<lparr>in_VehicleID := in_VehicleID it, in_LaneDelta := in_LaneDelta it,
     in_Accel := in_Accel it, in_SpeedSetpoint := in_SpeedSetpoint it,
     in_Signals := in_Signals it, in_Turn := in_Turn it\<rparr>"

definition intent_ok :: "Intent \<Rightarrow> bool" where
  "intent_ok it \<longleftrightarrow> i32_range (in_LaneDelta it) \<and> i32_range (in_Signals it) \<and> i32_range (in_Turn it)"

lemma get_put_fixed:
  "intent_ok it \<Longrightarrow> getIntentFixed (putIntentFixed it f n @ r) no_intent = (fixed_part it, f, unat n)"
  by (simp add: getIntentFixed_def putIntentFixed_def fixed_part_def intent_ok_def i32_of_bits)

definition flag_word :: "bool \<Rightarrow> bool \<Rightarrow> bool \<Rightarrow> bool \<Rightarrow> bool \<Rightarrow> bool \<Rightarrow> bool \<Rightarrow> u32" where
  "flag_word a b c d e f g =
     bit_if a flagAccel OR bit_if b flagSpeed OR bit_if c flagSignal OR bit_if d flagTurn OR
     bit_if e flagRoute OR bit_if f logFlagHeld OR bit_if g logFlagSuperseded"

lemma has_flag_word [simp]:
  "has (flag_word a b c d e f g) flagAccel = a" "has (flag_word a b c d e f g) flagSpeed = b"
  "has (flag_word a b c d e f g) flagSignal = c" "has (flag_word a b c d e f g) flagTurn = d"
  "has (flag_word a b c d e f g) flagRoute = e" "has (flag_word a b c d e f g) logFlagHeld = f"
  "has (flag_word a b c d e f g) logFlagSuperseded = g"
  by (cases a; cases b; cases c; cases d; cases e; cases f; cases g;
      simp add: flag_word_def has_def bit_if_def flag_defs)+

lemma fixed_flags_word:
  "intentFixedFlags it OR bit_if r flagRoute =
   flag_word (in_AccelSet it) (in_SpeedSet it) (in_SignalSet it) (in_TurnSet it) r False False"
  "intentFixedFlags it =
   flag_word (in_AccelSet it) (in_SpeedSet it) (in_SignalSet it) (in_TurnSet it) False False False"
  by (simp_all add: intentFixedFlags_def flag_word_def bit_if_def or.assoc)

definition finite_axes :: "Intent \<Rightarrow> bool" where
  "finite_axes it \<longleftrightarrow>
     (in_AccelSet it \<longrightarrow> \<not> is_nan (in_Accel it) \<and> \<not> is_inf (in_Accel it)) \<and>
     (in_SpeedSet it \<longrightarrow> \<not> is_nan (in_SpeedSetpoint it) \<and> \<not> is_inf (in_SpeedSetpoint it))"

text \<open>What survives the wire: everything but an empty, unset or overlong route.\<close>

definition wire_form :: "Intent \<Rightarrow> Intent" where
  "wire_form it = it\<lparr>in_Route := wire_route it, in_RouteSet := (in_RouteSet it \<and> in_Route it \<noteq> [])\<rparr>"

lemma apply_flags_fixed:
  "applyIntentFlags (fixed_part it)
     (flag_word (in_AccelSet it) (in_SpeedSet it) (in_SignalSet it) (in_TurnSet it) r f g) =
   (if finite_axes it
    then Some (it\<lparr>in_Route := [], in_RouteSet := False\<rparr>) else None)"
  by (cases it) (auto simp: applyIntentFlags_def fixed_part_def no_intent_def finite_axes_def Let_def)

lemma apply_flags_Some:
  assumes "applyIntentFlags it flags = Some it'"
  shows "in_Route it' = in_Route it \<and> in_RouteSet it' = in_RouteSet it \<and>
         in_LaneDelta it' = in_LaneDelta it \<and> in_Turn it' = in_Turn it \<and>
         in_Signals it' = in_Signals it \<and>
         (\<not> in_AccelSet it \<and> \<not> in_SpeedSet it \<longrightarrow> finite_axes it')"
  using assms by (auto simp: applyIntentFlags_def finite_axes_def Let_def split: if_splits)

lemma i32_of_range: "i32_range (i32_of w)"
  using sint_greater_eq [of w] sint_less [of w] by (simp add: i32_range_def i32_of_def)

lemma length_wire_route: "length (wire_route it) \<le> 48"
  by (simp add: wire_route_def intentMaxRoute_def)

lemma decode_encode:
  assumes "intent_ok it"
  shows "DecodeIntent (EncodeIntent it) = (if finite_axes it then Some (wire_form it) else None)"
proof -
  let ?r = "wire_route it"
  let ?e = "in_RouteSet it \<and> in_Route it \<noteq> []"
  let ?fw = "flag_word (in_AccelSet it) (in_SpeedSet it) (in_SignalSet it) (in_TurnSet it) ?e False False"
  have n: "unat (word_of_nat (length ?r) :: u16) = length ?r"
    using length_wire_route [of it] by (intro unat_of_nat_u16) simp
  have g: "getIntentFixed (EncodeIntent it) no_intent = (fixed_part it, ?fw, length ?r)"
    unfolding EncodeIntent_def fixed_flags_word(1) get_put_fixed [OF assms] n ..
  have b: "drop intentFixedBytes (EncodeIntent it) = bytes_of ?r"
    "length (EncodeIntent it) = intentFixedBytes + length ?r"
    by (simp_all add: EncodeIntent_def intentFixedBytes_def)
  have d: "DecodeIntent (EncodeIntent it) =
      (case applyIntentFlags (fixed_part it) ?fw of None \<Rightarrow> None
       | Some it' \<Rightarrow> Some (if ?e then it'\<lparr>in_RouteSet := True, in_Route := ?r\<rparr> else it'))"
    using length_wire_route [of it] by (simp add: DecodeIntent_def g b intentMaxRoute_def split: option.split)
  have "?r = []" if "\<not> ?e" using that by (auto simp: wire_route_def)
  then show ?thesis
    unfolding d apply_flags_fixed by (cases ?e) (simp_all add: wire_form_def)
qed

text \<open>
  the v2 intent message round-trips. For every intent whose integer axes fit 32 bits,
  decoding its encoding gives the intent back in its wire form (an absent, empty or overlong
  route normalised, every other axis and presence bit unchanged), or rejects it exactly when a
  set acceleration or speed setpoint is a NaN or an infinity.
\<close>

theorem intent_roundtrip:
  assumes "intent_ok it"
  shows "DecodeIntent (EncodeIntent it) = (if finite_axes it then Some (wire_form it) else None)"
  using assms by (rule decode_encode)

definition finite_word :: "f64 \<Rightarrow> bool" where "finite_word x \<longleftrightarrow> \<not> is_nan x \<and> \<not> is_inf x"

lemma flags_accepted:
  "applyIntentFlags it flags \<noteq> None \<longleftrightarrow>
     (has flags flagAccel \<longrightarrow> finite_word (in_Accel it)) \<and> (has flags flagSpeed \<longrightarrow> finite_word (in_SpeedSetpoint it))"
  by (simp add: applyIntentFlags_def finite_word_def Let_def)

lemma decode_accepts:
  "DecodeIntent buf \<noteq> None \<longleftrightarrow>
     length buf = 44 + unat (get_u16 (drop 40 buf)) \<and> unat (get_u16 (drop 40 buf)) \<le> 48 \<and>
     (has (get_u32 (drop 8 buf)) flagAccel \<longrightarrow> finite_word (get_u64 (drop 16 buf))) \<and>
     (has (get_u32 (drop 8 buf)) flagSpeed \<longrightarrow> finite_word (get_u64 (drop 24 buf)))"
proof -
  define it where "it = fst (getIntentFixed buf no_intent)"
  define flags where "flags = get_u32 (drop 8 buf)"
  define n where "n = unat (get_u16 (drop 40 buf))"
  have g: "getIntentFixed buf no_intent = (it, flags, n)" by (simp add: it_def flags_def n_def getIntentFixed_def)
  have f: "in_Accel it = get_u64 (drop 16 buf)" "in_SpeedSetpoint it = get_u64 (drop 24 buf)"
    by (simp_all add: it_def getIntentFixed_def)
  have "DecodeIntent buf \<noteq> None \<longleftrightarrow> length buf = 44 + n \<and> n \<le> 48 \<and> applyIntentFlags it flags \<noteq> None"
    unfolding DecodeIntent_def g by (auto simp: intentFixedBytes_def intentMaxRoute_def not_less split: option.split)
  then show ?thesis unfolding flags_accepted f flags_def n_def .
qed

lemma decode_sound:
  assumes "DecodeIntent buf = Some it"
  shows "finite_axes it \<and> intent_ok it \<and> length (in_Route it) \<le> 48 \<and> (\<not> in_RouteSet it \<longrightarrow> in_Route it = [])"
proof -
  obtain it0 flags n where g: "getIntentFixed buf no_intent = (it0, flags, n)" by (metis surj_pair)
  have l: "n \<le> 48" "length buf = 44 + n"
    using assms g by (auto simp: DecodeIntent_def intentFixedBytes_def intentMaxRoute_def split: if_splits)
  obtain it1 where it1: "applyIntentFlags it0 flags = Some it1"
    and it: "it = (if has flags flagRoute
      then it1\<lparr>in_RouteSet := True, in_Route := string_of (drop intentFixedBytes buf)\<rparr> else it1)"
    using assms g l
    by (auto simp: DecodeIntent_def intentFixedBytes_def intentMaxRoute_def split: option.splits if_splits)
  have "it0 = fst (getIntentFixed buf no_intent)" using g by simp
  then have "in_Route it0 = []" "intent_ok it0" "\<not> in_AccelSet it0" "\<not> in_SpeedSet it0"
    by (simp_all add: getIntentFixed_def no_intent_def intent_ok_def i32_of_range)
  then have f: "finite_axes it1" "in_Route it1 = []" "intent_ok it1"
    using apply_flags_Some [OF it1] by (simp_all add: intent_ok_def)
  then show ?thesis
    using l by (auto simp: it finite_axes_def intent_ok_def intentFixedBytes_def)
qed

text \<open>
  C38: the strict v2 decoder, exactly. A message is accepted if and only if its length is the 44 bytes
  of the fixed section and the route length it announces, that length is at most 48, and an
  acceleration or a speed whose flag is set is neither a NaN nor an infinity; nothing else is checked.
  An accepted intent has finite set axes and 32-bit integer axes, and it survives being sent again:
  its encoding decodes to the same intent, but for a set empty route, which becomes an unset one.
\<close>

theorem intent_strict:
  "(DecodeIntent buf \<noteq> None) = (length buf = 44 + unat (get_u16 (drop 40 buf)) \<and> unat (get_u16 (drop 40 buf)) \<le> 48 \<and>
     (has (get_u32 (drop 8 buf)) flagAccel \<longrightarrow> finite_word (get_u64 (drop 16 buf))) \<and>
     (has (get_u32 (drop 8 buf)) flagSpeed \<longrightarrow> finite_word (get_u64 (drop 24 buf)))) \<and>
   (\<forall>it. DecodeIntent buf = Some it \<longrightarrow> finite_axes it \<and> intent_ok it \<and>
     DecodeIntent (EncodeIntent it) = Some (it\<lparr>in_RouteSet := (in_RouteSet it \<and> in_Route it \<noteq> [])\<rparr>))"
proof -
  have "finite_axes it \<and> intent_ok it \<and>
      DecodeIntent (EncodeIntent it) = Some (it\<lparr>in_RouteSet := (in_RouteSet it \<and> in_Route it \<noteq> [])\<rparr>)"
    if "DecodeIntent buf = Some it" for it
  proof -
    note k = decode_sound [OF that]
    then have "wire_form it = it\<lparr>in_RouteSet := (in_RouteSet it \<and> in_Route it \<noteq> [])\<rparr>"
      by (cases it) (auto simp: wire_form_def wire_route_def intentMaxRoute_def)
    then show ?thesis using k decode_encode [of it] by simp
  qed
  then show ?thesis using decode_accepts by blast
qed


subsection \<open>TSIB: one batch per controller and tick\<close>

definition tsibHeaderBytes :: nat where "tsibHeaderBytes = 24"
definition TSIBMaxRecords :: int where "TSIBMaxRecords = 20000"

definition EncodeTSIB :: "u64 \<Rightarrow> Intent list \<Rightarrow> bytes option" where
  "EncodeTSIB tick ints =
     (let rs = filter (\<lambda>it. \<not> in_RouteSet it) ints in
      if TSIBMaxRecords < int (length rs) then None
      else Some (bytes_of ''TSIB'' @ put_u16 1 @ put_u16 0 @ put_u64 tick @
        put_u32 (word_of_nat (length rs)) @ put_u32 0 @
        concat (map (\<lambda>it. putIntentFixed it (intentFixedFlags it) 0) rs)))"

text \<open>The record loop: the surviving intents and the number of dropped records.\<close>

fun tsib_records :: "nat \<Rightarrow> bytes \<Rightarrow> (Intent list \<times> nat) option" where
  "tsib_records 0 buf = Some ([], 0)"
| "tsib_records (Suc n) buf =
     (case getIntentFixed buf no_intent of (it, flags, routeLen) \<Rightarrow>
        if routeLen \<noteq> 0 \<or> has flags flagRoute then None
        else case tsib_records n (drop intentFixedBytes buf) of
            None \<Rightarrow> None
          | Some (its, drops) \<Rightarrow> (case applyIntentFlags it flags of
              None \<Rightarrow> Some (its, Suc drops) | Some it' \<Rightarrow> Some (it' # its, drops)))"

definition DecodeTSIB :: "bytes \<Rightarrow> (Intent list \<times> nat) option" where
  "DecodeTSIB buf =
     (if length buf < tsibHeaderBytes then None
      else if take 4 buf \<noteq> bytes_of ''TSIB'' \<or> get_u16 (drop 4 buf) \<noteq> 1 then None
      else let count = uint (get_u32 (drop 16 buf)) in
        if TSIBMaxRecords < count \<or>
           int (length buf) \<noteq> int tsibHeaderBytes + int intentFixedBytes * count then None
        else tsib_records (nat count) (drop tsibHeaderBytes buf))"

lemma tsib_records_enc:
  "\<forall>it \<in> set rs. intent_ok it \<and> \<not> in_RouteSet it \<Longrightarrow>
   tsib_records (length rs) (concat (map (\<lambda>it. putIntentFixed it (intentFixedFlags it) 0) rs))
   = Some (map wire_form (filter finite_axes rs), length (filter (\<lambda>it. \<not> finite_axes it) rs))"
proof (induction rs)
  case (Cons it rs)
  let ?enc = "concat (map (\<lambda>it. putIntentFixed it (intentFixedFlags it) 0) rs)"
  have g: "getIntentFixed (putIntentFixed it (intentFixedFlags it) 0 @ ?enc) no_intent
      = (fixed_part it, flag_word (in_AccelSet it) (in_SpeedSet it) (in_SignalSet it) (in_TurnSet it)
           False False False, 0)"
    using Cons.prems get_put_fixed [of it "intentFixedFlags it" 0 ?enc]
    by (simp add: fixed_flags_word(2))
  have "it\<lparr>in_Route := [], in_RouteSet := False\<rparr> = wire_form it"
    using Cons.prems by (simp add: wire_form_def wire_route_def)
  moreover have "drop intentFixedBytes (putIntentFixed it (intentFixedFlags it) 0 @ ?enc) = ?enc"
    by (simp add: intentFixedBytes_def)
  ultimately show ?case
    using Cons by (simp add: g apply_flags_fixed)
qed simp

lemma tsib_decodes:
  assumes "EncodeTSIB tick ints = Some buf" and "\<forall>it \<in> set ints. intent_ok it"
  shows "DecodeTSIB buf =
    Some (map wire_form (filter finite_axes (filter (\<lambda>it. \<not> in_RouteSet it) ints)),
          length (filter (\<lambda>it. \<not> finite_axes it) (filter (\<lambda>it. \<not> in_RouteSet it) ints)))"
proof -
  let ?rs = "filter (\<lambda>it. \<not> in_RouteSet it) ints"
  let ?enc = "concat (map (\<lambda>it. putIntentFixed it (intentFixedFlags it) 0) ?rs)"
  have n: "length ?rs \<le> 20000"
    and buf: "buf = bytes_of ''TSIB'' @ put_u16 1 @ put_u16 0 @ put_u64 tick @
        put_u32 (word_of_nat (length ?rs)) @ put_u32 0 @ ?enc"
    using assms(1) by (auto simp: EncodeTSIB_def TSIBMaxRecords_def Let_def split: if_splits)
  have len: "length ?enc = 44 * length ?rs"
    by (simp add: length_concat comp_def sum_list_triv)
  have count: "uint (word_of_nat (length ?rs) :: u32) = int (length ?rs)"
    using n unat_of_nat_u32 [of "length ?rs"] by (simp add: uint_nat)
  have hd: "take 4 buf = bytes_of ''TSIB''" "get_u16 (drop 4 buf) = 1"
    "get_u32 (drop 16 buf) = word_of_nat (length ?rs)" "drop tsibHeaderBytes buf = ?enc"
    "length buf = 24 + 44 * length ?rs"
    using len by (simp_all add: buf tsibHeaderBytes_def)
  have "tsib_records (length ?rs) ?enc
      = Some (map wire_form (filter finite_axes ?rs), length (filter (\<lambda>it. \<not> finite_axes it) ?rs))"
    using assms(2) by (intro tsib_records_enc) auto
  then show ?thesis
    using n by (simp only: DecodeTSIB_def hd count Let_def TSIBMaxRecords_def nat_int)
      (simp add: tsibHeaderBytes_def intentFixedBytes_def)
qed

text \<open>
  the TSIB batch round-trips. A batch of at most 20,000 route-free intents decodes to
  exactly those intents, in order, less the ones with a non-finite set axis, which are counted
  as drops; intents that carry a route are left out by the encoder.
\<close>

theorem tsib_roundtrip:
  assumes "EncodeTSIB tick ints = Some buf" and "\<forall>it \<in> set ints. intent_ok it"
  shows "DecodeTSIB buf =
    Some (map wire_form (filter finite_axes (filter (\<lambda>it. \<not> in_RouteSet it) ints)),
          length (filter (\<lambda>it. \<not> finite_axes it) (filter (\<lambda>it. \<not> in_RouteSet it) ints)))"
  using assms by (rule tsib_decodes)

lemma tsib_records_sound:
  "tsib_records n buf = Some (its, drops) \<Longrightarrow>
   length its + drops = n \<and> (\<forall>it \<in> set its. \<not> in_RouteSet it \<and> finite_axes it)"
proof (induction n arbitrary: buf its drops)
  case (Suc n)
  obtain it flags rl where g: "getIntentFixed buf no_intent = (it, flags, rl)" by (metis surj_pair)
  have "it = fst (getIntentFixed buf no_intent)" using g by simp
  then have it: "\<not> in_AccelSet it" "\<not> in_SpeedSet it" "\<not> in_RouteSet it"
    by (simp_all add: getIntentFixed_def no_intent_def)
  obtain its0 d0 where r: "tsib_records n (drop intentFixedBytes buf) = Some (its0, d0)"
    and res: "(its, drops) = (case applyIntentFlags it flags of
        None \<Rightarrow> (its0, Suc d0) | Some it' \<Rightarrow> (it' # its0, d0))"
    using Suc.prems g by (auto split: if_splits option.splits)
  show ?case
    using Suc.IH [OF r] res it apply_flags_Some [of it flags]
    by (auto split: option.splits)
qed simp

text \<open>
  a TSIB batch is taken whole or not at all. If a batch is accepted, its length is exactly
  the header plus 44 bytes for each surviving or dropped record, there are at most 20,000, and
  every surviving intent is route-free with finite set axes.
\<close>

theorem tsib_strict:
  assumes "DecodeTSIB buf = Some (its, drops)"
  shows "length buf = 24 + 44 * (length its + drops) \<and> length its + drops \<le> 20000 \<and>
         (\<forall>it \<in> set its. \<not> in_RouteSet it \<and> finite_axes it)"
proof -
  let ?c = "uint (get_u32 (drop 16 buf))"
  have r: "tsib_records (nat ?c) (drop tsibHeaderBytes buf) = Some (its, drops)"
    and c: "?c \<le> 20000" "int (length buf) = 24 + 44 * ?c"
    using assms by (auto simp: DecodeTSIB_def Let_def TSIBMaxRecords_def tsibHeaderBytes_def
        intentFixedBytes_def split: if_splits)
  have "length its + drops = nat ?c" using tsib_records_sound [OF r] by blast
  then have i: "int (length its + drops) = ?c" by (simp only: int_nat_eq) simp
  then have "int (length buf) = int (24 + 44 * (length its + drops))"
    and "int (length its + drops) \<le> int 20000"
    using c by simp_all
  then show ?thesis using tsib_records_sound [OF r] unfolding of_nat_eq_iff of_nat_le_iff by blast
qed


subsection \<open>The logged record\<close>

datatype log_error =
    Too_short nat
  | Want_at_least nat nat
  | Route_cut nat nat
  | Trailing nat

definition logged_record :: "TickedIntent \<Rightarrow> bytes" where
  "logged_record t =
     (let k = ti_Keyed t; it = ki_Intent k; route = wire_route it;
          flags = intentFixedFlags it OR bit_if (in_RouteSet it \<and> in_Route it \<noteq> []) flagRoute OR
            bit_if (ki_Held k) logFlagHeld OR bit_if (ti_Superseded t) logFlagSuperseded in
      put_u64 (ti_Tick t) @ put_u64 (ki_Seq k) @
      put_u16 (word_of_nat (length (ki_Controller k))) @ bytes_of (ki_Controller k) @
      put_u64 (in_VehicleID it) @ put_u32 flags @ put_u32 (i32_bits (in_LaneDelta it)) @
      put_u64 (in_Accel it) @ put_u64 (in_SpeedSetpoint it) @ put_u32 (i32_bits (in_Signals it)) @
      put_u32 (i32_bits (in_Turn it)) @ put_u8 (ki_Grant k) @
      put_u16 (word_of_nat (length route)) @ bytes_of route)"

definition appendLoggedIntent :: "bytes \<Rightarrow> TickedIntent \<Rightarrow> bytes" where
  "appendLoggedIntent dst t = dst @ logged_record t"

definition decodeLoggedIntentAt :: "bytes \<Rightarrow> log_error + (TickedIntent \<times> nat)" where
  "decodeLoggedIntentAt data =
     (if length data < 18 then Inl (Too_short (length data))
      else let ctlLen = unat (get_u16 (drop 16 data)); rest0 = drop 18 data in
        if length rest0 < ctlLen + 43 then Inl (Want_at_least (length data) (18 + ctlLen + 43))
        else let rest = drop ctlLen rest0; flags = get_u32 (drop 8 rest);
                 routeLen = unat (get_u16 (drop 41 rest)); tail = drop 43 rest in
          if length tail < routeLen then Inl (Route_cut routeLen (length tail))
          else Inr (\<lparr>ti_Tick = get_u64 data, ti_Superseded = has flags logFlagSuperseded,
            ti_Keyed = \<lparr>ki_Controller = string_of (take ctlLen rest0),
              ki_Seq = get_u64 (drop 8 data), ki_Grant = rest ! 40, ki_Held = has flags logFlagHeld,
              ki_Intent = \<lparr>in_VehicleID = get_u64 rest, in_Accel = get_u64 (drop 16 rest),
                in_AccelSet = has flags flagAccel, in_SpeedSetpoint = get_u64 (drop 24 rest),
                in_SpeedSet = has flags flagSpeed, in_LaneDelta = i32_of (get_u32 (drop 12 rest)),
                in_Turn = i32_of (get_u32 (drop 36 rest)), in_TurnSet = has flags flagTurn,
                in_Route = (if has flags flagRoute then string_of (take routeLen tail) else []),
                in_RouteSet = has flags flagRoute, in_Signals = i32_of (get_u32 (drop 32 rest)),
                in_SignalSet = has flags flagSignal\<rparr>\<rparr>\<rparr>,
            18 + ctlLen + 43 + routeLen))"

definition decodeLoggedIntent :: "bytes \<Rightarrow> log_error + TickedIntent" where
  "decodeLoggedIntent data =
     (case decodeLoggedIntentAt data of
        Inl err \<Rightarrow> Inl err
      | Inr (t, n) \<Rightarrow> if n \<noteq> length data then Inl (Trailing (length data - n)) else Inr t)"

definition logged_form :: "TickedIntent \<Rightarrow> TickedIntent" where
  "logged_form t = t\<lparr>ti_Keyed := (ti_Keyed t)\<lparr>ki_Intent := wire_form (ki_Intent (ti_Keyed t))\<rparr>\<rparr>"

definition loggable :: "TickedIntent \<Rightarrow> bool" where
  "loggable t \<longleftrightarrow> intent_ok (ki_Intent (ti_Keyed t)) \<and> length (ki_Controller (ti_Keyed t)) < 65536"

lemma record_flags:
  "intentFixedFlags it OR bit_if r flagRoute OR bit_if h logFlagHeld OR bit_if s logFlagSuperseded
   = flag_word (in_AccelSet it) (in_SpeedSet it) (in_SignalSet it) (in_TurnSet it) r h s"
  by (simp add: intentFixedFlags_def flag_word_def or.assoc)

lemma length_logged_record:
  "length (logged_record t) =
   61 + length (ki_Controller (ti_Keyed t)) + length (wire_route (ki_Intent (ti_Keyed t)))"
  by (simp add: logged_record_def Let_def)

lemma decode_logged_prefix:
  assumes "loggable t"
  shows "decodeLoggedIntentAt (logged_record t @ r) = Inr (logged_form t, length (logged_record t))"
proof -
  obtain tick sup ctl sq gr held it where
    t: "t = \<lparr>ti_Tick = tick, ti_Superseded = sup, ti_Keyed = \<lparr>ki_Controller = ctl, ki_Seq = sq,
          ki_Grant = gr, ki_Held = held, ki_Intent = it\<rparr>\<rparr>"
    by (metis KeyedIntent.cases TickedIntent.cases)
  let ?e = "in_RouteSet it \<and> in_Route it \<noteq> []"
  let ?fw = "flag_word (in_AccelSet it) (in_SpeedSet it) (in_SignalSet it) (in_TurnSet it) ?e held sup"
  define route where "route = wire_route it"
  define rest where "rest = put_u64 (in_VehicleID it) @ put_u32 ?fw @ put_u32 (i32_bits (in_LaneDelta it)) @
      put_u64 (in_Accel it) @ put_u64 (in_SpeedSetpoint it) @ put_u32 (i32_bits (in_Signals it)) @
      put_u32 (i32_bits (in_Turn it)) @ put_u8 gr @ put_u16 (word_of_nat (length route)) @
      bytes_of route @ r"
  have rec: "logged_record t @ r = put_u64 tick @ put_u64 sq @
      put_u16 (word_of_nat (length ctl)) @ bytes_of ctl @ rest"
    by (simp add: logged_record_def Let_def t record_flags rest_def route_def)
  have ok: "intent_ok it" "length ctl < 65536" using assms by (simp_all add: loggable_def t)
  have n: "unat (word_of_nat (length ctl) :: u16) = length ctl"
    "unat (word_of_nat (length route) :: u16) = length route"
    using ok(2) length_wire_route [of it] by (simp_all add: unat_of_nat_u16 route_def)
  have heads: "get_u64 (logged_record t @ r) = tick" "get_u64 (drop 8 (logged_record t @ r)) = sq"
    "unat (get_u16 (drop 16 (logged_record t @ r))) = length ctl"
    "drop 18 (logged_record t @ r) = bytes_of ctl @ rest"
    "\<not> length (logged_record t @ r) < 18"
    using n(1) by (simp_all add: rec)
  have fields: "get_u64 rest = in_VehicleID it" "get_u32 (drop 8 rest) = ?fw"
    "get_u32 (drop 12 rest) = i32_bits (in_LaneDelta it)" "get_u64 (drop 16 rest) = in_Accel it"
    "get_u64 (drop 24 rest) = in_SpeedSetpoint it" "get_u32 (drop 32 rest) = i32_bits (in_Signals it)"
    "get_u32 (drop 36 rest) = i32_bits (in_Turn it)" "rest ! 40 = gr"
    "unat (get_u16 (drop 41 rest)) = length route" "drop 43 rest = bytes_of route @ r"
    "length rest = 43 + length route + length r"
    using n(2) by (simp_all add: rest_def nth_append put_u8_def)
  have "route = []" if "\<not> ?e" using that by (auto simp: route_def wire_route_def)
  then have form: "logged_form t = \<lparr>ti_Tick = tick, ti_Superseded = sup,
      ti_Keyed = \<lparr>ki_Controller = ctl, ki_Seq = sq, ki_Grant = gr, ki_Held = held,
        ki_Intent = \<lparr>in_VehicleID = in_VehicleID it, in_Accel = in_Accel it,
          in_AccelSet = in_AccelSet it, in_SpeedSetpoint = in_SpeedSetpoint it,
          in_SpeedSet = in_SpeedSet it, in_LaneDelta = in_LaneDelta it, in_Turn = in_Turn it,
          in_TurnSet = in_TurnSet it, in_Route = (if ?e then route else []), in_RouteSet = ?e,
          in_Signals = in_Signals it, in_SignalSet = in_SignalSet it\<rparr>\<rparr>\<rparr>"
    by (cases it) (auto simp: logged_form_def t wire_form_def route_def)
  show ?thesis
    using ok(1) unfolding form decodeLoggedIntentAt_def heads Let_def
    by (simp add: fields length_logged_record t route_def [symmetric] intent_ok_def i32_of_bits)
qed

text \<open>
  the log holds what was applied. The record of an arbitrated intent decodes, at the front
  of any buffer, to exactly that entry (its route in wire form) and consumes exactly its own
  bytes; as a message of its own it decodes without trailing bytes.
\<close>

theorem logged_roundtrip:
  assumes "loggable t"
  shows "decodeLoggedIntentAt (appendLoggedIntent [] t @ r) = Inr (logged_form t, length (logged_record t)) \<and>
         decodeLoggedIntent (appendLoggedIntent [] t) = Inr (logged_form t)"
  using decode_logged_prefix [OF assms, of r] decode_logged_prefix [OF assms, of "[]"]
  by (simp add: appendLoggedIntent_def decodeLoggedIntent_def)


subsection \<open>TSLB: one tick's records in one message\<close>

definition tslbHeader :: nat where "tslbHeader = 18"
definition tslbVersion :: u8 where "tslbVersion = 1"
definition loggedIntentMin :: nat where "loggedIntentMin = 18 + 43"
definition loggedIntentMax :: int where
  "loggedIntentMax = 18 + 256 + 8 + 4 + 4 + 8 + 8 + 4 + 4 + 1 + 2 + int intentMaxRoute"

definition tslbMagic :: bytes where "tslbMagic = bytes_of ''TSLB''"

datatype tslb_error =
    Tslb_short nat
  | Tslb_magic bytes
  | Tslb_version u8
  | Tslb_flags u8
  | Tslb_count nat nat
  | Tslb_record nat nat log_error
  | Tslb_tick nat nat u64 u64
  | Tslb_trailing nat nat

definition beginTSLB :: "bytes \<Rightarrow> bytes" where
  "beginTSLB dst = dst @ tslbMagic @ [tslbVersion, 0] @ put_u32 0 @ put_u64 0"

definition finishTSLB :: "bytes \<Rightarrow> u64 \<Rightarrow> nat \<Rightarrow> bytes" where
  "finishTSLB buf tick n = take 6 buf @ put_u32 (word_of_nat n) @ put_u64 tick @ drop 18 buf"

text \<open>\<open>left\<close> records are still to read of \<open>cnt\<close>; the result keeps the unread bytes.\<close>

fun tslb_records :: "nat \<Rightarrow> u64 \<Rightarrow> nat \<Rightarrow> bytes \<Rightarrow> tslb_error + (TickedIntent list \<times> bytes)" where
  "tslb_records cnt tick 0 rest = Inr ([], rest)"
| "tslb_records cnt tick (Suc left) rest =
     (case decodeLoggedIntentAt rest of
        Inl err \<Rightarrow> Inl (Tslb_record (cnt - left) cnt err)
      | Inr (t, n) \<Rightarrow>
          if ti_Tick t \<noteq> tick then Inl (Tslb_tick (cnt - left) cnt (ti_Tick t) tick)
          else (case tslb_records cnt tick left (drop n rest) of
              Inl err \<Rightarrow> Inl err | Inr (ts, r) \<Rightarrow> Inr (t # ts, r)))"

definition DecodeTSLB :: "bytes \<Rightarrow> tslb_error + TickedIntent list" where
  "DecodeTSLB buf =
     (if length buf < tslbHeader then Inl (Tslb_short (length buf))
      else if take 4 buf \<noteq> tslbMagic then Inl (Tslb_magic (take 4 buf))
      else if buf ! 4 \<noteq> tslbVersion then Inl (Tslb_version (buf ! 4))
      else if buf ! 5 \<noteq> 0 then Inl (Tslb_flags (buf ! 5))
      else let cnt = unat (get_u32 (drop 6 buf)); tick = get_u64 (drop 10 buf);
               rest = drop tslbHeader buf in
        if length rest div loggedIntentMin < cnt then Inl (Tslb_count cnt (length rest))
        else case tslb_records cnt tick cnt rest of
            Inl err \<Rightarrow> Inl err
          | Inr (ts, r) \<Rightarrow> if r \<noteq> [] then Inl (Tslb_trailing (length r) cnt) else Inr ts)"

definition encode_batch :: "u64 \<Rightarrow> TickedIntent list \<Rightarrow> bytes" where
  "encode_batch tick ts =
     finishTSLB (foldl appendLoggedIntent (beginTSLB []) ts) tick (length ts)"

lemma fold_append: "foldl appendLoggedIntent dst ts = dst @ concat (map logged_record ts)"
  by (induction ts arbitrary: dst) (simp_all add: appendLoggedIntent_def)

lemma tslb_records_enc:
  "\<forall>t \<in> set ts. loggable t \<and> ti_Tick t = tick \<Longrightarrow>
   tslb_records cnt tick (length ts) (concat (map logged_record ts)) = Inr (map logged_form ts, [])"
proof (induction ts)
  case (Cons t ts)
  have "ti_Tick (logged_form t) = tick" using Cons.prems by (simp add: logged_form_def)
  then show ?case
    using Cons decode_logged_prefix [of t "concat (map logged_record ts)"] by simp
qed simp

lemma records_length: "61 * length ts \<le> length (concat (map logged_record ts))"
  by (induction ts) (simp_all add: length_logged_record)

lemma decode_batch:
  assumes "\<forall>t \<in> set ts. loggable t \<and> ti_Tick t = tick" and "length ts < 4294967296"
  shows "DecodeTSLB (encode_batch tick ts) = Inr (map logged_form ts)"
proof -
  let ?recs = "concat (map logged_record ts)"
  have b: "encode_batch tick ts
      = tslbMagic @ [tslbVersion, 0] @ put_u32 (word_of_nat (length ts)) @ put_u64 tick @ ?recs"
    by (simp add: encode_batch_def fold_append beginTSLB_def finishTSLB_def tslbMagic_def bytes_of_def)
  have len4: "length tslbMagic = 4" by (simp add: tslbMagic_def)
  have h: "take 4 (encode_batch tick ts) = tslbMagic" "encode_batch tick ts ! 4 = tslbVersion"
    "encode_batch tick ts ! 5 = 0" "unat (get_u32 (drop 6 (encode_batch tick ts))) = length ts"
    "get_u64 (drop 10 (encode_batch tick ts)) = tick" "drop tslbHeader (encode_batch tick ts) = ?recs"
    "length (encode_batch tick ts) = 18 + length ?recs"
    using assms(2) len4 by (simp_all add: b nth_append unat_of_nat_u32 tslbHeader_def)
  have "length ts * 61 \<le> length ?recs" using records_length [of ts] by simp
  then have "\<not> length ?recs div loggedIntentMin < length ts"
    using div_le_mono [of "length ts * 61" "length ?recs" 61]
    by (simp add: loggedIntentMin_def)
  then show ?thesis
    unfolding DecodeTSLB_def h Let_def
    using tslb_records_enc [OF assms(1), of "length ts"] by (simp add: tslbHeader_def)
qed


text \<open>
  the batched log is strict. A TSLB message that decodes has as many records as its header
  says, every one of them for the tick of the header, and nothing after the last record.
\<close>

theorem tslb_strict:
  assumes "DecodeTSLB buf = Inr ts"
  shows "length ts = unat (get_u32 (drop 6 buf)) \<and>
         (\<forall>t \<in> set ts. ti_Tick t = get_u64 (drop 10 buf)) \<and>
         61 * length ts + 18 \<le> length buf"
proof -
  have r: "tslb_records cnt tick left rest = Inr (us, r) \<Longrightarrow>
      length us = left \<and> (\<forall>t \<in> set us. ti_Tick t = tick)" for cnt tick left rest us r
    by (induction left arbitrary: rest us) (fastforce split: sum.splits prod.splits if_splits)+
  let ?n = "unat (get_u32 (drop 6 buf))"
  obtain r' where t: "tslb_records ?n (get_u64 (drop 10 buf)) ?n (drop tslbHeader buf) = Inr (ts, r')"
    and c: "?n \<le> length (drop tslbHeader buf) div loggedIntentMin" "tslbHeader \<le> length buf"
    using assms by (auto simp: DecodeTSLB_def Let_def not_less split: if_splits sum.splits prod.splits)
  have "61 * ?n \<le> length buf - 18"
    using c(1) div_times_less_eq_dividend [of "length buf - 18" 61]
    by (simp add: tslbHeader_def loggedIntentMin_def)
  then show ?thesis using r [OF t] c(2) by (simp add: tslbHeader_def)
qed

subsection \<open>The recorder's split of a tick\<close>

record recorder =
  rc_published :: "bytes list"
  rc_IntentsWritten :: u64
  rc_IntentBatchesWritten :: u64

datatype record_error = Publish_failed string | Mixed_ticks u64 u64

text \<open>\<open>pub\<close> is the stream's answer to a publish: \<open>None\<close> for accepted.\<close>

definition flush_batch :: "(bytes \<Rightarrow> string option) \<Rightarrow> u64 \<Rightarrow> bytes \<Rightarrow> nat \<Rightarrow> recorder \<Rightarrow>
    record_error + recorder" where
  "flush_batch pub tick buf n rc =
     (if n = 0 then Inr rc
      else let msg = finishTSLB buf tick n in
        case pub msg of
          Some err \<Rightarrow> Inl (Publish_failed err)
        | None \<Rightarrow> Inr (rc\<lparr>rc_published := rc_published rc @ [msg],
            rc_IntentsWritten := rc_IntentsWritten rc + word_of_nat n,
            rc_IntentBatchesWritten := rc_IntentBatchesWritten rc + 1\<rparr>))"

fun batch_loop :: "(bytes \<Rightarrow> string option) \<Rightarrow> int \<Rightarrow> u64 \<Rightarrow> TickedIntent list \<Rightarrow> bytes \<Rightarrow> nat \<Rightarrow>
    recorder \<Rightarrow> record_error + recorder" where
  "batch_loop pub budget tick [] buf n rc = flush_batch pub tick buf n rc"
| "batch_loop pub budget tick (t # ts) buf n rc =
     (if ti_Tick t \<noteq> tick then Inl (Mixed_ticks (ti_Tick t) tick)
      else if 0 < n \<and> budget < int (length buf) + loggedIntentMax
      then (case flush_batch pub tick buf n rc of
          Inl err \<Rightarrow> Inl err
        | Inr rc' \<Rightarrow> batch_loop pub budget tick ts (appendLoggedIntent (beginTSLB []) t) 1 rc')
      else batch_loop pub budget tick ts
             (appendLoggedIntent (if buf = [] then beginTSLB [] else buf) t) (Suc n) rc)"

definition logIntentBatch :: "(bytes \<Rightarrow> string option) \<Rightarrow> int \<Rightarrow> TickedIntent list \<Rightarrow> u64 \<Rightarrow>
    recorder \<Rightarrow> record_error + recorder" where
  "logIntentBatch pub budget ts tick rc =
     (if ts = [] then Inr rc else batch_loop pub budget tick ts [] 0 rc)"

definition partial_batch :: "TickedIntent list \<Rightarrow> bytes" where
  "partial_batch rs = (if rs = [] then [] else beginTSLB [] @ concat (map logged_record rs))"

lemma partial_batch_snoc:
  "appendLoggedIntent (if partial_batch rs = [] then beginTSLB [] else partial_batch rs) t
   = partial_batch (rs @ [t])"
  by (simp add: partial_batch_def appendLoggedIntent_def beginTSLB_def)

lemma partial_one: "appendLoggedIntent (beginTSLB []) t = partial_batch [t]"
  using partial_batch_snoc [of "[]" t] by (simp add: partial_batch_def)

lemma flush_partial:
  assumes "flush_batch pub tick (partial_batch rs) (length rs) rc = Inr rc'" and "rs \<noteq> []"
  shows "rc' = rc\<lparr>rc_published := rc_published rc @ [encode_batch tick rs],
           rc_IntentsWritten := rc_IntentsWritten rc + word_of_nat (length rs),
           rc_IntentBatchesWritten := rc_IntentBatchesWritten rc + 1\<rparr>"
  using assms
  by (auto simp: flush_batch_def partial_batch_def encode_batch_def fold_append Let_def split: option.splits)

lemma batch_loop_split:
  assumes "batch_loop pub budget tick ts (partial_batch rs) (length rs) rc = Inr rc'"
    and "rs \<noteq> [] \<or> ts \<noteq> []"
  shows "\<exists>rss. concat rss = rs @ ts \<and> [] \<notin> set rss \<and> (\<forall>t \<in> set ts. ti_Tick t = tick) \<and>
           rc_published rc' = rc_published rc @ map (encode_batch tick) rss \<and>
           rc_IntentsWritten rc' = rc_IntentsWritten rc + word_of_nat (length rs + length ts) \<and>
           rc_IntentBatchesWritten rc' = rc_IntentBatchesWritten rc + word_of_nat (length rss)"
  using assms
proof (induction ts arbitrary: rs rc)
  case Nil
  then show ?case
    using flush_partial [of pub tick rs rc rc'] by (intro exI [of _ "[rs]"]) simp
next
  case (Cons t ts)
  show ?case
  proof (cases "rs \<noteq> [] \<and> budget < int (length (partial_batch rs)) + loggedIntentMax")
    case True
    then obtain rc1 where f: "flush_batch pub tick (partial_batch rs) (length rs) rc = Inr rc1"
      and l: "batch_loop pub budget tick ts (appendLoggedIntent (beginTSLB []) t) 1 rc1 = Inr rc'"
      and tk: "ti_Tick t = tick"
      using Cons.prems(1) by (auto split: sum.splits if_splits)
    from l have "batch_loop pub budget tick ts (partial_batch [t]) (length [t]) rc1 = Inr rc'"
      by (simp add: partial_one)
    from Cons.IH [OF this] obtain rss where "concat rss = t # ts" "[] \<notin> set rss"
      "\<forall>t \<in> set ts. ti_Tick t = tick"
      "rc_published rc' = rc_published rc1 @ map (encode_batch tick) rss"
      "rc_IntentsWritten rc' = rc_IntentsWritten rc1 + word_of_nat (length [t] + length ts)"
      "rc_IntentBatchesWritten rc' = rc_IntentBatchesWritten rc1 + word_of_nat (length rss)"
      by auto
    then show ?thesis
      using flush_partial [OF f] True tk by (intro exI [of _ "rs # rss"]) auto
  next
    case False
    then have l: "batch_loop pub budget tick ts (partial_batch (rs @ [t])) (length (rs @ [t])) rc = Inr rc'"
      and tk: "ti_Tick t = tick"
      using Cons.prems(1) partial_batch_snoc [of rs t] by (auto split: if_splits)
    from Cons.IH [OF l] show ?thesis using tk by auto
  qed
qed


text \<open>The routes a record keeps: unset and empty, or set, not empty and at most 48 bytes.\<close>

definition route_kept :: "Intent \<Rightarrow> bool" where
  "route_kept it \<longleftrightarrow> (if in_RouteSet it then in_Route it \<noteq> [] \<and> length (in_Route it) \<le> 48 else in_Route it = [])"

lemma logged_exact: "logged_form t = t \<longleftrightarrow> route_kept (ki_Intent (ti_Keyed t))"
proof -
  have "wire_form it = it \<longleftrightarrow> route_kept it" for it
    by (cases it) (auto simp: wire_form_def wire_route_def route_kept_def intentMaxRoute_def)
  moreover have "logged_form t = t \<longleftrightarrow> wire_form (ki_Intent (ti_Keyed t)) = ki_Intent (ti_Keyed t)"
    by (cases t; cases "ti_Keyed t") (simp add: logged_form_def)
  ultimately show ?thesis by simp
qed

text \<open>
  C26: the record plane keeps every applied intent, in its logged form. When logging a tick succeeds,
  the messages it published decode one by one, and their records, read one after the other, are the
  tick's applied intents in application order, each in its logged form: the route flag of a set empty
  route is dropped and a route is cut at 48 bytes, and exactly an intent with neither comes back as it
  was. No message is empty, the two counters grow by the number of intents and of messages, and no
  entry of another tick slips in.
\<close>

theorem batch_lossless:
  assumes "logIntentBatch pub budget ts tick rc = Inr rc'"
    and "\<forall>t \<in> set ts. loggable t" and "length ts < 4294967296"
  shows "\<exists>msgs rss. rc_published rc' = rc_published rc @ msgs \<and>
           map DecodeTSLB msgs = map Inr rss \<and> concat rss = map logged_form ts \<and> [] \<notin> set rss \<and>
           rc_IntentsWritten rc' = rc_IntentsWritten rc + word_of_nat (length ts) \<and>
           rc_IntentBatchesWritten rc' = rc_IntentBatchesWritten rc + word_of_nat (length msgs) \<and>
           (\<forall>t \<in> set ts. ti_Tick t = tick \<and> (logged_form t = t) = route_kept (ki_Intent (ti_Keyed t)))"
proof (cases "ts = []")
  case True
  then show ?thesis
    using assms(1) by (intro exI [of _ "[]"]) (simp add: logIntentBatch_def)
next
  case False
  then have "batch_loop pub budget tick ts (partial_batch []) (length []) rc = Inr rc'"
    using assms(1) by (simp add: logIntentBatch_def partial_batch_def)
  from batch_loop_split [OF this] False obtain rss where rss: "concat rss = ts" "[] \<notin> set rss"
    "\<forall>t \<in> set ts. ti_Tick t = tick"
    and out: "rc_published rc' = rc_published rc @ map (encode_batch tick) rss"
    "rc_IntentsWritten rc' = rc_IntentsWritten rc + word_of_nat (length ts)"
    "rc_IntentBatchesWritten rc' = rc_IntentBatchesWritten rc + word_of_nat (length rss)"
    by auto
  have "DecodeTSLB (encode_batch tick rs) = Inr (map logged_form rs)" if "rs \<in> set rss" for rs
  proof (rule decode_batch)
    show "\<forall>t \<in> set rs. loggable t \<and> ti_Tick t = tick"
      using that rss(1,3) assms(2) by auto
    have "length rs \<le> length (concat rss)"
      using that by (metis length_concat length_map member_le_sum_list in_set_conv_nth nth_map zero_le)
    then show "length rs < 4294967296" using rss(1) assms(3) by simp
  qed
  then have "map DecodeTSLB (map (encode_batch tick) rss) = map Inr (map (map logged_form) rss)"
    by simp
  moreover have "concat (map (map logged_form) rss) = map logged_form ts"
    using rss(1) by (metis map_concat)
  ultimately show ?thesis
    using out rss logged_exact
    by (intro exI [of _ "map (encode_batch tick) rss"] exI [of _ "map (map logged_form) rss"]) auto
qed

lemma logged_record_max:
  "length (ki_Controller (ti_Keyed t)) \<le> 256 \<Longrightarrow> int (length (logged_record t)) \<le> loggedIntentMax"
  using length_wire_route [of "ki_Intent (ti_Keyed t)"]
  by (simp add: length_logged_record loggedIntentMax_def intentMaxRoute_def)

lemma length_batch: "length (encode_batch tick rs) = 18 + length (concat (map logged_record rs))"
  by (simp add: encode_batch_def fold_append beginTSLB_def finishTSLB_def tslbMagic_def)

lemma length_partial: "rs \<noteq> [] \<Longrightarrow> length (partial_batch rs) = 18 + length (concat (map logged_record rs))"
  by (simp add: partial_batch_def beginTSLB_def tslbMagic_def)

lemma batch_loop_bounded:
  assumes "batch_loop pub budget tick ts (partial_batch rs) (length rs) rc = Inr rc'"
    and "\<forall>t \<in> set ts. int (length (logged_record t)) \<le> loggedIntentMax"
    and "18 + loggedIntentMax \<le> budget" and "int (length (partial_batch rs)) \<le> budget"
    and "\<forall>m \<in> set (rc_published rc). int (length m) \<le> budget"
  shows "\<forall>m \<in> set (rc_published rc'). int (length m) \<le> budget"
  using assms
proof (induction ts arbitrary: rs rc)
  case Nil
  show ?case
  proof (cases "rs = []")
    case True
    then show ?thesis using Nil by (simp add: flush_batch_def)
  next
    case False
    then show ?thesis
      using Nil flush_partial [of pub tick rs rc rc'] by (auto simp: length_batch length_partial)
  qed
next
  case (Cons t ts)
  show ?case
  proof (cases "rs \<noteq> [] \<and> budget < int (length (partial_batch rs)) + loggedIntentMax")
    case True
    then obtain rc1 where f: "flush_batch pub tick (partial_batch rs) (length rs) rc = Inr rc1"
      and l: "batch_loop pub budget tick ts (appendLoggedIntent (beginTSLB []) t) 1 rc1 = Inr rc'"
      using Cons.prems(1) by (auto split: sum.splits if_splits)
    from l have "batch_loop pub budget tick ts (partial_batch [t]) (length [t]) rc1 = Inr rc'"
      by (simp add: partial_one)
    moreover have "int (length (partial_batch [t])) \<le> budget"
      using Cons.prems(2,3) by (simp add: length_partial)
    moreover have "\<forall>m \<in> set (rc_published rc1). int (length m) \<le> budget"
      using flush_partial [OF f] True Cons.prems(4,5) by (auto simp: length_batch length_partial)
    ultimately show ?thesis using Cons.IH [of "[t]" rc1] Cons.prems(2,3) by simp
  next
    case False
    then have l: "batch_loop pub budget tick ts (partial_batch (rs @ [t])) (length (rs @ [t])) rc = Inr rc'"
      using Cons.prems(1) partial_batch_snoc [of rs t] by (auto split: if_splits)
    have "int (length (partial_batch (rs @ [t]))) \<le> budget"
    proof (cases "rs = []")
      case True
      then show ?thesis using Cons.prems(2,3) by (simp add: length_partial)
    next
      case False
      then show ?thesis
        using \<open>\<not> (rs \<noteq> [] \<and> budget < int (length (partial_batch rs)) + loggedIntentMax)\<close> Cons.prems(2)
        by (simp add: length_partial)
    qed
    then show ?thesis using Cons.IH [OF l] Cons.prems by simp
  qed
qed

text \<open>
  the byte budget holds. If controller names are at most 256 bytes and the budget has room
  for a header and one record, no published message is longer than the budget.
\<close>

theorem batch_bounded:
  assumes "logIntentBatch pub budget ts tick rc = Inr rc'"
    and "\<forall>t \<in> set ts. length (ki_Controller (ti_Keyed t)) \<le> 256"
    and "18 + loggedIntentMax \<le> budget"
    and "\<forall>m \<in> set (rc_published rc). int (length m) \<le> budget"
  shows "\<forall>m \<in> set (rc_published rc'). int (length m) \<le> budget"
proof (cases "ts = []")
  case True
  then show ?thesis using assms(1,4) by (simp add: logIntentBatch_def)
next
  case False
  then have "batch_loop pub budget tick ts (partial_batch []) (length []) rc = Inr rc'"
    using assms(1) by (simp add: logIntentBatch_def partial_batch_def)
  then show ?thesis
    by (rule batch_loop_bounded)
      (use assms logged_record_max in \<open>auto simp: partial_batch_def loggedIntentMax_def\<close>)
qed


subsection \<open>Witnesses, and what the log does not hold\<close>

definition demo_ticked :: "u64 \<Rightarrow> TickedIntent" where
  "demo_ticked tick = \<lparr>ti_Tick = tick, ti_Superseded = False, ti_Keyed = demo_keyed 1 2 7\<rparr>"

lemma demo_intent_ok: "intent_ok (demo_intent v)" "in_Route (demo_intent v) = ''a''"
  by (simp_all add: intent_ok_def demo_intent_def i32_range_def)

lemma demo_loggable: "loggable (demo_ticked k)"
  by (simp add: loggable_def demo_ticked_def demo_keyed_def demo_intent_ok)

lemma demo_finite: "finite_axes (demo_intent v)"
proof -
  have "\<not> is_nan (f64_lit 50 1)" "\<not> is_inf (f64_lit 50 1)"
    "\<not> is_nan (f64_lit 100 1)" "\<not> is_inf (f64_lit 100 1)"
    by code_simp+
  then show ?thesis by (simp add: finite_axes_def demo_intent_def)
qed

lemma intent_roundtrip_witness: "DecodeIntent (EncodeIntent (demo_intent 3)) = Some (wire_form (demo_intent 3))"
  using intent_roundtrip [OF demo_intent_ok(1)] demo_finite by simp

lemma intent_strict_witness:
  "DecodeIntent (EncodeIntent (wire_form (demo_intent 3))) =
     Some ((wire_form (demo_intent 3))\<lparr>in_RouteSet := (in_RouteSet (wire_form (demo_intent 3)) \<and> in_Route (wire_form (demo_intent 3)) \<noteq> [])\<rparr>)"
proof -
  have "DecodeIntent (EncodeIntent (demo_intent 3)) = Some (wire_form (demo_intent 3))"
    using decode_encode [OF demo_intent_ok(1)] demo_finite by simp
  then show ?thesis using intent_strict [of "EncodeIntent (demo_intent 3)"] by blast
qed

definition plain_intent :: "u64 \<Rightarrow> Intent" where
  "plain_intent v = (demo_intent v)\<lparr>in_RouteSet := False, in_Route := []\<rparr>"

definition demo_batch :: bytes where
  "demo_batch = the (EncodeTSIB 5 [plain_intent 3, demo_intent 4])"

lemma demo_batch_encoded: "EncodeTSIB 5 [plain_intent 3, demo_intent 4] = Some demo_batch"
  by (simp add: demo_batch_def EncodeTSIB_def plain_intent_def demo_intent_def TSIBMaxRecords_def Let_def)

lemma demo_batch_ok:
  "\<forall>it \<in> set [plain_intent 3, demo_intent 4]. intent_ok it"
  "map wire_form (filter finite_axes (filter (\<lambda>it. \<not> in_RouteSet it) [plain_intent 3, demo_intent 4]))
   = [plain_intent 3]"
  "length (filter (\<lambda>it. \<not> finite_axes it)
     (filter (\<lambda>it. \<not> in_RouteSet it) [plain_intent 3, demo_intent 4])) = 0"
proof -
  have ok: "intent_ok (plain_intent 3)" "finite_axes (plain_intent 3)"
    "wire_form (plain_intent 3) = plain_intent 3"
    "\<not> in_RouteSet (plain_intent 3)" "in_RouteSet (demo_intent 4)"
    using demo_intent_ok(1) [of 3] demo_finite [of 3]
    by (simp_all add: plain_intent_def intent_ok_def finite_axes_def wire_form_def wire_route_def)
      (simp add: demo_intent_def)
  then show "\<forall>it \<in> set [plain_intent 3, demo_intent 4]. intent_ok it"
    "map wire_form (filter finite_axes (filter (\<lambda>it. \<not> in_RouteSet it) [plain_intent 3, demo_intent 4]))
     = [plain_intent 3]"
    "length (filter (\<lambda>it. \<not> finite_axes it)
       (filter (\<lambda>it. \<not> in_RouteSet it) [plain_intent 3, demo_intent 4])) = 0"
    by (simp_all add: demo_intent_ok)
qed

lemma tsib_roundtrip_witness: "DecodeTSIB demo_batch = Some ([plain_intent 3], 0)"
  using tsib_roundtrip [OF demo_batch_encoded demo_batch_ok(1)] unfolding demo_batch_ok .

lemma tsib_strict_witness: "length demo_batch = 68"
proof -
  have "DecodeTSIB demo_batch = Some ([plain_intent 3], 0)"
    using tsib_decodes [OF demo_batch_encoded demo_batch_ok(1)] unfolding demo_batch_ok .
  from tsib_strict [OF this] show ?thesis by simp
qed

lemma logged_roundtrip_witness:
  "decodeLoggedIntent (appendLoggedIntent [] (demo_ticked 9)) = Inr (logged_form (demo_ticked 9))"
  using logged_roundtrip [OF demo_loggable] by blast

definition demo_recorder :: recorder where
  "demo_recorder = \<lparr>rc_published = [], rc_IntentsWritten = 0, rc_IntentBatchesWritten = 0\<rparr>"

definition demo_log :: "record_error + recorder" where
  "demo_log = logIntentBatch (\<lambda>_. None) 400 [demo_ticked 9, demo_ticked 9] 9 demo_recorder"

lemma demo_log_two:
  "demo_log = Inr (demo_recorder\<lparr>rc_published := [encode_batch 9 [demo_ticked 9], encode_batch 9 [demo_ticked 9]],
     rc_IntentsWritten := 2, rc_IntentBatchesWritten := 2\<rparr>)"
  by (simp add: demo_log_def logIntentBatch_def flush_batch_def demo_ticked_def demo_recorder_def
      encode_batch_def fold_append appendLoggedIntent_def loggedIntentMax_def intentMaxRoute_def
      beginTSLB_def tslbMagic_def length_logged_record Let_def)

lemma tslb_strict_witness: "61 * 1 + 18 \<le> length (encode_batch 9 [demo_ticked 9])"
proof -
  have "DecodeTSLB (encode_batch 9 [demo_ticked 9]) = Inr (map logged_form [demo_ticked 9])"
    by (rule decode_batch) (simp_all add: demo_loggable, simp add: demo_ticked_def)
  from tslb_strict [OF this] show ?thesis by simp
qed

lemma batch_lossless_witness:
  "\<exists>msgs rss. map DecodeTSLB msgs = map Inr rss \<and>
     concat rss = [logged_form (demo_ticked 9), logged_form (demo_ticked 9)]"
  using batch_lossless [OF demo_log_two [unfolded demo_log_def]] demo_loggable by fastforce

lemma batch_bounded_witness: "int (length (encode_batch 9 [demo_ticked 9])) \<le> 400"
  using batch_bounded [OF demo_log_two [unfolded demo_log_def]]
  by (simp add: demo_ticked_def demo_keyed_def demo_recorder_def loggedIntentMax_def intentMaxRoute_def)

text \<open>
  A v2 message may set the route flag with an empty route: the decoder accepts it and the
  kernel clears the vehicle's destination. The record drops the flag with the empty route.
\<close>

definition clear_route :: "u64 \<Rightarrow> Intent" where
  "clear_route v = no_intent\<lparr>in_VehicleID := v, in_RouteSet := True\<rparr>"

definition clear_message :: bytes where
  "clear_message = putIntentFixed (clear_route 3) flagRoute 0"

definition routed_vehicle :: Vehicle where
  "routed_vehicle = (demo_vehicle 3)\<lparr>v_Route := ''a''\<rparr>"

text \<open>
  A cleared destination is not replayed. The message with an empty route decodes to an
  intent that clears the route of the vehicle it is applied to; the record logged for it
  decodes to an intent that leaves the route as it was, so the replay routes the vehicle to a
  destination the live run had cleared.
\<close>

lemma log_drops_route_clear:
  "DecodeIntent clear_message = Some (clear_route 3) \<and>
   v_Route (applyAxes demo_engine routed_vehicle (clear_route 3)) = [] \<and>
   (case decodeLoggedIntent (appendLoggedIntent [] ((demo_ticked 9)\<lparr>ti_Keyed :=
       (demo_keyed 1 3 7)\<lparr>ki_Intent := clear_route 3\<rparr>\<rparr>)) of
      Inl _ \<Rightarrow> False
    | Inr t \<Rightarrow> v_Route (applyAxes demo_engine routed_vehicle (ki_Intent (ti_Keyed t))) = ''a'')"
  by code_simp

end
