(* ===== verification/SigDisplay.thy ===== *)
theory SigDisplay
  imports Demo
begin

text \<open>
  What the display-onset machinery of \<open>engine/signal.go\<close> (\<open>sigSpanOnset\<close>,
  \<open>sigDisplayedOnset\<close>, \<open>sigInClearance\<close>) promises: the light an approach sees has been the
  same since the onset it reports, so the red-clearance window really starts at the change of
  the light. The promise rests on the shape of an override history, \<open>ov_chron\<close>, which
  \<open>SigCtl\<close> shows every step of the override table to keep.
\<close>

subsection \<open>Compiling establishes the schedule's contract\<close>

lemma compile_phases_shape:
  "compile_phases pid dt i phs cyc = Inr (tks, c) \<Longrightarrow>
   length tks = length phs \<and> 0 \<notin> set tks \<and>
   tks = map (\<lambda>ph. to_ticks (ph_Duration ph) dt) phs \<and> c = cyc + sum_list tks"
  by (induction phs arbitrary: i cyc tks c)
    (fastforce simp: Let_def add.assoc split: if_splits sum.splits prod.splits)+

lemma unat_sum_list:
  "sum_list (map unat tks) < 18446744073709551616 \<Longrightarrow>
   unat (sum_list tks :: u64) = sum_list (map unat tks)"
  by (induction tks) (simp_all add: u64_add_no_wrap)

text \<open>
  C37: compiling a program onto the tick grid gives a schedule the phase derivation can run on.
  If \<open>compileTicks\<close> accepts a fresh program with phases whose total is below $2^{63}$ ticks,
  every phase has a positive duration, the cycle is exactly the sum of the durations (so it is
  never zero and the modulo never panics), and each duration is the rounded quotient of the
  file's seconds by the tick length.
\<close>

theorem compileTicks_compiled:
  assumes "compileTicks dt p = Inr p'"
    and "pg_cycle p = 0" and "pg_Phases p \<noteq> []"
    and "(\<Sum>ph\<leftarrow>pg_Phases p. unat (to_ticks (ph_Duration ph) dt)) < 9223372036854775808"
  shows "compiled p' \<and> pg_Phases p' = pg_Phases p \<and>
         pg_phaseTicks p' = map (\<lambda>ph. to_ticks (ph_Duration ph) dt) (pg_Phases p) \<and>
         pg_offsetTicks p' = to_ticks (pg_Offset p) dt"
proof -
  obtain tks c where c: "compile_phases (pg_ID p) dt 0 (pg_Phases p) (pg_cycle p) = Inr (tks, c)"
    and p': "p' = p\<lparr>pg_phaseTicks := tks, pg_cycle := c, pg_offsetTicks := to_ticks (pg_Offset p) dt,
          pg_clearance := to_ticks clearanceSeconds dt\<rparr>"
    using assms(1) by (auto simp: compileTicks_def split: if_splits sum.splits)
  note shape = compile_phases_shape [OF c]
  have "sum_list (map unat tks) < 9223372036854775808"
    using assms(4) shape by (simp add: comp_def)
  moreover from this have "unat c = sum_list (map unat tks)"
    using shape assms(2) unat_sum_list [of tks] by simp
  ultimately have "compiled p'"
    using shape assms(3) unfolding compiled_def p' by auto
  then show ?thesis using shape p' by simp
qed

lemma demo_ticks:
  "to_ticks (f64_lit 30 1) (f64_lit 1 10) = 300" "to_ticks (f64_lit 3 1) (f64_lit 1 10) = 30"
  "to_ticks (f64_lit 27 1) (f64_lit 1 10) = 270" "to_ticks 0 (f64_lit 1 10) = 0"
  "\<not> fle (f64_lit 1 10) 0"
  by code_simp+

lemma demo_compiles: "compileTicks (f64_lit 1 10) demo_program = Inr demo_compiled"
  by (simp add: compileTicks_def demo_program_def demo_phases_def demo_compiled_def demo_ticks
      clearanceSeconds_def)

lemma compileTicks_compiled_witness: "compiled demo_compiled"
  using compileTicks_compiled [OF demo_compiles]
  by (simp add: demo_program_def demo_phases_def demo_ticks)


subsection \<open>The phase in force is constant over a displayed span\<close>

text \<open>Going back no further than the elapsed ticks stays inside the phase.\<close>

lemma cycle_pos_back:
  assumes "compiled p" and "d \<le> cycle_pos p x" and "d \<le> unat x"
  shows "cycle_pos p (x - word_of_nat d) = cycle_pos p x - d"
proof -
  let ?c = "unat (pg_cycle p)"
  let ?K = "?c - unat (pg_offsetTicks p) mod ?c"
  have d: "unat (word_of_nat d :: u64) = d"
    using assms(3) by (rule unat_of_nat_le_u64)
  have diff: "unat (x - word_of_nat d) = unat x - d"
    using d assms(3) by (simp add: u64_sub_unat word_le_nat_alt)
  have "unat x + ?K = (unat x + ?K) div ?c * ?c + cycle_pos p x"
    by (simp add: cycle_pos_def)
  then have "unat x - d + ?K = (unat x + ?K) div ?c * ?c + (cycle_pos p x - d)"
    using assms(2,3) by linarith
  moreover have "cycle_pos p x - d < ?c"
    using cycle_pos_less [OF assms(1), of x] by simp
  ultimately show ?thesis
    by (simp add: cycle_pos_def [of p "x - word_of_nat d"] diff)
qed

lemma phaseAtElapsed_back:
  assumes "compiled p" and "phaseAtElapsed p x = (i, el)" and "t \<le> x" and "unat x - unat t \<le> unat el"
  shows "fst (phaseAtElapsed p t) = i"
proof -
  obtain k where k: "i = int k" "k < length (pg_phaseTicks p)" "unat el < unat (pg_phaseTicks p ! k)"
    and y: "cycle_pos p x = ticks_before (pg_phaseTicks p) k + unat el"
    using phaseAtElapsed_spec [OF assms(1), of x] assms(2) by (metis prod.inject)
  let ?d = "unat x - unat t"
  have t: "t = x - word_of_nat ?d"
  proof -
    have "(word_of_nat ?d :: u64) = x - t"
      using assms(3) by (simp add: word_unat_eq_iff u64_sub_unat word_le_nat_alt unat_of_nat
          less_imp_diff_less)
    then show ?thesis by simp
  qed
  have "cycle_pos p t = cycle_pos p x - ?d"
    by (subst t, rule cycle_pos_back [OF assms(1)]) (use y assms(4) in simp_all)
  then have "cycle_pos p t = ticks_before (pg_phaseTicks p) k + unat (el - word_of_nat ?d)"
    and "unat (el - word_of_nat ?d) < unat (pg_phaseTicks p ! k)"
    using y assms(4) k(3) unat_of_nat_le_u64 [OF assms(4)]
    by (simp_all add: u64_sub_unat word_le_nat_alt)
  then show ?thesis
    using phaseAtElapsed_at [OF assms(1) k(2)] k(1) by simp
qed

text \<open>A history as the override table keeps it: nonempty intervals, disjoint, oldest first.\<close>

definition ov_chron :: "sigOverride list \<Rightarrow> bool" where
  "ov_chron h \<longleftrightarrow> sorted_wrt (\<lambda>a b. ov_until a \<le> ov_since b) h \<and>
     (\<forall>ov \<in> set h. ov_since ov < ov_until ov)"

lemma ov_chron_append:
  "ov_chron (h @ [ov]) \<longleftrightarrow>
   ov_chron h \<and> ov_since ov < ov_until ov \<and> (\<forall>o' \<in> set h. ov_until o' \<le> ov_since ov)"
  by (auto simp: ov_chron_def sorted_wrt_append)

lemma find_covers_none:
  "\<forall>ov \<in> set h. \<not> ov_covers ov t \<Longrightarrow> find (\<lambda>ov. ov_covers ov t) (rev h) = None"
  by (simp add: find_None_iff)

text \<open>The scan and the phase lookup agree on every tick of the span the scan reports.\<close>

lemma span_scan_constant:
  assumes "compiled p" and "ov_chron h" and "span_scan p x (rev h) = Some (i, on, b)"
    and "on \<le> t" and "t \<le> x"
  shows "(case find (\<lambda>ov. ov_covers ov t) (rev h) of
            Some ov \<Rightarrow> ov_phase ov | None \<Rightarrow> fst (phaseAtElapsed p t)) = i"
  using assms(2,3)
proof (induction h rule: rev_induct)
  case Nil
  then show ?case by simp
next
  case (snoc ov h)
  have chron: "ov_chron h" "\<forall>o' \<in> set h. ov_until o' \<le> ov_since ov" "ov_since ov < ov_until ov"
    using snoc.prems(1) by (simp_all add: ov_chron_append)
  show ?case
  proof (cases "ov_covers ov x")
    case True
    then have "ov_covers ov t" and "i = ov_phase ov"
      using snoc.prems(2) assms(4,5) by (auto simp: ov_covers_def)
    then show ?thesis by simp
  next
    case nocov: False
    show ?thesis
    proof (cases "ov_until ov \<le> x")
      case True
      obtain idx el where pe: "phaseAtElapsed p x = (idx, el)" by fastforce
      have r: "i = idx" "ov_until ov \<le> on \<or> on = 0 \<and> ov_until ov = 0"
        "x < el \<or> x - el \<le> on"
        using snoc.prems(2) True nocov pe by (auto simp: Let_def not_less split: if_splits)
      have "ov_until ov \<le> on" using r(2) chron(3) by auto
      then have "\<forall>o' \<in> set (h @ [ov]). \<not> ov_covers o' t"
        using chron assms(4) by (auto simp: ov_covers_def not_less intro: order.trans less_imp_le)
      moreover have "unat x - unat t \<le> unat el"
      proof (cases "x < el")
        case True
        then show ?thesis by (simp add: word_less_nat_alt)
      next
        case False
        then have "x - el \<le> t" using r(3) assms(4) by simp
        then show ?thesis using False by (simp add: word_le_nat_alt word_less_nat_alt u64_sub_unat)
      qed
      ultimately show ?thesis
        using phaseAtElapsed_back [OF assms(1) pe assms(5)] r(1)
        by (simp only: find_covers_none option.case)
    next
      case False
      then have "x < ov_since ov" using nocov by (auto simp: ov_covers_def not_le)
      then have "\<not> ov_covers ov t" using assms(5) by (auto simp: ov_covers_def)
      then show ?thesis
        using snoc.IH [OF chron(1)] snoc.prems(2) nocov False by simp
    qed
  qed
qed


lemma sigPhaseAt_scan:
  "fst (sigPhaseAt e p t) =
   (case find (\<lambda>ov. ov_covers ov t) (rev (ov_hist (e_sigOv e) (pg_ID p))) of
      Some ov \<Rightarrow> ov_phase ov | None \<Rightarrow> fst (phaseAtElapsed p t))"
  by (simp add: sigPhaseAt_def split: option.split)

lemma span_scan_None:
  "span_scan p x h = None \<Longrightarrow> ov \<in> set h \<Longrightarrow> t \<le> x \<Longrightarrow> \<not> ov_covers ov t"
  by (induction h) (auto simp: Let_def ov_covers_def not_le not_less split: if_splits prod.splits)

lemma sigSpanOnset_constant:
  assumes "compiled p" and "ov_chron (ov_hist (e_sigOv e) (pg_ID p))"
    and "sigSpanOnset e p x = (i, on, b)" and "on \<le> t" and "t \<le> x"
  shows "fst (sigPhaseAt e p t) = i"
proof (cases "span_scan p x (rev (ov_hist (e_sigOv e) (pg_ID p)))")
  case None
  obtain idx el where pe: "phaseAtElapsed p x = (idx, el)" by fastforce
  have i: "i = idx" "x < el \<or> x - el \<le> on"
    using assms(3) None pe by (auto simp: sigSpanOnset_def Let_def split: if_splits)
  have "unat x - unat t \<le> unat el"
  proof (cases "x < el")
    case True
    then show ?thesis by (simp add: word_less_nat_alt)
  next
    case False
    then have "x - el \<le> t" using i(2) assms(4) by simp
    then show ?thesis using False by (simp add: word_le_nat_alt word_less_nat_alt u64_sub_unat)
  qed
  then have "fst (phaseAtElapsed p t) = i"
    using phaseAtElapsed_back [OF assms(1) pe assms(5)] i(1) by simp
  moreover have "find (\<lambda>ov. ov_covers ov t) (rev (ov_hist (e_sigOv e) (pg_ID p))) = None"
    using span_scan_None [OF None _ assms(5)] by (simp add: find_None_iff)
  ultimately show ?thesis by (simp add: sigPhaseAt_scan)
next
  case (Some r)
  then show ?thesis
    using span_scan_constant [OF assms(1,2) _ assms(4,5)] assms(3)
    by (simp add: sigPhaseAt_scan sigSpanOnset_def)
qed

definition shown :: "Engine \<Rightarrow> SignalProgram \<Rightarrow> nat \<Rightarrow> u64 \<Rightarrow> SigState" where
  "shown e p link t = sigPhaseState p link (fst (sigPhaseAt e p t))"

text \<open>The walk keeps: everything from the current onset to the tick shows the same state.\<close>

lemma displayed_walk_constant:
  assumes "compiled p" and "ov_chron (ov_hist (e_sigOv e) (pg_ID p))"
    and "\<And>t. on \<le> t \<Longrightarrow> t \<le> x \<Longrightarrow> shown e p link t = st"
    and "displayed_walk e p link st x on b \<le> t" and "t \<le> x"
  shows "shown e p link t = st"
  using assms(3-)
proof (induction "unat on" arbitrary: on b rule: less_induct)
  case less
  obtain pi po pb where s: "sigSpanOnset e p (on - 1) = (pi, po, pb)"
    by (metis surj_pair)
  show ?case
  proof (cases "0 < on \<and> b \<and> x - on \<le> pg_clearance p \<and> sigPhaseState p link pi = st")
    case False
    then have "displayed_walk e p link st x on b = on"
      using s by (subst displayed_walk.simps) auto
    then show ?thesis using less.prems by simp
  next
    case True
    then have w: "displayed_walk e p link st x on b = displayed_walk e p link st x po pb"
      using s by (subst displayed_walk.simps) auto
    have po: "unat po < unat on"
      using True sigSpanOnset_le [OF s] by (intro u64_pred_less) simp_all
    have "shown e p link u = st" if "po \<le> u" "u \<le> x" for u
    proof (cases "on \<le> u")
      case True
      then show ?thesis using less.prems(1) that by simp
    next
      case False
      then have "u \<le> on - 1"
        by (simp add: word_le_nat_alt word_less_nat_alt u64_sub_unat not_le)
      then have "fst (sigPhaseAt e p u) = pi"
        using sigSpanOnset_constant [OF assms(1,2) s that(1)] by simp
      then show ?thesis using True by (simp add: shown_def)
    qed
    then show ?thesis
      using less.hyps [OF po] less.prems(2,3) w by simp
  qed
qed

lemma u64_pred_le: "0 < (on :: u64) \<Longrightarrow> y \<le> on - 1 \<Longrightarrow> on \<le> x \<Longrightarrow> y \<le> x"
  using u64_pred_less [of on y] by (simp add: word_le_nat_alt)

lemma displayed_walk_le: "on \<le> x \<Longrightarrow> displayed_walk e p link st x on b \<le> x"
proof (induction e p link st x on b rule: displayed_walk.induct)
  case (1 e p link st x on b)
  obtain pi po pb where s: "sigSpanOnset e p (on - 1) = (pi, po, pb)"
    by (metis surj_pair)
  show ?case
    using 1 s u64_pred_le [OF _ sigSpanOnset_le [OF s]]
    by (subst displayed_walk.simps) auto
qed

text \<open>
  C22: the displayed onset is sound. For a compiled program and an override table of the shape
  the control step maintains, the light an approach shows has been one and the same at every
  tick from the onset \<open>sigDisplayedOnset\<close> reports up to the queried tick, across phase changes,
  holds, lapses and supersessions; and the phase it reports is the one in force.
\<close>

theorem displayed_onset_sound:
  assumes "compiled p" and "ov_chron (ov_hist (e_sigOv e) (pg_ID p))"
    and "sigDisplayedOnset e p link tick = (i, on)"
  shows "on \<le> tick \<and> i = fst (sigPhaseAt e p tick) \<and>
         (\<forall>t. on \<le> t \<and> t \<le> tick \<longrightarrow> shown e p link t = shown e p link tick)"
proof -
  obtain idx on0 b where s: "sigSpanOnset e p tick = (idx, on0, b)" by (metis surj_pair)
  have r: "i = idx" "on = displayed_walk e p link (sigPhaseState p link idx) tick on0 b"
    using assms(3) s by (auto simp: sigDisplayedOnset_def)
  have on0: "on0 \<le> tick" using sigSpanOnset_le [OF s] .
  have idx: "fst (sigPhaseAt e p t) = idx" if "on0 \<le> t" "t \<le> tick" for t
    using sigSpanOnset_constant [OF assms(1,2) s that] .
  have all: "shown e p link t = sigPhaseState p link idx" if "on \<le> t" "t \<le> tick" for t
    using displayed_walk_constant [OF assms(1,2), of on0 tick link "sigPhaseState p link idx" b t]
      idx that r(2) by (simp add: shown_def)
  then show ?thesis
    using all idx [OF on0] on0 r displayed_walk_le [OF on0] by (auto simp: shown_def)
qed


subsection \<open>Red clearance\<close>

text \<open>
  red clearance opens only after a real amber. When \<open>sigInClearance\<close> answers true for an
  approach of a compiled program, there is a tick of the last \<open>clearance\<close> ticks, after tick 0,
  at which the light changed to what it shows now: at the tick before, the phase in force
  showed amber to this approach, and from then on the light has not changed.
\<close>

theorem clearance_sound:
  assumes "sigInClearance e l" and "l_Signal l = Some k"
    and "compiled (e_Signals e ! k)"
    and "ov_chron (ov_hist (e_sigOv e) (pg_ID (e_Signals e ! k)))"
  shows "\<exists>on. 0 < on \<and> on \<le> e_Tick e \<and> e_Tick e - on \<le> pg_clearance (e_Signals e ! k) \<and>
           shown e (e_Signals e ! k) (l_LinkIdx l) (on - 1) = SigAmber \<and>
           (\<forall>t. on \<le> t \<and> t \<le> e_Tick e \<longrightarrow>
             shown e (e_Signals e ! k) (l_LinkIdx l) t = sigState e l)"
proof -
  let ?p = "e_Signals e ! k"
  obtain i on where d: "sigDisplayedOnset e ?p (l_LinkIdx l) (e_Tick e) = (i, on)"
    by fastforce
  obtain idx on0 b where s: "sigSpanOnset e ?p (e_Tick e) = (idx, on0, b)" by (metis surj_pair)
  have on0: "on0 \<le> e_Tick e" using sigSpanOnset_le [OF s] .
  have on: "on = displayed_walk e ?p (l_LinkIdx l) (sigPhaseState ?p (l_LinkIdx l) idx) (e_Tick e) on0 b"
    using d s by (auto simp: sigDisplayedOnset_def)
  have now: "shown e ?p (l_LinkIdx l) (e_Tick e) = sigPhaseState ?p (l_LinkIdx l) idx"
    using sigSpanOnset_constant [OF assms(3,4) s on0] by (simp add: shown_def)
  have state: "sigState e l = shown e ?p (l_LinkIdx l) (e_Tick e)"
    using assms(2,3)
    by (simp add: sigState_def shown_def sigPhaseState_def compiled_def Let_def)
  have "on \<noteq> 0" and "e_Tick e - on \<le> pg_clearance ?p"
    and "shown e ?p (l_LinkIdx l) (on - 1) = SigAmber"
    using assms(1,2) d
    by (auto simp: sigInClearance_def shown_def sigPhaseState_def Let_def not_less
        split: if_splits)
  moreover have "shown e ?p (l_LinkIdx l) t = sigPhaseState ?p (l_LinkIdx l) idx"
    if "on \<le> t" "t \<le> e_Tick e" for t
    using displayed_walk_constant [OF assms(3,4), of on0 "e_Tick e" "l_LinkIdx l"
        "sigPhaseState ?p (l_LinkIdx l) idx" b t]
      sigSpanOnset_constant [OF assms(3,4) s] that on by (simp add: shown_def)
  ultimately show ?thesis
    using displayed_walk_le [OF on0] on now state
    by (intro exI [of _ on]) (auto simp: word_neq_0_conv)
qed


text \<open>The demonstration engine of \<open>Demo\<close> applies the three facts at concrete ticks.\<close>

lemma demo_chron: "ov_chron (ov_hist (e_sigOv demo_engine) (pg_ID demo_compiled))"
  by (simp add: ov_chron_def ov_hist_def demo_engine_def demo_compiled_def demo_program_def demo_hold_def)

lemma displayed_onset_sound_witness:
  "sigDisplayedOnset demo_engine demo_compiled 0 25 = (0, 20) \<and>
   shown demo_engine demo_compiled 0 22 = SigGreen"
proof -
  have d: "sigDisplayedOnset demo_engine demo_compiled 0 25 = (0, 20)" by code_simp
  have g: "shown demo_engine demo_compiled 0 25 = SigGreen" by code_simp
  have "(20 :: u64) \<le> 22" "(22 :: u64) \<le> 25" by simp_all
  then show ?thesis
    using displayed_onset_sound [OF demo_compiled_ok demo_chron d] d unfolding g by blast
qed

lemma clearance_sound_witness:
  "\<exists>on. 0 < on \<and> on \<le> e_Tick demo_engine \<and>
     shown demo_engine demo_compiled 0 (on - 1) = SigAmber"
proof -
  have s: "e_Signals demo_engine ! 0 = demo_compiled" "l_LinkIdx demo_lane = 0"
    by (simp_all add: demo_engine_def demo_net_def demo_lane_def)
  have "sigInClearance demo_engine demo_lane" by code_simp
  from clearance_sound [OF this, of 0] show ?thesis
    using demo_compiled_ok demo_chron s by (auto simp: demo_lane_def)
qed

end
