(* ===== verification/SigFrame.thy ===== *)
theory SigFrame
  imports Bytes SigDisplay
begin

text \<open>
  \<open>engine/natsio/sigframe.go\<close>: the signal-program frame (TSSG) the live plane publishes, its
  chunking, the strict client decoder and the client's derivation of the light state. The
  programs of a network are encoded in file order; the internal lanes bound to a program are
  its links, ordered by link index.
\<close>

subsection \<open>Data\<close>

record SigPhase =
  sph_DurationTicks :: u32
  sph_State :: string

record SigLink =
  slk_LinkIdx :: nat
  slk_LaneID :: string

record SigProgram =
  spr_ID :: string
  spr_Junction :: string
  spr_OffsetTicks :: u64
  spr_Phases :: "SigPhase list"
  spr_Links :: "SigLink list"

record SigFrame =
  sf_Tick :: u64
  sf_Programs :: "SigProgram list"

definition sigFrameMagic :: u32 where "sigFrameMagic = 1196643156"
definition sigFrameVersion :: u16 where "sigFrameVersion = 1"
definition sigFrameHeader :: nat where "sigFrameHeader = 24"

subsection \<open>Encoding\<close>

definition signalLinks :: "Network \<Rightarrow> nat \<Rightarrow> SigLink list" where
  "signalLinks net k =
     stable_sort (\<lambda>a b. slk_LinkIdx a < slk_LinkIdx b)
       (map (\<lambda>l. \<lparr>slk_LinkIdx = l_LinkIdx l, slk_LaneID = l_ID l\<rparr>)
         (filter (\<lambda>l. l_Signal l = Some k) (n_Lanes net)))"

definition put_phase :: "u64 \<times> SignalPhase \<Rightarrow> bytes" where
  "put_phase tp = put_u32 (ucast (fst tp)) @ put_str8 (ph_State (snd tp))"

definition put_link :: "SigLink \<Rightarrow> bytes" where
  "put_link l = put_u16 (word_of_nat (slk_LinkIdx l)) @ put_str8 (slk_LaneID l)"

definition encodeSignalProgram :: "Network \<Rightarrow> nat \<Rightarrow> bytes" where
  "encodeSignalProgram net k =
     (let p = n_Signals net ! k; (phaseTicks, offsetTicks) = CompiledTicks p; links = signalLinks net k in
      put_str8 (pg_ID p) @ put_str8 (pg_Junction p) @ put_u64 offsetTicks @
      put_u16 (word_of_nat (length phaseTicks)) @ put_u16 (word_of_nat (length links)) @
      concat (map put_phase (zip phaseTicks (pg_Phases p))) @ concat (map put_link links))"

definition signalProgramBodies :: "Engine \<Rightarrow> bytes list" where
  "signalProgramBodies e = map (encodeSignalProgram (e_Net e)) [0..<length (e_Signals e)]"

definition signalFrameFrom :: "u64 \<Rightarrow> bytes list \<Rightarrow> bytes" where
  "signalFrameFrom tick bodies =
     put_u32 sigFrameMagic @ put_u16 sigFrameVersion @ put_u16 0 @ put_u64 tick @
     put_u32 (word_of_nat (length bodies)) @ put_u32 0 @ concat bodies"

definition SignalFrame :: "Engine \<Rightarrow> bytes" where
  "SignalFrame e = signalFrameFrom (e_Tick e) (signalProgramBodies e)"

definition SigChunkMax :: int where "SigChunkMax = 768 * 1024"

text \<open>The greedy packing: \<open>batch\<close> is the open chunk and \<open>size\<close> its length with the header.\<close>

fun pack_chunks :: "int \<Rightarrow> bytes list \<Rightarrow> bytes list \<Rightarrow> int \<Rightarrow> bytes list list" where
  "pack_chunks mx [] batch sz = (if batch = [] then [] else [batch])"
| "pack_chunks mx (b # bs) batch sz =
     (if batch \<noteq> [] \<and> mx < sz + int (length b)
      then batch # pack_chunks mx bs [b] (int sigFrameHeader + int (length b))
      else pack_chunks mx bs (batch @ [b]) (sz + int (length b)))"

definition signalChunksMax :: "Engine \<Rightarrow> int \<Rightarrow> bytes list" where
  "signalChunksMax e mx =
     (let chunks = map (signalFrameFrom (e_Tick e))
        (pack_chunks mx (signalProgramBodies e) [] (int sigFrameHeader)) in
      if chunks = [] then [signalFrameFrom (e_Tick e) []] else chunks)"

definition SignalChunks :: "Engine \<Rightarrow> bytes list" where
  "SignalChunks e = signalChunksMax e SigChunkMax"

definition withSigTick :: "bytes \<Rightarrow> u64 \<Rightarrow> bytes" where
  "withSigTick chunk tick = take 8 chunk @ put_u64 tick @ drop 16 chunk"

subsection \<open>Decoding\<close>

datatype frame_error =
    Frame_short nat
  | Frame_magic u32
  | Frame_version u16
  | Frame_program nat rerror
  | Frame_trailing nat

definition rd_phase :: "string \<Rightarrow> nat \<Rightarrow> reader \<Rightarrow> SigPhase \<times> reader" where
  "rd_phase pid j r =
     (let (d, r1) = rd_u32 r; (st, r2) = rd_str8 r1 in
      (\<lparr>sph_DurationTicks = d, sph_State = st\<rparr>,
       if rerr r2 = None \<and> d = 0 then r2\<lparr>rerr := Some (Zero_duration pid j)\<rparr> else r2))"

fun rd_phases :: "string \<Rightarrow> nat \<Rightarrow> nat \<Rightarrow> reader \<Rightarrow> SigPhase list \<times> reader" where
  "rd_phases pid j 0 r = ([], r)"
| "rd_phases pid j (Suc n) r =
     (let (ph, r1) = rd_phase pid j r; (phs, r2) = rd_phases pid (Suc j) n r1 in (ph # phs, r2))"

definition rd_link :: "reader \<Rightarrow> SigLink \<times> reader" where
  "rd_link r = (let (i, r1) = rd_u16 r; (s, r2) = rd_str8 r1 in
     (\<lparr>slk_LinkIdx = unat i, slk_LaneID = s\<rparr>, r2))"

definition rd_program :: "reader \<Rightarrow> SigProgram \<times> reader" where
  "rd_program r =
     (let (pid, r1) = rd_str8 r; (jn, r2) = rd_str8 r1; (off, r3) = rd_u64 r2;
          (nPhases, r4) = rd_u16 r3; (nLinks, r5) = rd_u16 r4;
          (phs, r6) = rd_phases pid 0 (unat nPhases) r5;
          (lks, r7) = read_many (unat nLinks) rd_link r6 in
      (\<lparr>spr_ID = pid, spr_Junction = jn, spr_OffsetTicks = off, spr_Phases = phs, spr_Links = lks\<rparr>, r7))"

fun rd_programs :: "nat \<Rightarrow> nat \<Rightarrow> reader \<Rightarrow> frame_error + (SigProgram list \<times> reader)" where
  "rd_programs i 0 r = Inr ([], r)"
| "rd_programs i (Suc n) r =
     (let (p, r1) = rd_program r in
      case rerr r1 of
        Some err \<Rightarrow> Inl (Frame_program i err)
      | None \<Rightarrow> (case rd_programs (Suc i) n r1 of
          Inl err \<Rightarrow> Inl err | Inr (ps, r2) \<Rightarrow> Inr (p # ps, r2)))"

definition ParseSignalFrame :: "bytes \<Rightarrow> frame_error + SigFrame" where
  "ParseSignalFrame buf =
     (if length buf < sigFrameHeader then Inl (Frame_short (length buf))
      else if get_u32 buf \<noteq> sigFrameMagic then Inl (Frame_magic (get_u32 buf))
      else if get_u16 (drop 4 buf) \<noteq> sigFrameVersion then Inl (Frame_version (get_u16 (drop 4 buf)))
      else case rd_programs 0 (unat (get_u32 (drop 16 buf))) (good (drop sigFrameHeader buf)) of
          Inl err \<Rightarrow> Inl err
        | Inr (ps, r) \<Rightarrow>
            if rbuf r \<noteq> [] then Inl (Frame_trailing (length (rbuf r)))
            else Inr \<lparr>sf_Tick = get_u64 (drop 8 buf), sf_Programs = ps\<rparr>)"

subsection \<open>The client's derivation\<close>

definition sf_PhaseAt :: "SigProgram \<Rightarrow> u64 \<Rightarrow> int" where
  "sf_PhaseAt p tick =
     (let tks = map (\<lambda>ph. ucast (sph_DurationTicks ph) :: u64) (spr_Phases p); c = sum_list tks in
      if c = 0 then 0
      else let x = (tick mod c + c - spr_OffsetTicks p mod c) mod c in
        case phase_walk tks 0 x of
          Some (i, _) \<Rightarrow> i
        | None \<Rightarrow> int (length (spr_Phases p)) - 1)"

text \<open>\<open>None\<close> is the zero byte: no state char governs the link.\<close>

definition sf_StateAt :: "SigProgram \<Rightarrow> u64 \<Rightarrow> int \<Rightarrow> char option" where
  "sf_StateAt p tick link =
     (if spr_Phases p = [] then None
      else let st = sph_State (spr_Phases p ! nat (sf_PhaseAt p tick)) in
        if link < 0 \<or> int (length st) \<le> link then None else Some (st ! nat link))"


subsection \<open>Links are sorted by index\<close>

interpretation link_order: strict_weak "\<lambda>a b. slk_LinkIdx a < slk_LinkIdx b"
  by unfold_locales auto

lemma signalLinks_sorted: "sorted (map slk_LinkIdx (signalLinks net k))"
  using link_order.sorted_stable by (simp add: signalLinks_def sorted_map not_less)

subsection \<open>Reading back one program\<close>

definition encodable :: "Network \<Rightarrow> nat \<Rightarrow> bool" where
  "encodable net k \<longleftrightarrow>
     (let p = n_Signals net ! k in
      compiled p \<and> length (pg_ID p) < 256 \<and> length (pg_Junction p) < 256 \<and>
      length (pg_Phases p) < 65536 \<and> length (signalLinks net k) < 65536 \<and>
      (\<forall>tk \<in> set (pg_phaseTicks p). unat tk < 4294967296) \<and>
      (\<forall>ph \<in> set (pg_Phases p). length (ph_State ph) < 256) \<and>
      (\<forall>l \<in> set (n_Lanes net). l_LinkIdx l < 65536 \<and> length (l_ID l) < 256))"

text \<open>The decoded form of program \<open>k\<close> of a network.\<close>

definition sig_program :: "Network \<Rightarrow> nat \<Rightarrow> SigProgram" where
  "sig_program net k =
     (let p = n_Signals net ! k in
      \<lparr>spr_ID = pg_ID p, spr_Junction = pg_Junction p, spr_OffsetTicks = pg_offsetTicks p,
       spr_Phases = map (\<lambda>(tk, ph). \<lparr>sph_DurationTicks = ucast tk, sph_State = ph_State ph\<rparr>)
         (zip (pg_phaseTicks p) (pg_Phases p)),
       spr_Links = signalLinks net k\<rparr>)"

lemma ucast_u32: "unat (tk :: u64) < 4294967296 \<Longrightarrow> unat (ucast tk :: u32) = unat tk"
  by (simp add: unsigned_ucast_eq take_bit_nat_eq_self)

lemma rd_phase_put:
  assumes "0 < unat tk" and "unat tk < 4294967296" and "length (ph_State ph) < 256"
  shows "rd_phase pid j (good (put_phase (tk, ph) @ r))
         = (\<lparr>sph_DurationTicks = ucast tk, sph_State = ph_State ph\<rparr>, good r)"
proof -
  have "unat (ucast tk :: u32) \<noteq> 0" using assms ucast_u32 by simp
  then have "(ucast tk :: u32) \<noteq> 0" by auto
  then show ?thesis
    using assms(3) by (simp add: rd_phase_def put_phase_def rd_str8_good)
qed

lemma rd_phases_put:
  "\<forall>(tk, ph) \<in> set tps. 0 < unat tk \<and> unat tk < 4294967296 \<and> length (ph_State ph) < 256 \<Longrightarrow>
   rd_phases pid j (length tps) (good (concat (map put_phase tps) @ r))
   = (map (\<lambda>(tk, ph). \<lparr>sph_DurationTicks = ucast tk, sph_State = ph_State ph\<rparr>) tps, good r)"
  by (induction tps arbitrary: j) (auto simp: rd_phase_put)

interpretation link_field: field put_link rd_link "\<lambda>l. slk_LinkIdx l < 65536 \<and> length (slk_LaneID l) < 256"
  by unfold_locales (auto simp: put_link_def rd_link_def rd_str8_good unat_of_nat_u16)

lemma signalLinks_set:
  "set (signalLinks net k) =
   (\<lambda>l. \<lparr>slk_LinkIdx = l_LinkIdx l, slk_LaneID = l_ID l\<rparr>) ` {l \<in> set (n_Lanes net). l_Signal l = Some k}"
  by (simp add: signalLinks_def)

lemma rd_program_put:
  assumes "encodable net k"
  shows "rd_program (good (encodeSignalProgram net k @ r)) = (sig_program net k, good r)"
proof -
  let ?p = "n_Signals net ! k" and ?l = "signalLinks net k"
  let ?tps = "zip (pg_phaseTicks ?p) (pg_Phases ?p)"
  have enc: "compiled ?p" "length (pg_ID ?p) < 256" "length (pg_Junction ?p) < 256"
    "length (pg_Phases ?p) < 65536" "length ?l < 65536"
    "\<forall>tk \<in> set (pg_phaseTicks ?p). unat tk < 4294967296"
    "\<forall>ph \<in> set (pg_Phases ?p). length (ph_State ph) < 256"
    "\<forall>l \<in> set (n_Lanes net). l_LinkIdx l < 65536 \<and> length (l_ID l) < 256"
    using assms by (simp_all add: encodable_def Let_def)
  have len: "length (pg_phaseTicks ?p) = length (pg_Phases ?p)" "length ?tps = length (pg_Phases ?p)"
    and pos: "\<forall>tk \<in> set (pg_phaseTicks ?p). 0 < unat tk"
    using enc(1) by (auto simp: compiled_def unat_gt_0)
  have "\<forall>(tk, ph) \<in> set ?tps. 0 < unat tk \<and> unat tk < 4294967296 \<and> length (ph_State ph) < 256"
    using enc(6,7) pos by (auto dest: set_zip_leftD set_zip_rightD)
  note phs = rd_phases_put [OF this, of "pg_ID ?p" 0, unfolded len]
  have "\<forall>l \<in> set ?l. slk_LinkIdx l < 65536 \<and> length (slk_LaneID l) < 256"
    using enc(8) by (auto simp: signalLinks_set)
  note lks = link_field.read_many_good [OF this, of r]
  show ?thesis
    by (simp add: rd_program_def encodeSignalProgram_def CompiledTicks_def Let_def rd_str8_good enc
        len unat_of_nat_u16 phs lks sig_program_def)
qed

lemma rd_programs_put:
  "\<forall>k \<in> set ks. encodable net k \<Longrightarrow>
   rd_programs i (length ks) (good (concat (map (encodeSignalProgram net) ks)))
   = Inr (map (sig_program net) ks, good [])"
  by (induction ks arbitrary: i) (simp_all add: rd_program_put)

lemma parse_frame:
  assumes "\<forall>k \<in> set ks. encodable net k" and "length ks < 4294967296"
  shows "ParseSignalFrame (signalFrameFrom tick (map (encodeSignalProgram net) ks))
         = Inr \<lparr>sf_Tick = tick, sf_Programs = map (sig_program net) ks\<rparr>"
proof -
  let ?f = "signalFrameFrom tick (map (encodeSignalProgram net) ks)"
  have h: "get_u32 ?f = sigFrameMagic" "get_u16 (drop 4 ?f) = sigFrameVersion"
    "get_u64 (drop 8 ?f) = tick" "unat (get_u32 (drop 16 ?f)) = length ks"
    "drop sigFrameHeader ?f = concat (map (encodeSignalProgram net) ks)"
    "(length ?f < sigFrameHeader) = False"
    using assms(2) by (simp_all add: signalFrameFrom_def sigFrameHeader_def unat_of_nat_u32)
  show ?thesis
    unfolding ParseSignalFrame_def h using rd_programs_put [OF assms(1), of 0] by simp
qed

text \<open>
  the signal table round-trips. For a network whose programs are compiled and whose names,
  counts and durations fit their wire fields, the client's strict decoder reads the published
  frame back as exactly the table: publish tick, and every program in file order with its
  offset, its phases and its links in link order.
\<close>

theorem signal_frame_roundtrip:
  assumes "\<forall>k < length (e_Signals e). encodable (e_Net e) k" and "length (e_Signals e) < 4294967296"
  shows "ParseSignalFrame (SignalFrame e) =
    Inr \<lparr>sf_Tick = e_Tick e, sf_Programs = map (sig_program (e_Net e)) [0..<length (e_Signals e)]\<rparr>"
  using assms parse_frame [of "[0..<length (e_Signals e)]"]
  by (simp add: SignalFrame_def signalProgramBodies_def)


subsection \<open>Chunks\<close>

lemma pack_chunks_concat: "concat (pack_chunks mx bs batch sz) = batch @ bs"
  by (induction bs arbitrary: batch sz) simp_all

lemma pack_chunks_nonempty: "[] \<notin> set (pack_chunks mx bs batch sz)"
  by (induction bs arbitrary: batch sz) auto

lemma pack_chunks_size:
  "sz = 24 + int (length (concat batch)) \<Longrightarrow> length batch = 1 \<or> sz \<le> mx \<or> batch = [] \<Longrightarrow>
   c \<in> set (pack_chunks mx bs batch sz) \<Longrightarrow>
   length c = 1 \<or> 24 + int (length (concat c)) \<le> mx"
proof (induction bs arbitrary: batch sz)
  case (Cons b bs)
  show ?case
  proof (cases "batch \<noteq> [] \<and> mx < sz + int (length b)")
    case True
    then show ?thesis
      using Cons.prems Cons.IH [of "int sigFrameHeader + int (length b)" "[b]"]
      by (auto simp: sigFrameHeader_def)
  next
    case False
    then have "c \<in> set (pack_chunks mx bs (batch @ [b]) (sz + int (length b)))"
      using Cons.prems(3) by (simp only: pack_chunks.simps if_False)
    then show ?thesis
      using Cons.prems(1,2) False by (intro Cons.IH [of "sz + int (length b)" "batch @ [b]"]) auto
  qed
qed (auto split: if_splits)

text \<open>Packing the bodies is packing the program numbers.\<close>

fun pack_ids :: "int \<Rightarrow> ('a \<Rightarrow> bytes) \<Rightarrow> 'a list \<Rightarrow> 'a list \<Rightarrow> int \<Rightarrow> 'a list list" where
  "pack_ids mx f [] batch sz = (if batch = [] then [] else [batch])"
| "pack_ids mx f (b # bs) batch sz =
     (if batch \<noteq> [] \<and> mx < sz + int (length (f b))
      then batch # pack_ids mx f bs [b] (int sigFrameHeader + int (length (f b)))
      else pack_ids mx f bs (batch @ [b]) (sz + int (length (f b))))"

lemma pack_ids_map: "pack_chunks mx (map f ks) (map f batch) sz = map (map f) (pack_ids mx f ks batch sz)"
proof (induction ks arbitrary: batch sz)
  case (Cons k ks)
  then show ?case using Cons.IH [of "[k]"] Cons.IH [of "batch @ [k]"] by simp
qed simp

lemma pack_ids_concat: "concat (pack_ids mx f ks batch sz) = batch @ ks"
  by (induction ks arbitrary: batch sz) simp_all

lemma length_frame: "length (signalFrameFrom tick bodies) = 24 + length (concat bodies)"
  by (simp add: signalFrameFrom_def)

text \<open>
  chunking loses and reorders nothing and keeps the size. Every chunk is a complete frame
  of the same tick, the programs of the chunks in sequence are the programs of the table in
  file order, and a chunk is longer than the limit only if it holds a single program.
\<close>

theorem chunks_lossless:
  assumes "\<forall>k < length (e_Signals e). encodable (e_Net e) k" and "length (e_Signals e) < 4294967296"
  shows "\<exists>pss. map ParseSignalFrame (signalChunksMax e mx)
                = map (\<lambda>ps. Inr \<lparr>sf_Tick = e_Tick e, sf_Programs = ps\<rparr>) pss \<and>
              concat pss = map (sig_program (e_Net e)) [0..<length (e_Signals e)] \<and> pss \<noteq> [] \<and>
              (\<forall>i < length pss. length (pss ! i) \<le> 1 \<or> int (length (signalChunksMax e mx ! i)) \<le> mx)"
proof -
  let ?n = "length (e_Signals e)" and ?f = "encodeSignalProgram (e_Net e)"
  let ?frame = "signalFrameFrom (e_Tick e)"
  define ids where "ids = pack_ids mx ?f [0..<?n] [] 24"
  define kss where "kss = (if ids = [] then [[]] else ids)"
  have chunks: "signalChunksMax e mx = map (\<lambda>ks. ?frame (map ?f ks)) kss"
    using pack_ids_map [of mx ?f "[0..<?n]" "[]" 24]
    by (simp add: signalChunksMax_def signalProgramBodies_def sigFrameHeader_def kss_def ids_def Let_def comp_def)
  have cat: "concat kss = [0..<?n]"
    using pack_ids_concat [of mx ?f "[0..<?n]" "[]" 24] by (auto simp: kss_def ids_def)
  have mem: "k < ?n" if "ks \<in> set kss" "k \<in> set ks" for ks k
    using that cat by (metis atLeastLessThan_iff atLeastLessThan_upt concat_eq_concat_iff in_set_conv_nth
        UN_I set_concat)
  have len: "length ks < 4294967296" if "ks \<in> set kss" for ks
  proof -
    have "length ks \<le> length (concat kss)"
      using that by (auto simp: length_concat intro: member_le_sum_list)
    then show ?thesis using cat assms(2) by simp
  qed
  have parse: "ParseSignalFrame (?frame (map ?f ks))
      = Inr \<lparr>sf_Tick = e_Tick e, sf_Programs = map (sig_program (e_Net e)) ks\<rparr>" if "ks \<in> set kss" for ks
    using that mem [OF that] len [OF that] assms(1) by (intro parse_frame) auto
  have size: "length ks \<le> 1 \<or> int (length (?frame (map ?f ks))) \<le> mx" if "ks \<in> set kss" for ks
  proof (cases "ids = []")
    case False
    then have "map ?f ks \<in> set (pack_chunks mx (map ?f [0..<?n]) [] 24)"
      using that pack_ids_map [of mx ?f "[0..<?n]" "[]" 24] by (simp add: kss_def ids_def)
    then show ?thesis
      using pack_chunks_size [of 24 "[]" mx "map ?f ks" "map ?f [0..<?n]"] by (auto simp: length_frame)
  qed (use that in \<open>auto simp: kss_def\<close>)
  show ?thesis
    using parse size cat
    by (intro exI [of _ "map (map (sig_program (e_Net e))) kss"])
      (auto simp: chunks map_concat [symmetric] kss_def)
qed

text \<open>
  republishing patches only the tick. Stamping a published chunk with another tick gives
  the frame that encodes the same programs at that tick.
\<close>

theorem sig_tick_patch:
  "withSigTick (signalFrameFrom t0 bodies) tick = signalFrameFrom tick bodies"
  by (simp add: withSigTick_def signalFrameFrom_def)

subsection \<open>The client sees the kernel's lights\<close>

lemma sig_program_ticks:
  assumes "encodable net k"
  shows "map (\<lambda>ph. ucast (sph_DurationTicks ph) :: u64) (spr_Phases (sig_program net k))
         = pg_phaseTicks (n_Signals net ! k)"
proof -
  let ?p = "n_Signals net ! k"
  have c: "length (pg_phaseTicks ?p) = length (pg_Phases ?p)"
    and s: "\<forall>tk \<in> set (pg_phaseTicks ?p). unat tk < 4294967296"
    using assms by (auto simp: encodable_def compiled_def Let_def)
  have "(ucast (ucast tk :: u32) :: u64) = tk" if "tk \<in> set (pg_phaseTicks ?p)" for tk
    using s that by (simp add: word_unat_eq_iff unsigned_ucast_eq unsigned_take_bit_eq
        take_bit_nat_eq_self)
  then show ?thesis
    using c by (auto simp: sig_program_def Let_def intro!: nth_equalityI)
qed

lemma sf_PhaseAt_kernel:
  assumes "encodable net k"
  shows "sf_PhaseAt (sig_program net k) tick = phaseAt (n_Signals net ! k) tick"
proof -
  let ?p = "n_Signals net ! k"
  have comp: "compiled ?p" using assms by (simp add: encodable_def Let_def)
  have "unat (sum_list (pg_phaseTicks ?p)) = unat (pg_cycle ?p)"
    using comp by (subst unat_sum_list) (auto simp: compiled_def)
  then have cyc: "sum_list (pg_phaseTicks ?p) = pg_cycle ?p" by (simp add: word_unat_eq_iff)
  have nz: "pg_cycle ?p \<noteq> 0" using compiled_pos [OF comp] by auto
  have off: "spr_OffsetTicks (sig_program net k) = pg_offsetTicks ?p"
    and lp: "length (spr_Phases (sig_program net k)) = length (pg_phaseTicks ?p)"
    using comp by (simp_all add: sig_program_def Let_def compiled_def)
  show ?thesis
    by (simp add: sf_PhaseAt_def sig_program_ticks [OF assms] Let_def cyc nz off lp phaseAt_def
        phaseAtElapsed_def split: option.split)
qed

definition uncommanded :: "Engine \<Rightarrow> SignalProgram \<Rightarrow> u64 \<Rightarrow> bool" where
  "uncommanded e p tick \<longleftrightarrow> \<not> list_ex (\<lambda>ov. ov_covers ov tick) (ov_hist (e_sigOv e) (pg_ID p))"

lemma uncommanded_phase: "uncommanded e p tick \<Longrightarrow> fst (sigPhaseAt e p tick) = phaseAt p tick"
  by (auto simp: uncommanded_def sigPhaseAt_def phaseAt_def list_ex_iff find_Some_iff split: option.split)
    (metis in_set_conv_nth length_rev set_rev)

lemma sf_StateAt_kernel:
  assumes "encodable (e_Net e) k" and "uncommanded e (e_Signals e ! k) (e_Tick e)" and "l_Signal l = Some k"
  shows "sigState e l = (case sf_StateAt (sig_program (e_Net e) k) (e_Tick e) (int (l_LinkIdx l)) of
            None \<Rightarrow> SigOff | Some c \<Rightarrow> mapSigChar c)"
proof -
  let ?p = "e_Signals e ! k"
  have comp: "compiled ?p" using assms(1) by (simp add: encodable_def Let_def)
  have ph: "fst (sigPhaseAt e ?p (e_Tick e)) = phaseAt ?p (e_Tick e)" using uncommanded_phase [OF assms(2)] .
  obtain i el where i: "phaseAtElapsed ?p (e_Tick e) = (int i, el)" "i < length (pg_phaseTicks ?p)"
    using phaseAtElapsed_spec [OF comp] by metis
  then have pi: "phaseAt ?p (e_Tick e) = int i" by (simp add: phaseAt_def)
  have st: "sph_State (spr_Phases (sig_program (e_Net e) k) ! i) = ph_State (pg_Phases ?p ! i)"
    and ne: "spr_Phases (sig_program (e_Net e) k) \<noteq> []" "pg_phaseTicks ?p \<noteq> []"
    using comp i(2) by (auto simp: sig_program_def Let_def compiled_def zip_eq_Nil_iff)
  show ?thesis
    using assms(3) ph sf_PhaseAt_kernel [OF assms(1)]
    by (simp add: sigState_def sf_StateAt_def Let_def ne pi st phase_state_def not_less)
qed

text \<open>
  C27: a client derives the lights of the kernel from the published bytes. For a network whose
  programs are compiled and whose names, counts and durations fit their wire fields, the strict
  decoder accepts the frame the kernel publishes and returns one program per program of the network,
  under the same id. From the decoded program the client computes the phase the kernel enforces at
  every tick that no held command covers, and, when none covers the current tick, for every lane
  bound to the program the light the kernel enforces on it (none where the kernel finds none).
\<close>

theorem client_derives_kernel:
  assumes "\<forall>k < length (e_Signals e). encodable (e_Net e) k" and "length (e_Signals e) < 4294967296"
  shows "\<exists>f. ParseSignalFrame (SignalFrame e) = Inr f \<and> sf_Tick f = e_Tick e \<and>
    length (sf_Programs f) = length (e_Signals e) \<and>
    (\<forall>k < length (e_Signals e). spr_ID (sf_Programs f ! k) = pg_ID (e_Signals e ! k) \<and>
       (\<forall>t. uncommanded e (e_Signals e ! k) t \<longrightarrow>
          sf_PhaseAt (sf_Programs f ! k) t = fst (sigPhaseAt e (e_Signals e ! k) t)) \<and>
       (\<forall>l. l_Signal l = Some k \<and> uncommanded e (e_Signals e ! k) (e_Tick e) \<longrightarrow>
          sigState e l = (case sf_StateAt (sf_Programs f ! k) (e_Tick e) (int (l_LinkIdx l)) of
            None \<Rightarrow> SigOff | Some c \<Rightarrow> mapSigChar c)))"
proof -
  let ?f = "\<lparr>sf_Tick = e_Tick e, sf_Programs = map (sig_program (e_Net e)) [0..<length (e_Signals e)]\<rparr>"
  have "ParseSignalFrame (SignalFrame e) = Inr ?f"
    using assms parse_frame [of "[0..<length (e_Signals e)]"] by (simp add: SignalFrame_def signalProgramBodies_def)
  moreover have "spr_ID (sig_program (e_Net e) k) = pg_ID (e_Signals e ! k)" for k
    by (simp add: sig_program_def Let_def split: prod.split)
  ultimately show ?thesis
    using assms(1) sf_PhaseAt_kernel uncommanded_phase sf_StateAt_kernel by (intro exI [of _ ?f]) simp
qed


subsection \<open>Witnesses\<close>

definition demo_plain :: Engine where "demo_plain = demo_engine\<lparr>e_sigOv := []\<rparr>"

lemma demo_encodable: "encodable (e_Net demo_engine) 0"
proof -
  have "n_Signals (e_Net demo_engine) ! 0 = demo_compiled"
    and l: "n_Lanes (e_Net demo_engine) = [demo_lane]"
    by (simp_all add: demo_engine_def demo_net_def)
  moreover have "length (signalLinks (e_Net demo_engine) 0) = 1"
    by (simp add: signalLinks_def l demo_lane_def)
  ultimately show ?thesis
    using demo_compiled_ok
    by (simp add: encodable_def Let_def)
      (simp add: demo_compiled_def demo_program_def demo_phases_def demo_lane_def)
qed


lemma demo_table: "length (e_Signals demo_engine) = 1" "e_Tick demo_engine = 25"
  by (simp_all add: demo_engine_def demo_net_def)

lemma signal_frame_roundtrip_witness:
  "ParseSignalFrame (SignalFrame demo_engine)
   = Inr \<lparr>sf_Tick = 25, sf_Programs = [sig_program (e_Net demo_engine) 0]\<rparr>"
  using signal_frame_roundtrip [of demo_engine] demo_encodable by (simp add: demo_table)

lemma chunks_lossless_witness:
  "\<exists>pss. map ParseSignalFrame (signalChunksMax demo_engine 10)
         = map (\<lambda>ps. Inr \<lparr>sf_Tick = 25, sf_Programs = ps\<rparr>) pss \<and>
     concat pss = [sig_program (e_Net demo_engine) 0]"
  using chunks_lossless [of demo_engine 10] demo_encodable by (auto simp: demo_table)

lemma client_derives_kernel_witness:
  "\<exists>f. ParseSignalFrame (SignalFrame demo_plain) = Inr f \<and> sf_PhaseAt (sf_Programs f ! 0) 301 = 1 \<and>
     (case sf_StateAt (sf_Programs f ! 0) 25 0 of None \<Rightarrow> SigOff | Some c \<Rightarrow> mapSigChar c) = SigGreen"
proof -
  have n: "e_Net demo_plain = e_Net demo_engine" "e_Signals demo_engine ! 0 = demo_compiled" "e_Tick demo_plain = 25"
    by (simp_all add: demo_plain_def demo_engine_def demo_net_def)
  have u: "uncommanded demo_plain demo_compiled t" for t
    by (simp add: uncommanded_def demo_plain_def ov_hist_def)
  obtain f where f: "ParseSignalFrame (SignalFrame demo_plain) = Inr f"
    "sf_PhaseAt (sf_Programs f ! 0) 301 = fst (sigPhaseAt demo_plain demo_compiled 301)"
    "sigState demo_plain demo_lane = (case sf_StateAt (sf_Programs f ! 0) 25 0 of None \<Rightarrow> SigOff | Some c \<Rightarrow> mapSigChar c)"
    using client_derives_kernel [of demo_plain] demo_encodable u n demo_table by (auto simp: demo_lane_def)
  have "fst (sigPhaseAt demo_plain demo_compiled 301) = 1" "sigState demo_plain demo_lane = SigGreen" by code_simp+
  then show ?thesis using f by auto
qed

end
