(* ===== verification/IntentBus.thy ===== *)
theory IntentBus
  imports IntentCodec SigFrame
begin

text \<open>
  \<open>engine/natsio/bus.go\<close>: the live-plane endpoint of a run. The subscription callback
  \<open>onIntent\<close> only decodes and buffers; the run loop drains the buffer between ticks; the signal
  table is encoded into chunks once and republished with the tick patched; the applied-tick echo
  keeps one entry per controller. The NATS connection is outside the repository: \<open>pub\<close> says
  whether it accepts a message, and \<open>bs_out\<close> records what the bus hands to it. A JSON body is
  the record it encodes. Log lines are left out.
\<close>

subsection \<open>Messages\<close>

datatype payload = Raw bytes | Ack_json string u64

record Msg =
  ms_Subject :: string
  ms_Reply :: string
  ms_Header :: "(string \<times> string list) list"
  ms_Data :: payload

text \<open>A delivered message: its body is bytes.\<close>

record InMsg =
  im_Subject :: string
  im_Reply :: string
  im_Header :: "(string \<times> string list) list"
  im_Data :: bytes

text \<open>\<open>strings.Split(s, sep)\<close> for a one-byte separator, and the decimal form of a number.\<close>

fun split_on :: "char \<Rightarrow> string \<Rightarrow> string list" where
  "split_on c [] = [[]]"
| "split_on c (x # xs) =
     (if x = c then [] # split_on c xs
      else case split_on c xs of [] \<Rightarrow> [[x]] | t # ts \<Rightarrow> (x # t) # ts)"

lemma split_on_nonempty [simp]: "split_on c s \<noteq> []"
  by (induction s) (auto split: list.splits)

lemma split_on_append:
  "c \<notin> set s \<Longrightarrow> split_on c (s @ c # t) = s # split_on c t"
  by (induction s) (auto split: list.splits)

lemma split_on_last: "c \<notin> set s \<Longrightarrow> split_on c s = [s]"
  by (induction s) (auto split: list.splits)

fun dec_string :: "nat \<Rightarrow> string" where
  "dec_string n = (if n < 10 then [char_of (48 + n)] else dec_string (n div 10) @ [char_of (48 + n mod 10)])"

declare dec_string.simps [simp del]

definition SchemaVersion :: nat where "SchemaVersion = 2"
definition headerTick :: string where "headerTick = ''tick''"
definition headerSchemaVersion :: string where "headerSchemaVersion = ''schema_version''"
definition headerAppliedTick :: string where "headerAppliedTick = ''applied_tick''"
definition headerSigChunk :: string where "headerSigChunk = ''sig_chunk''"
definition headerIntentEncoding :: string where "headerIntentEncoding = ''intent_encoding''"
definition intentEncodingV2 :: string where "intentEncodingV2 = ''v2''"
definition intentEncodingTSIB :: string where "intentEncodingTSIB = ''tsib''"
definition intentSubjectTokens :: nat where "intentSubjectTokens = 5"
definition sigMaxPayload :: int where "sigMaxPayload = 4194304"

lemmas bus_const_defs = headerTick_def headerSchemaVersion_def headerAppliedTick_def headerSigChunk_def
  headerIntentEncoding_def intentEncodingV2_def intentEncodingTSIB_def intentSubjectTokens_def

definition SubjectStateSig :: "string \<Rightarrow> string" where "SubjectStateSig run = ''ts.'' @ run @ ''.state.sig''"
definition SubjectCtlIntent :: "string \<Rightarrow> string \<Rightarrow> string" where
  "SubjectCtlIntent run ctl = ''ts.'' @ run @ ''.ctl.intent.'' @ ctl"
definition SubjectCtlAck :: "string \<Rightarrow> string \<Rightarrow> string" where
  "SubjectCtlAck run ctl = ''ts.'' @ run @ ''.ctl.ack.'' @ ctl"

text \<open>\<open>validToken\<close>: one non-empty NATS token.\<close>

definition token_char :: "char \<Rightarrow> bool" where
  "token_char c \<longleftrightarrow> (CHR ''a'' \<le> c \<and> c \<le> CHR ''z'') \<or> (CHR ''A'' \<le> c \<and> c \<le> CHR ''Z'') \<or>
     (CHR ''0'' \<le> c \<and> c \<le> CHR ''9'') \<or> c = CHR ''-'' \<or> c = CHR ''_''"

definition validToken :: "string \<Rightarrow> bool" where
  "validToken s \<longleftrightarrow> s \<noteq> [] \<and> list_all token_char s"

subsection \<open>The bus\<close>

record ArrivedIntent =
  ar_Controller :: string
  ar_Intent :: Intent

record Bus =
  bs_run :: string
  bs_sigChunks :: "bytes list"
  bs_sigTick :: u64
  bs_buf :: "ArrivedIntent list"
  bs_lastAppl :: "(string \<times> u64) list"
  bs_dropped :: u64
  bs_pubErrs :: u64
  bs_sigErrs :: u64
  bs_intentBatches :: u64
  bs_intentRecords :: u64
  bs_intentBatchDropped :: u64
  bs_intentRecordDropped :: u64
  bs_intentEncodingUnknown :: u64
  bs_out :: "Msg list"

datatype bus_error = Bad_token string | Chunk_too_large nat nat

definition newPublishBus :: "string \<Rightarrow> Engine \<Rightarrow> bus_error + Bus" where
  "newPublishBus run e =
     (if \<not> validToken run then Inl (Bad_token run)
      else let chunks = SignalChunks e in
        case find_index (\<lambda>c. sigMaxPayload < int (length c) + 256) chunks of
          Some i \<Rightarrow> Inl (Chunk_too_large (Suc i) (length (chunks ! i)))
        | None \<Rightarrow> Inr \<lparr>bs_run = run, bs_sigChunks = chunks, bs_sigTick = e_Tick e, bs_buf = [],
            bs_lastAppl = [], bs_dropped = 0, bs_pubErrs = 0, bs_sigErrs = 0, bs_intentBatches = 0,
            bs_intentRecords = 0, bs_intentBatchDropped = 0, bs_intentRecordDropped = 0,
            bs_intentEncodingUnknown = 0, bs_out = []\<rparr>)"

definition bufferV2Intent :: "string \<Rightarrow> bytes \<Rightarrow> Bus \<Rightarrow> Bus" where
  "bufferV2Intent ctl data b =
     (case DecodeIntent data of
        None \<Rightarrow> b\<lparr>bs_dropped := bs_dropped b + 1\<rparr>
      | Some it \<Rightarrow> b\<lparr>bs_buf := bs_buf b @ [\<lparr>ar_Controller = ctl, ar_Intent = it\<rparr>]\<rparr>)"

definition onIntent :: "InMsg \<Rightarrow> Bus \<Rightarrow> Bus" where
  "onIntent msg b =
     (let tokens = split_on (CHR ''.'') (im_Subject msg); data = im_Data msg; ctl = tokens ! 4 in
      if length tokens \<noteq> intentSubjectTokens then b\<lparr>bs_dropped := bs_dropped b + 1\<rparr>
      else if im_Header msg = [] then bufferV2Intent ctl data b
      else case map_of (im_Header msg) headerIntentEncoding of
        None \<Rightarrow> bufferV2Intent ctl data b
      | Some vals \<Rightarrow>
          (let enc = (if vals = [] then [] else hd vals) in
           if enc = intentEncodingV2 then bufferV2Intent ctl data b
           else if enc = intentEncodingTSIB then
             (case DecodeTSIB data of
                None \<Rightarrow> b\<lparr>bs_intentBatchDropped := bs_intentBatchDropped b + 1\<rparr>
              | Some (its, drops) \<Rightarrow> b\<lparr>bs_intentBatches := bs_intentBatches b + 1,
                  bs_intentRecords := bs_intentRecords b + word_of_nat (length its),
                  bs_intentRecordDropped := bs_intentRecordDropped b + word_of_nat drops,
                  bs_buf := bs_buf b @ map (\<lambda>it. \<lparr>ar_Controller = ctl, ar_Intent = it\<rparr>) its\<rparr>)
           else b\<lparr>bs_intentEncodingUnknown := bs_intentEncodingUnknown b + 1\<rparr>))"

definition bus_DrainIntents :: "Bus \<Rightarrow> ArrivedIntent list \<times> Bus" where
  "bus_DrainIntents b = (bs_buf b, b\<lparr>bs_buf := []\<rparr>)"

subsection \<open>Publishing\<close>

fun publish_sigs :: "(Msg \<Rightarrow> bool) \<Rightarrow> Msg list \<Rightarrow> Bus \<Rightarrow> Bus" where
  "publish_sigs pub [] b = b"
| "publish_sigs pub (m # ms) b =
     publish_sigs pub ms
       (if pub m then b\<lparr>bs_out := bs_out b @ [m]\<rparr>
        else b\<lparr>bs_out := bs_out b @ [m], bs_pubErrs := bs_pubErrs b + 1, bs_sigErrs := bs_sigErrs b + 1\<rparr>)"

definition sig_messages :: "string \<Rightarrow> bytes list \<Rightarrow> u64 \<Rightarrow> Msg list" where
  "sig_messages subject chunks tick =
     map (\<lambda>i. \<lparr>ms_Subject = subject, ms_Reply = [],
        ms_Header = [(headerTick, [dec_string (unat tick)]), (headerSchemaVersion, [dec_string SchemaVersion])] @
          (if 1 < length chunks
           then [(headerSigChunk, [dec_string (Suc i) @ ''/'' @ dec_string (length chunks)])] else []),
        ms_Data = Raw (withSigTick (chunks ! i) tick)\<rparr>) [0..<length chunks]"

definition PublishSignals :: "(Msg \<Rightarrow> bool) \<Rightarrow> Engine \<Rightarrow> Bus \<Rightarrow> Bus" where
  "PublishSignals pub e b =
     (publish_sigs pub (sig_messages (SubjectStateSig (bs_run b)) (bs_sigChunks b) (e_Tick e)) b)
       \<lparr>bs_sigTick := e_Tick e\<rparr>"

definition inbox_prefix :: string where "inbox_prefix = ''_INBOX.''"

text \<open>\<open>flushed\<close> is the outcome of the connection's \<open>Flush\<close>.\<close>

definition onSignalRequest :: "(Msg \<Rightarrow> bool) \<Rightarrow> bool \<Rightarrow> InMsg \<Rightarrow> Bus \<Rightarrow> Bus" where
  "onSignalRequest pub flushed msg b =
     (if im_Reply msg = [] then b
      else if take (length inbox_prefix) (im_Reply msg) \<noteq> inbox_prefix then b
      else if im_Data msg \<noteq> [] then b
      else let b' = publish_sigs pub (sig_messages (im_Reply msg) (bs_sigChunks b) (bs_sigTick b)) b in
        if flushed then b' else b'\<lparr>bs_pubErrs := bs_pubErrs b' + 1, bs_sigErrs := bs_sigErrs b' + 1\<rparr>)"

fun note_applied :: "u64 \<Rightarrow> TickedIntent list \<Rightarrow> (string \<times> u64) list \<Rightarrow> (string \<times> u64) list" where
  "note_applied tick [] t = t"
| "note_applied tick (k # ks) t =
     note_applied tick ks
       (if ti_Superseded k then t else AList.update (ki_Controller (ti_Keyed k)) tick t)"

definition ack_message :: "string \<Rightarrow> u64 \<Rightarrow> string \<times> u64 \<Rightarrow> Msg" where
  "ack_message run tick ct =
     \<lparr>ms_Subject = SubjectCtlAck run (fst ct), ms_Reply = [],
      ms_Header = [(headerTick, [dec_string (unat tick)]), (headerAppliedTick, [dec_string (unat (snd ct))]),
        (headerSchemaVersion, [dec_string SchemaVersion])],
      ms_Data = Ack_json (fst ct) (snd ct)\<rparr>"

fun publish_acks :: "(Msg \<Rightarrow> bool) \<Rightarrow> Msg list \<Rightarrow> Bus \<Rightarrow> Bus" where
  "publish_acks pub [] b = b"
| "publish_acks pub (m # ms) b =
     publish_acks pub ms
       (if pub m then b\<lparr>bs_out := bs_out b @ [m]\<rparr>
        else b\<lparr>bs_out := bs_out b @ [m], bs_pubErrs := bs_pubErrs b + 1\<rparr>)"

definition PublishAcks :: "(Msg \<Rightarrow> bool) \<Rightarrow> TickedIntent list \<Rightarrow> u64 \<Rightarrow> Bus \<Rightarrow> Bus" where
  "PublishAcks pub applied tick b =
     (let t = note_applied tick applied (bs_lastAppl b); b1 = b\<lparr>bs_lastAppl := t\<rparr> in
      if t = [] then b1
      else publish_acks pub
        (map (\<lambda>c. ack_message (bs_run b) tick (c, the (map_of t c))) (sort (map fst t))) b1)"

definition NewTSIBMsg :: "string \<Rightarrow> u64 \<Rightarrow> Intent list \<Rightarrow> InMsg option" where
  "NewTSIBMsg subject tick ints =
     map_option (\<lambda>buf. \<lparr>im_Subject = subject, im_Reply = [],
       im_Header = [(headerIntentEncoding, [intentEncodingTSIB])], im_Data = buf\<rparr>) (EncodeTSIB tick ints)"

subsection \<open>Delivery\<close>

text \<open>What one message contributes, or \<open>None\<close> when it is refused.\<close>

definition encoding :: "InMsg \<Rightarrow> string" where
  "encoding m = (case map_of (im_Header m) headerIntentEncoding of
     None \<Rightarrow> intentEncodingV2 | Some [] \<Rightarrow> [] | Some (v # _) \<Rightarrow> v)"

definition expansion :: "InMsg \<Rightarrow> ArrivedIntent list option" where
  "expansion m =
     (case split_on (CHR ''.'') (im_Subject m) of
        [_, _, _, _, ctl] \<Rightarrow> map_option (map (\<lambda>it. \<lparr>ar_Controller = ctl, ar_Intent = it\<rparr>))
          (if encoding m = intentEncodingV2 then map_option (\<lambda>it. [it]) (DecodeIntent (im_Data m))
           else if encoding m = intentEncodingTSIB then map_option fst (DecodeTSIB (im_Data m))
           else None)
      | _ \<Rightarrow> None)"

definition arrivals :: "InMsg list \<Rightarrow> ArrivedIntent list" where
  "arrivals ms = concat (map (\<lambda>m. case expansion m of None \<Rightarrow> [] | Some as \<Rightarrow> as) ms)"

definition refusals :: "Bus \<Rightarrow> u64" where
  "refusals b = bs_dropped b + bs_intentBatchDropped b + bs_intentEncodingUnknown b"

lemma five_tokens: "length ts = 5 \<longleftrightarrow> (\<exists>a b c d e. ts = [a, b, c, d, e])"
  by (auto simp: length_Suc_conv eval_nat_numeral)

lemma onIntent_expansion:
  "bs_buf (onIntent m b) = bs_buf b @ (case expansion m of None \<Rightarrow> [] | Some as \<Rightarrow> as)"
  "refusals (onIntent m b) = refusals b + (if expansion m = None then 1 else 0)"
proof -
  let ?ts = "split_on (CHR ''.'') (im_Subject m)"
  show "bs_buf (onIntent m b) = bs_buf b @ (case expansion m of None \<Rightarrow> [] | Some as \<Rightarrow> as)"
  proof (cases "length ?ts = 5")
    case True
    then obtain a b' c d ctl where ts: "?ts = [a, b', c, d, ctl]" unfolding five_tokens by blast
    show ?thesis
      by (auto simp: onIntent_def expansion_def ts bufferV2Intent_def encoding_def intentSubjectTokens_def
          Let_def eval_nat_numeral neq_Nil_conv split: option.splits list.splits)
  next
    case False
    then have "expansion m = None" by (auto simp: expansion_def split: list.splits)
    then show ?thesis using False by (simp add: onIntent_def intentSubjectTokens_def)
  qed
  show "refusals (onIntent m b) = refusals b + (if expansion m = None then 1 else 0)"
  proof (cases "length ?ts = 5")
    case True
    then obtain a b' c d ctl where ts: "?ts = [a, b', c, d, ctl]" unfolding five_tokens by blast
    show ?thesis
      by (auto simp: onIntent_def expansion_def ts bufferV2Intent_def encoding_def intentSubjectTokens_def
          Let_def eval_nat_numeral refusals_def neq_Nil_conv split: option.splits list.splits)
  next
    case False
    then have "expansion m = None" by (auto simp: expansion_def split: list.splits)
    then show ?thesis using False by (simp add: onIntent_def intentSubjectTokens_def refusals_def)
  qed
qed

lemma fold_onIntent:
  "bs_buf (fold onIntent ms b) = bs_buf b @ arrivals ms"
  "refusals (fold onIntent ms b) = refusals b + word_of_nat (length (filter (\<lambda>m. expansion m = None) ms))"
  by (induction ms arbitrary: b) (simp_all add: onIntent_expansion arrivals_def)


lemma subject_tokens:
  assumes "CHR ''.'' \<notin> set run" and "CHR ''.'' \<notin> set ctl"
  shows "split_on (CHR ''.'') (SubjectCtlIntent run ctl) = [''ts'', run, ''ctl'', ''intent'', ctl]"
proof -
  have "SubjectCtlIntent run ctl
      = ''ts'' @ CHR ''.'' # (run @ CHR ''.'' # (''ctl'' @ CHR ''.'' # (''intent'' @ CHR ''.'' # ctl)))"
    by (simp add: SubjectCtlIntent_def)
  moreover have "CHR ''.'' \<notin> set ''ts''" "CHR ''.'' \<notin> set ''ctl''" "CHR ''.'' \<notin> set ''intent''"
    by simp_all
  ultimately show ?thesis
    by (simp only: split_on_append [OF assms(1)] split_on_append split_on_last [OF assms(2)] not_False_eq_True)
qed

definition tagged :: "string \<Rightarrow> Intent list \<Rightarrow> ArrivedIntent list" where
  "tagged ctl its = map (\<lambda>it. \<lparr>ar_Controller = ctl, ar_Intent = it\<rparr>) its"

text \<open>What a batch sender may count on: its route-free, finite intents in wire form.\<close>

definition surviving :: "Intent list \<Rightarrow> Intent list" where
  "surviving ints = map wire_form (filter finite_axes (filter (\<lambda>it. \<not> in_RouteSet it) ints))"

lemma expansion_tsib:
  assumes "NewTSIBMsg (SubjectCtlIntent run ctl) tick ints = Some m"
    and "CHR ''.'' \<notin> set run" and "CHR ''.'' \<notin> set ctl" and "\<forall>it \<in> set ints. intent_ok it"
  shows "expansion m = Some (tagged ctl (surviving ints))"
proof -
  obtain buf where b: "EncodeTSIB tick ints = Some buf"
    and m: "m = \<lparr>im_Subject = SubjectCtlIntent run ctl, im_Reply = [],
       im_Header = [(headerIntentEncoding, [intentEncodingTSIB])], im_Data = buf\<rparr>"
    using assms(1) by (auto simp: NewTSIBMsg_def)
  have "intentEncodingTSIB \<noteq> intentEncodingV2" by (simp add: intentEncodingTSIB_def intentEncodingV2_def)
  then show ?thesis
    by (simp add: expansion_def m subject_tokens [OF assms(2,3)] encoding_def tsib_decodes [OF b assms(4)]
        tagged_def surviving_def)
qed

text \<open>
  Intent delivery is lossless and ordered. After any sequence of delivered messages the next
  drain returns what was buffered followed by the expansion of every accepted message, in arrival
  order, tagged with the controller its subject names; a batch contributes all its surviving
  records in record order or nothing. Every refused message is counted by exactly one of the
  three refusal counters, and nothing else is.
\<close>

theorem bus_delivery:
  "fst (bus_DrainIntents (fold onIntent ms b)) = bs_buf b @ arrivals ms \<and>
   bs_buf (snd (bus_DrainIntents (fold onIntent ms b))) = [] \<and>
   refusals (fold onIntent ms b)
     = refusals b + word_of_nat (length (filter (\<lambda>m. expansion m = None) ms))"
  by (simp add: bus_DrainIntents_def fold_onIntent)

text \<open>
  C34: The batched intent path end to end: when controllers send TSIB batches built by
  \<open>NewTSIBMsg\<close> on their own subjects, the drain returns, batch after batch, exactly the
  route-free finite intents each of them sent, in order and under the sender's identity.
\<close>

theorem tsib_delivered:
  assumes "list_all (\<lambda>(ctl, ints). CHR ''.'' \<notin> set ctl \<and> list_all intent_ok ints) sends"
    and "CHR ''.'' \<notin> set run" and "bs_buf b = []"
    and "map (\<lambda>(ctl, ints). NewTSIBMsg (SubjectCtlIntent run ctl) tick ints) sends = map Some ms"
  shows "fst (bus_DrainIntents (fold onIntent ms b))
    = concat (map (\<lambda>(ctl, ints). tagged ctl (surviving ints)) sends)"
proof -
  have "arrivals ms = concat (map (\<lambda>(ctl, ints). tagged ctl (surviving ints)) sends)"
    using assms(1,4)
  proof (induction sends arbitrary: ms)
    case (Cons s sends)
    obtain ctl ints where s: "s = (ctl, ints)" by (cases s)
    with Cons.prems(2) obtain m ms' where ms: "ms = m # ms'" by (cases ms) auto
    have "expansion m = Some (tagged ctl (surviving ints))"
      using Cons.prems by (intro expansion_tsib [OF _ assms(2)]) (auto simp: s ms list_all_iff)
    then show ?case using Cons.IH [of ms'] Cons.prems by (simp add: s ms arrivals_def)
  qed (simp add: arrivals_def)
  then show ?thesis using assms(3) by (simp add: bus_DrainIntents_def fold_onIntent)
qed

subsection \<open>The applied-tick echo\<close>

lemma note_applied_map:
  "map_of (note_applied tick ks t) c =
     (if \<exists>k \<in> set ks. \<not> ti_Superseded k \<and> ki_Controller (ti_Keyed k) = c then Some tick else map_of t c)"
  by (induction ks arbitrary: t) (auto simp: update_conv')

lemma note_applied_distinct: "distinct (map fst t) \<Longrightarrow> distinct (map fst (note_applied tick ks t))"
  by (induction ks arbitrary: t) (auto simp: distinct_update)

lemma publish_acks_out:
  "bs_out (publish_acks pub ms b) = bs_out b @ ms" "bs_lastAppl (publish_acks pub ms b) = bs_lastAppl b"
  by (induction ms arbitrary: b) simp_all

lemma PublishAcks_out:
  "bs_out (PublishAcks pub applied tick b) = bs_out b @
     map (\<lambda>c. ack_message (bs_run b) tick (c, the (map_of (note_applied tick applied (bs_lastAppl b)) c)))
       (sort (map fst (note_applied tick applied (bs_lastAppl b))))"
  "bs_lastAppl (PublishAcks pub applied tick b) = note_applied tick applied (bs_lastAppl b)"
  by (simp_all add: PublishAcks_def publish_acks_out Let_def)

text \<open>
  The acknowledgement echo. After a boundary the echo of a controller is this tick exactly
  when one of its intents took effect, and its previous value otherwise: a superseded intent does
  not refresh it. One message per controller that ever had an intent applied is published, in
  controller order, carrying that controller's latest applied tick.
\<close>

theorem acks_latest:
  assumes "distinct (map fst (bs_lastAppl b))"
  shows "map_of (bs_lastAppl (PublishAcks pub applied tick b)) c =
      (if list_ex (\<lambda>k. \<not> ti_Superseded k \<and> ki_Controller (ti_Keyed k) = c) applied
       then Some tick else map_of (bs_lastAppl b) c) \<and>
    (\<exists>cs. sorted cs \<and> distinct cs \<and>
      set cs = set (map fst (bs_lastAppl (PublishAcks pub applied tick b))) \<and>
      bs_out (PublishAcks pub applied tick b) = bs_out b @
        map (\<lambda>c. ack_message (bs_run b) tick
          (c, the (map_of (bs_lastAppl (PublishAcks pub applied tick b)) c))) cs)"
proof (rule conjI)
  let ?t = "note_applied tick applied (bs_lastAppl b)"
  show "map_of (bs_lastAppl (PublishAcks pub applied tick b)) c =
      (if list_ex (\<lambda>k. \<not> ti_Superseded k \<and> ki_Controller (ti_Keyed k) = c) applied
       then Some tick else map_of (bs_lastAppl b) c)"
    by (simp add: PublishAcks_out note_applied_map list_ex_iff)
  have "sorted (sort (map fst ?t)) \<and> distinct (sort (map fst ?t)) \<and> set (sort (map fst ?t)) = set (map fst ?t)"
    using note_applied_distinct [OF assms] by (simp only: sorted_sort distinct_sort set_sort simp_thms)
  then show "\<exists>cs. sorted cs \<and> distinct cs \<and>
      set cs = set (map fst (bs_lastAppl (PublishAcks pub applied tick b))) \<and>
      bs_out (PublishAcks pub applied tick b) = bs_out b @
        map (\<lambda>c. ack_message (bs_run b) tick
          (c, the (map_of (bs_lastAppl (PublishAcks pub applied tick b)) c))) cs"
    unfolding PublishAcks_out by (intro exI [of _ "sort (map fst ?t)"]) simp
qed

subsection \<open>Witnesses\<close>

definition demo_bus :: Bus where
  "demo_bus = \<lparr>bs_run = ''r1'', bs_sigChunks = [], bs_sigTick = 0, bs_buf = [],
     bs_lastAppl = [(''ctl-9'', 4)], bs_dropped = 0, bs_pubErrs = 0, bs_sigErrs = 0, bs_intentBatches = 0,
     bs_intentRecords = 0, bs_intentBatchDropped = 0, bs_intentRecordDropped = 0,
     bs_intentEncodingUnknown = 0, bs_out = []\<rparr>"

definition demo_send :: InMsg where
  "demo_send = the (NewTSIBMsg (SubjectCtlIntent ''r1'' ''ctl-1'') 9 [plain_intent 3])"

lemma demo_send_sent:
  "map (\<lambda>(ctl, ints). NewTSIBMsg (SubjectCtlIntent ''r1'' ctl) 9 ints) [(''ctl-1'', [plain_intent 3])]
   = map Some [demo_send]"
  by (simp add: demo_send_def NewTSIBMsg_def EncodeTSIB_def TSIBMaxRecords_def plain_intent_def demo_intent_def Let_def)

lemma tsib_delivered_witness:
  "fst (bus_DrainIntents (onIntent demo_send demo_bus)) = tagged ''ctl-1'' (surviving [plain_intent 3])"
proof -
  have "list_all (\<lambda>(ctl, ints). CHR ''.'' \<notin> set ctl \<and> list_all intent_ok ints) [(''ctl-1'', [plain_intent 3])]"
    using demo_batch_ok(1) by simp
  from tsib_delivered [OF this _ _ demo_send_sent, of demo_bus] show ?thesis by (simp add: demo_bus_def)
qed

lemma acks_latest_witness:
  "map_of (bs_lastAppl (PublishAcks (\<lambda>_. True) [demo_ticked 9] 9 demo_bus)) ''ctl-9'' = Some 4"
proof -
  have "distinct (map fst (bs_lastAppl demo_bus))" by (simp add: demo_bus_def)
  from acks_latest [OF this, of "\<lambda>_. True" "[demo_ticked 9]" 9 "''ctl-9''"] show ?thesis
    by (simp add: demo_bus_def demo_ticked_def demo_keyed_def)
qed

end
