(* ===== verification/SigCtl.thy ===== *)
theory SigCtl
  imports SigDisplay
begin

text \<open>
  \<open>engine/sigctl.go\<close>: the kernel side of the \<open>signal_set\<close> verb. A verb is validated and
  buffered (\<open>EnqueueSignal\<close>), then installed at the next tick boundary and swept when it has
  ended (\<open>stepSignalOverrides\<close>). A per-program history keeps ended holds for the clearance
  window; a chain of same-phase renewals shares one \<open>chainStart\<close>, and its end is clamped to
  \<open>chainStart + bound\<close>.

  Go writes the outgoing entry's \<open>until\<close> through the slice, so the table sees the truncation
  even when the new verb is declined: \<open>supersede\<close> returns both the history the table now
  holds and the shortened one the new entry is appended to.
\<close>

subsection \<open>Operations\<close>

definition MaxRequestIDBytes :: int where "MaxRequestIDBytes = 65535"

definition SignalHoldMaxSeconds :: f64 where "SignalHoldMaxSeconds = f64_lit 300 1"

definition signalHoldMaxTicks :: "Engine \<Rightarrow> u64" where
  "signalHoldMaxTicks e =
     (let dt = p_Dt (e_Params e); dt = (if fle dt 0 then f64_lit 1 10 else dt) in
      max 1 (to_ticks SignalHoldMaxSeconds dt))"

datatype sigctl_error =
    Request_id_too_long nat
  | Unknown_signal string
  | Phase_out_of_range string int
  | Duplicate_buffered string
  | Duplicate_live string

definition EnqueueSignal :: "SignalDirective \<Rightarrow> Engine \<Rightarrow> sigctl_error + Engine" where
  "EnqueueSignal d e =
     (if MaxRequestIDBytes < int (length (sg_RequestID d))
      then Inl (Request_id_too_long (length (sg_RequestID d)))
      else case find_index (\<lambda>p. pg_ID p = sg_Signal d) (e_Signals e) of
        None \<Rightarrow> Inl (Unknown_signal (sg_Signal d))
      | Some idx \<Rightarrow>
          (let p = e_Signals e ! idx in
           if sg_Phase d < 0 \<or> int (length (pg_Phases p)) \<le> sg_Phase d
           then Inl (Phase_out_of_range (sg_Signal d) (sg_Phase d))
           else let hold = (if sg_HoldTicks d = 0 then pg_cycle p else sg_HoldTicks d);
                    hold = (if signalHoldMaxTicks e < hold then signalHoldMaxTicks e else hold) in
             if \<exists>q \<in> set (e_sigNew e). sg_RequestID (tg_Dir q) = sg_RequestID d
             then Inl (Duplicate_buffered (sg_RequestID d))
             else if \<exists>h \<in> set (map snd (e_sigOv e)). \<exists>ov \<in> set h. ov_requestID ov = sg_RequestID d
             then Inl (Duplicate_live (sg_RequestID d))
             else Inr (e\<lparr>e_sigNew := e_sigNew e @
               [\<lparr>tg_Tick = 0, tg_SignalIdx = idx, tg_Dir = d\<lparr>sg_HoldTicks := hold\<rparr>\<rparr>]\<rparr>)))"

fun update_first :: "('a \<Rightarrow> bool) \<Rightarrow> ('a \<Rightarrow> 'a) \<Rightarrow> 'a list \<Rightarrow> 'a list" where
  "update_first P f [] = []"
| "update_first P f (x # xs) = (if P x then f x # xs else x # update_first P f xs)"

definition update_last :: "('a \<Rightarrow> bool) \<Rightarrow> ('a \<Rightarrow> 'a) \<Rightarrow> 'a list \<Rightarrow> 'a list" where
  "update_last P f xs = rev (update_first P f (rev xs))"

definition set_hold :: "u64 \<Rightarrow> TickedSignal \<Rightarrow> TickedSignal" where
  "set_hold n d = d\<lparr>tg_Dir := (tg_Dir d)\<lparr>sg_HoldTicks := n\<rparr>\<rparr>"

definition markSignalVerbUnenforced :: "string \<Rightarrow> Engine \<Rightarrow> Engine" where
  "markSignalVerbUnenforced rid e =
     e\<lparr>e_appliedSig := update_last (\<lambda>d. sg_RequestID (tg_Dir d) = rid) (set_hold 0) (e_appliedSig e),
       e_SigLog := update_last (\<lambda>d. tg_Tick d = e_Tick e \<and> sg_RequestID (tg_Dir d) = rid)
         (set_hold 0) (e_SigLog e)\<rparr>"

text \<open>
  The outgoing entry: its interval ends at this tick at the latest. The result is the history
  as the table now holds it, the history to append to, and the request id of the entry that
  governed no tick at all.
\<close>

definition supersede ::
  "u64 \<Rightarrow> sigOverride list \<Rightarrow> sigOverride list \<times> sigOverride list \<times> string option" where
  "supersede now h =
     (if h = [] then ([], [], None)
      else let o1 = last h; o2 = (if now < ov_until o1 then o1\<lparr>ov_until := now\<rparr> else o1);
               h' = butlast h @ [o2] in
        if ov_until o2 \<le> ov_since o2 then (h', butlast h, Some (ov_requestID o2))
        else (h', h', None))"

definition chain_start :: "u64 \<Rightarrow> int \<Rightarrow> sigOverride list \<Rightarrow> u64" where
  "chain_start now phase h =
     (if h \<noteq> [] \<and> ov_phase (last h) = phase \<and> now \<le> ov_until (last h)
      then ov_chainStart (last h) else now)"

definition hold_end :: "u64 \<Rightarrow> u64 \<Rightarrow> u64 \<Rightarrow> u64 \<Rightarrow> u64" where
  "hold_end now hold cs bound = (if cs + bound < now + hold then cs + bound else now + hold)"

definition applySignal :: "u64 \<Rightarrow> Engine \<Rightarrow> TickedSignal \<Rightarrow> Engine" where
  "applySignal bound e d0 =
     (let now = e_Tick e; d = d0\<lparr>tg_Tick := now\<rparr>; p = e_Signals e ! tg_SignalIdx d;
          h = ov_hist (e_sigOv e) (pg_ID p);
          cs = chain_start now (sg_Phase (tg_Dir d)) h;
          (stored, h', dropped) = supersede now h;
          ov1 = (if h = [] then e_sigOv e else AList.update (pg_ID p) stored (e_sigOv e));
          e1 = (case dropped of None \<Rightarrow> e | Some rid \<Rightarrow> markSignalVerbUnenforced rid e);
          til = hold_end now (sg_HoldTicks (tg_Dir d)) cs bound;
          entry = \<lparr>ov_phase = sg_Phase (tg_Dir d), ov_since = now, ov_until = til,
            ov_chainStart = cs, ov_requestID = sg_RequestID (tg_Dir d)\<rparr>;
          ov2 = (if now < til then AList.update (pg_ID p) (h' @ [entry]) (e_sigOv e) else ov1);
          d' = set_hold (if now < til then til - now else 0) d in
      e1\<lparr>e_sigOv := ov2, e_appliedSig := e_appliedSig e1 @ [d'], e_SigLog := e_SigLog e1 @ [d']\<rparr>)"

text \<open>The sweep of one program: the lapse event of the newest entry, then retention.\<close>

definition sweepSignal :: "Engine \<Rightarrow> SignalProgram \<Rightarrow> Engine" where
  "sweepSignal e p =
     (case map_of (e_sigOv e) (pg_ID p) of
        None \<Rightarrow> e
      | Some h \<Rightarrow>
          (let lst = last h;
               lapse = (if e_Tick e = ov_until lst
                 then [\<lparr>lp_Signal = pg_ID p, lp_Phase = ov_phase lst, lp_Since = ov_chainStart lst,
                        lp_Until = ov_until lst, lp_RequestID = ov_requestID lst\<rparr>]
                 else []);
               kept = filter (\<lambda>ov. e_Tick e \<le> ov_until ov + pg_clearance p) h in
           e\<lparr>e_sigLapses := e_sigLapses e @ lapse,
             e_sigOv := (if kept = [] then AList.delete (pg_ID p) (e_sigOv e)
                         else AList.update (pg_ID p) kept (e_sigOv e))\<rparr>))"

definition stepSignalOverrides :: "Engine \<Rightarrow> Engine" where
  "stepSignalOverrides e0 =
     (let e1 = e0\<lparr>e_appliedSig := [], e_sigLapses := []\<rparr>;
          e2 = (foldl (applySignal (signalHoldMaxTicks e0)) e1 (e_sigNew e0))\<lparr>e_sigNew := []\<rparr> in
      if e_sigOv e2 = [] then e2 else foldl sweepSignal e2 (e_Signals e2))"


subsection \<open>What one verb does to one history\<close>

definition hold_entry :: "u64 \<Rightarrow> SignalDirective \<Rightarrow> u64 \<Rightarrow> sigOverride list \<Rightarrow> sigOverride" where
  "hold_entry now d bound h =
     (let cs = chain_start now (sg_Phase d) h in
      \<lparr>ov_phase = sg_Phase d, ov_since = now, ov_until = hold_end now (sg_HoldTicks d) cs bound,
       ov_chainStart = cs, ov_requestID = sg_RequestID d\<rparr>)"

definition applied_hist :: "u64 \<Rightarrow> SignalDirective \<Rightarrow> u64 \<Rightarrow> sigOverride list \<Rightarrow> sigOverride list" where
  "applied_hist now d bound h =
     (let entry = hold_entry now d bound h in
      if now < ov_until entry then fst (snd (supersede now h)) @ [entry] else fst (supersede now h))"

lemma supersede_Nil [simp]: "supersede now [] = ([], [], None)"
  by (simp add: supersede_def)

lemma mark_ov [simp]:
  "e_sigOv (markSignalVerbUnenforced r e) = e_sigOv e"
  "e_Tick (markSignalVerbUnenforced r e) = e_Tick e"
  "e_Net (markSignalVerbUnenforced r e) = e_Net e"
  "e_Params (markSignalVerbUnenforced r e) = e_Params e"
  "e_sigNew (markSignalVerbUnenforced r e) = e_sigNew e"
  "e_sigLapses (markSignalVerbUnenforced r e) = e_sigLapses e"
  by (simp_all add: markSignalVerbUnenforced_def)

lemma applySignal_frame [simp]:
  "e_Tick (applySignal b e d) = e_Tick e" "e_Net (applySignal b e d) = e_Net e"
  "e_Params (applySignal b e d) = e_Params e" "e_sigNew (applySignal b e d) = e_sigNew e"
  "e_sigLapses (applySignal b e d) = e_sigLapses e"
  by (simp_all add: applySignal_def Let_def split: prod.split option.split)

lemma applySignal_hist:
  "ov_hist (e_sigOv (applySignal b e d)) k =
   (if k = pg_ID (e_Signals e ! tg_SignalIdx d)
    then applied_hist (e_Tick e) (tg_Dir d) b (ov_hist (e_sigOv e) k) else ov_hist (e_sigOv e) k)"
  by (auto simp: applySignal_def applied_hist_def hold_entry_def Let_def ov_hist_update
      split: prod.split option.split)

lemma applySignal_nonempty:
  assumes "\<And>k. map_of (e_sigOv e) k \<noteq> Some []"
  shows "map_of (e_sigOv (applySignal b e d)) k \<noteq> Some []"
proof -
  have "fst (supersede now h) \<noteq> []" if "h \<noteq> []" for now h
    using that by (simp add: supersede_def Let_def)
  then show ?thesis
    using assms
    by (auto simp: applySignal_def Let_def update_conv' split: prod.split option.split if_splits)
      (metis fst_conv)+
qed

subsection \<open>The history invariant\<close>

text \<open>
  Nonempty disjoint intervals in order, none starting in the future, and the starvation rail:
  an entry ends at most \<open>bound\<close> ticks after its chain began.
\<close>

definition hist_ok :: "u64 \<Rightarrow> u64 \<Rightarrow> sigOverride list \<Rightarrow> bool" where
  "hist_ok bound now h \<longleftrightarrow> ov_chron h \<and>
     (\<forall>ov \<in> set h. ov_chainStart ov \<le> ov_since ov \<and> ov_since ov \<le> now \<and>
        unat (ov_until ov) \<le> unat (ov_chainStart ov) + unat bound)"

lemma hist_ok_Nil [simp]: "hist_ok bound now []"
  by (simp add: hist_ok_def ov_chron_def)

lemma hist_ok_append:
  "hist_ok b now (h @ [ov]) \<longleftrightarrow> hist_ok b now h \<and> ov_since ov < ov_until ov \<and>
     (\<forall>o' \<in> set h. ov_until o' \<le> ov_since ov) \<and> ov_chainStart ov \<le> ov_since ov \<and>
     ov_since ov \<le> now \<and> unat (ov_until ov) \<le> unat (ov_chainStart ov) + unat b"
  by (auto simp: hist_ok_def ov_chron_append)

lemma hist_ok_later: "hist_ok b now h \<Longrightarrow> now \<le> now' \<Longrightarrow> hist_ok b now' h"
  by (auto simp: hist_ok_def)

lemma hist_ok_filter: "hist_ok b now h \<Longrightarrow> hist_ok b now (filter P h)"
  by (auto simp: hist_ok_def ov_chron_def sorted_wrt_filter)

lemma hold_end_bounds:
  assumes "cs \<le> now" and "unat now + unat bound < 18446744073709551616"
  shows "unat (hold_end now hold cs bound) \<le> unat cs + unat bound"
proof -
  have "unat (cs + bound) = unat cs + unat bound"
    using assms by (intro u64_add_no_wrap) (simp add: word_le_nat_alt)
  then show ?thesis
    by (auto simp: hold_end_def word_less_nat_alt not_less)
qed

text \<open>A declined verb meets a current entry that ends exactly now: nothing was truncated.\<close>

lemma declined_at_bound:
  assumes ok: "hist_ok bound now h"
    and tick: "unat now + unat bound < 18446744073709551616"
    and hold: "0 < sg_HoldTicks d" "sg_HoldTicks d \<le> bound"
    and decl: "\<not> now < ov_until (hold_entry now d bound h)"
  shows "h \<noteq> [] \<and> ov_until (last h) = now \<and> ov_phase (last h) = sg_Phase d \<and>
         unat (ov_chainStart (last h)) + unat bound = unat now"
proof -
  have now_hold: "unat (now + sg_HoldTicks d) = unat now + unat (sg_HoldTicks d)"
    using tick hold by (intro u64_add_no_wrap) (simp add: word_le_nat_alt)
  have now_bound: "unat (now + bound) = unat now + unat bound"
    using tick by (intro u64_add_no_wrap)
  let ?cs = "chain_start now (sg_Phase d) h"
  have "\<not> now < now + sg_HoldTicks d \<or> \<not> now < ?cs + bound"
    using decl by (auto simp: hold_entry_def hold_end_def Let_def split: if_splits)
  then have cs: "\<not> now < ?cs + bound"
    using hold(1) now_hold by (auto simp: word_less_nat_alt)
  have "\<not> now + bound \<le> now"
    using now_bound hold by (simp add: word_le_nat_alt word_less_nat_alt)
  then have h: "h \<noteq> []" "ov_phase (last h) = sg_Phase d" "now \<le> ov_until (last h)"
    and c: "?cs = ov_chainStart (last h)"
    using cs by (auto simp: chain_start_def split: if_splits)
  then have l: "ov_chainStart (last h) \<le> ov_since (last h)" "ov_since (last h) \<le> now"
    "unat (ov_until (last h)) \<le> unat (ov_chainStart (last h)) + unat bound"
    using ok by (auto simp: hist_ok_def)
  have "unat (ov_chainStart (last h) + bound) = unat (ov_chainStart (last h)) + unat bound"
    using l(1,2) tick by (intro u64_add_no_wrap) (simp add: word_le_nat_alt)
  then show ?thesis
    using h l cs c by (auto simp: word_less_nat_alt word_le_nat_alt word_unat_eq_iff)
qed

lemma supersede_ok:
  assumes "hist_ok b now h"
  shows "hist_ok b now (fst (snd (supersede now h)))"
    and "\<forall>ov \<in> set (fst (snd (supersede now h))). ov_until ov \<le> now"
proof -
  show "hist_ok b now (fst (snd (supersede now h)))"
  proof (cases h rule: rev_cases)
    case (snoc g ov)
    then have "unat now \<le> unat (ov_chainStart ov) + unat b" if "now < ov_until ov"
      using assms that by (auto simp: hist_ok_append word_less_nat_alt)
    then show ?thesis
      using assms snoc by (auto simp: supersede_def Let_def hist_ok_append not_le)
  qed simp
  show "\<forall>ov \<in> set (fst (snd (supersede now h))). ov_until ov \<le> now"
  proof (cases h rule: rev_cases)
    case (snoc g ov)
    have "\<forall>o' \<in> set g. ov_until o' \<le> now"
      using assms snoc by (auto simp: hist_ok_append intro: order.trans)
    then show ?thesis using snoc by (auto simp: supersede_def Let_def)
  qed simp
qed

lemma applied_hist_ok:
  assumes "hist_ok bound now h" and "unat now + unat bound < 18446744073709551616"
    and "0 < sg_HoldTicks d" and "sg_HoldTicks d \<le> bound"
  shows "hist_ok bound now (applied_hist now d bound h)"
proof (cases "now < ov_until (hold_entry now d bound h)")
  case True
  have "chain_start now (sg_Phase d) h \<le> now"
    using assms(1) by (auto simp: chain_start_def hist_ok_def intro: order.trans)
  then show ?thesis
    using True assms(1,2) supersede_ok [OF assms(1)] hold_end_bounds
    by (simp add: applied_hist_def hist_ok_append Let_def) (simp add: hold_entry_def Let_def)
next
  case False
  then have "fst (supersede now h) = h"
    using declined_at_bound [OF assms] by (simp add: supersede_def Let_def)
  then show ?thesis using False assms(1) by (simp add: applied_hist_def Let_def)
qed


subsection \<open>The invariant of the override table\<close>

definition table_ok :: "u64 \<Rightarrow> Engine \<Rightarrow> bool" where
  "table_ok bound e \<longleftrightarrow>
     (\<forall>k. hist_ok bound (e_Tick e) (ov_hist (e_sigOv e) k) \<and> map_of (e_sigOv e) k \<noteq> Some [])"

definition verb_ok :: "u64 \<Rightarrow> Engine \<Rightarrow> TickedSignal \<Rightarrow> bool" where
  "verb_ok bound e d \<longleftrightarrow> tg_SignalIdx d < length (e_Signals e) \<and>
     0 < sg_HoldTicks (tg_Dir d) \<and> sg_HoldTicks (tg_Dir d) \<le> bound"

definition sigctl_inv :: "Engine \<Rightarrow> bool" where
  "sigctl_inv e \<longleftrightarrow> (\<forall>p \<in> set (e_Signals e). compiled p) \<and>
     table_ok (signalHoldMaxTicks e) e \<and>
     (\<forall>d \<in> set (e_sigNew e). verb_ok (signalHoldMaxTicks e) e d)"

lemma signalHoldMaxTicks_pos: "0 < signalHoldMaxTicks e"
proof -
  have "1 \<le> signalHoldMaxTicks e" by (simp add: signalHoldMaxTicks_def Let_def)
  then show ?thesis by (simp add: word_le_nat_alt word_less_nat_alt)
qed

lemma signalHoldMaxTicks_cong: "e_Params e = e_Params e' \<Longrightarrow> signalHoldMaxTicks e = signalHoldMaxTicks e'"
  by (simp add: signalHoldMaxTicks_def)

lemma applySignal_ok:
  assumes "table_ok b e" and "verb_ok b e d" and "unat (e_Tick e) + unat b < 18446744073709551616"
  shows "table_ok b (applySignal b e d)"
  using assms applied_hist_ok applySignal_nonempty [of e]
  by (simp add: table_ok_def verb_ok_def applySignal_hist)

lemma fold_apply_frame [simp]:
  "e_Tick (foldl (applySignal b) e ds) = e_Tick e" "e_Net (foldl (applySignal b) e ds) = e_Net e"
  "e_Params (foldl (applySignal b) e ds) = e_Params e"
  "e_sigNew (foldl (applySignal b) e ds) = e_sigNew e"
  "e_sigLapses (foldl (applySignal b) e ds) = e_sigLapses e"
  by (induction ds arbitrary: e) simp_all

lemma fold_apply_ok:
  assumes "table_ok b e" and "\<forall>d \<in> set ds. verb_ok b e d"
    and "unat (e_Tick e) + unat b < 18446744073709551616"
  shows "table_ok b (foldl (applySignal b) e ds)"
  using assms
  by (induction ds arbitrary: e) (simp_all add: applySignal_ok verb_ok_def)

definition retained :: "u64 \<Rightarrow> SignalProgram \<Rightarrow> sigOverride list \<Rightarrow> sigOverride list" where
  "retained now p h = filter (\<lambda>ov. now \<le> ov_until ov + pg_clearance p) h"

lemma sweep_frame [simp]:
  "e_Tick (sweepSignal e p) = e_Tick e" "e_Net (sweepSignal e p) = e_Net e"
  "e_Params (sweepSignal e p) = e_Params e" "e_sigNew (sweepSignal e p) = e_sigNew e"
  "e_appliedSig (sweepSignal e p) = e_appliedSig e" "e_SigLog (sweepSignal e p) = e_SigLog e"
  by (simp_all add: sweepSignal_def Let_def split: option.split)

lemma fold_sweep_frame [simp]:
  "e_Tick (foldl sweepSignal e ps) = e_Tick e" "e_Net (foldl sweepSignal e ps) = e_Net e"
  "e_Params (foldl sweepSignal e ps) = e_Params e" "e_sigNew (foldl sweepSignal e ps) = e_sigNew e"
  "e_appliedSig (foldl sweepSignal e ps) = e_appliedSig e"
  by (induction ps arbitrary: e) simp_all

lemma sweep_hist:
  "ov_hist (e_sigOv (sweepSignal e p)) k =
   (if k = pg_ID p then retained (e_Tick e) p (ov_hist (e_sigOv e) k) else ov_hist (e_sigOv e) k)"
  by (auto simp: sweepSignal_def retained_def Let_def ov_hist_update ov_hist_delete
      split: option.split) (simp_all add: ov_hist_def)

lemma sweep_nonempty:
  "(\<And>k. map_of (e_sigOv e) k \<noteq> Some []) \<Longrightarrow> map_of (e_sigOv (sweepSignal e p)) k \<noteq> Some []"
  by (auto simp: sweepSignal_def Let_def update_conv' delete_conv' split: option.split if_splits)

lemma sweep_ok: "table_ok b e \<Longrightarrow> table_ok b (sweepSignal e p)"
  using sweep_nonempty [of e p]
  by (auto simp: table_ok_def sweep_hist retained_def intro: hist_ok_filter)

lemma fold_sweep_ok: "table_ok b e \<Longrightarrow> table_ok b (foldl sweepSignal e ps)"
  by (induction ps arbitrary: e) (simp_all add: sweep_ok)

lemma step_frame [simp]:
  "e_Tick (stepSignalOverrides e) = e_Tick e" "e_Net (stepSignalOverrides e) = e_Net e"
  "e_Params (stepSignalOverrides e) = e_Params e" "e_sigNew (stepSignalOverrides e) = []"
  by (simp_all add: stepSignalOverrides_def Let_def)

lemma table_ok_same: "e_sigOv e' = e_sigOv e \<Longrightarrow> e_Tick e' = e_Tick e \<Longrightarrow> table_ok b e' = table_ok b e"
  by (simp add: table_ok_def)

lemma step_table_ok:
  assumes "sigctl_inv e" and "unat (e_Tick e) + unat (signalHoldMaxTicks e) < 18446744073709551616"
  shows "table_ok (signalHoldMaxTicks e) (stepSignalOverrides e)"
proof -
  let ?b = "signalHoldMaxTicks e"
  let ?e1 = "e\<lparr>e_appliedSig := [], e_sigLapses := []\<rparr>"
  let ?e2 = "(foldl (applySignal ?b) ?e1 (e_sigNew e))\<lparr>e_sigNew := []\<rparr>"
  have "table_ok ?b ?e1" and "\<forall>d \<in> set (e_sigNew e). verb_ok ?b ?e1 d"
    using assms(1) by (simp_all add: sigctl_inv_def table_ok_def verb_ok_def)
  then have "table_ok ?b (foldl (applySignal ?b) ?e1 (e_sigNew e))"
    using assms(2) by (intro fold_apply_ok) simp_all
  then have "table_ok ?b ?e2" by (simp add: table_ok_def)
  then show ?thesis
    by (simp add: stepSignalOverrides_def Let_def fold_sweep_ok)
qed


subsection \<open>Reachable override tables\<close>

lemma EnqueueSignal_Inr:
  assumes "EnqueueSignal d e = Inr e'"
  obtains idx hold where "idx < length (e_Signals e)" and "pg_ID (e_Signals e ! idx) = sg_Signal d"
    and "hold = min (signalHoldMaxTicks e)
           (if sg_HoldTicks d = 0 then pg_cycle (e_Signals e ! idx) else sg_HoldTicks d)"
    and "0 \<le> sg_Phase d" and "sg_Phase d < int (length (pg_Phases (e_Signals e ! idx)))"
    and "sg_RequestID d \<notin> set (map (\<lambda>q. sg_RequestID (tg_Dir q)) (e_sigNew e))"
    and "e' = e\<lparr>e_sigNew := e_sigNew e @
           [\<lparr>tg_Tick = 0, tg_SignalIdx = idx, tg_Dir = d\<lparr>sg_HoldTicks := hold\<rparr>\<rparr>]\<rparr>"
proof -
  obtain idx where f: "find_index (\<lambda>p. pg_ID p = sg_Signal d) (e_Signals e) = Some idx"
    using assms by (auto simp: EnqueueSignal_def split: if_splits option.splits)
  have i: "idx < length (e_Signals e)" "pg_ID (e_Signals e ! idx) = sg_Signal d"
    using f by (auto simp: find_index_Some_iff)
  note r = assms [unfolded EnqueueSignal_def f option.case Let_def]
  show thesis
    by (rule that [OF i refl]) (use r in \<open>auto simp: min_def not_less not_le split: if_splits\<close>)
qed

lemma enqueue_inv:
  assumes "EnqueueSignal d e = Inr e'" and "sigctl_inv e"
  shows "sigctl_inv e' \<and> e_Tick e' = e_Tick e \<and> e_Net e' = e_Net e \<and>
         e_Params e' = e_Params e \<and> e_sigOv e' = e_sigOv e"
  using assms(1)
proof (rule EnqueueSignal_Inr)
  fix idx hold
  assume i: "idx < length (e_Signals e)"
    and hold: "hold = min (signalHoldMaxTicks e)
           (if sg_HoldTicks d = 0 then pg_cycle (e_Signals e ! idx) else sg_HoldTicks d)"
    and e': "e' = e\<lparr>e_sigNew := e_sigNew e @
           [\<lparr>tg_Tick = 0, tg_SignalIdx = idx, tg_Dir = d\<lparr>sg_HoldTicks := hold\<rparr>\<rparr>]\<rparr>"
  have "0 < unat (pg_cycle (e_Signals e ! idx))"
    using assms(2) i by (intro compiled_pos) (simp add: sigctl_inv_def)
  then have "0 < hold" "hold \<le> signalHoldMaxTicks e"
    using hold signalHoldMaxTicks_pos [of e]
    by (auto simp: min_def unat_gt_0 word_neq_0_conv)
  moreover have "signalHoldMaxTicks e' = signalHoldMaxTicks e"
    using e' by (intro signalHoldMaxTicks_cong) simp
  ultimately show ?thesis
    using assms(2) i e' by (auto simp: sigctl_inv_def table_ok_def verb_ok_def)
qed

abbreviation tick_up :: "Engine \<Rightarrow> Engine" where
  "tick_up e \<equiv> e\<lparr>e_Tick := e_Tick e + 1\<rparr>"

abbreviation horizon :: "Engine \<Rightarrow> bool" where
  "horizon e \<equiv> unat (e_Tick e) + 1 + unat (signalHoldMaxTicks e) < 18446744073709551616"

text \<open>
  What \<open>Step\<close> does to the table: it advances the tick, then runs the bookkeeping. The horizon
  hypothesis keeps tick arithmetic below $2^{64}$, five billion years at ten ticks a second.
\<close>

inductive sigctl_reach :: "Engine \<Rightarrow> Engine \<Rightarrow> bool" for e0 :: Engine where
  start: "sigctl_reach e0 e0"
| enqueue: "sigctl_reach e0 e \<Longrightarrow> EnqueueSignal d e = Inr e' \<Longrightarrow> sigctl_reach e0 e'"
| boundary: "sigctl_reach e0 e \<Longrightarrow> horizon e \<Longrightarrow>
    sigctl_reach e0 (stepSignalOverrides (tick_up e))"

lemma tick_up_inv:
  assumes "sigctl_inv e" and "horizon e"
  shows "sigctl_inv (tick_up e)"
proof -
  have "unat (e_Tick e + 1) = unat (e_Tick e) + 1"
    using assms(2) by (subst u64_add_no_wrap) simp_all
  then have later: "e_Tick e \<le> e_Tick e + 1" by (simp add: word_le_nat_alt)
  moreover have "signalHoldMaxTicks (tick_up e) = signalHoldMaxTicks e"
    by (rule signalHoldMaxTicks_cong) simp
  ultimately show ?thesis
    using assms(1) hist_ok_later [OF _ later] by (auto simp: sigctl_inv_def table_ok_def verb_ok_def)
qed

lemma step_inv:
  assumes "sigctl_inv e" and "unat (e_Tick e) + unat (signalHoldMaxTicks e) < 18446744073709551616"
  shows "sigctl_inv (stepSignalOverrides e)"
proof -
  have "signalHoldMaxTicks (stepSignalOverrides e) = signalHoldMaxTicks e"
    by (rule signalHoldMaxTicks_cong) simp
  then show ?thesis
    using step_table_ok [OF assms] assms(1) by (simp add: sigctl_inv_def)
qed

lemma boundary_tick:
  assumes "horizon e"
  shows "unat (e_Tick (tick_up e)) + unat (signalHoldMaxTicks (tick_up e)) < 18446744073709551616"
proof -
  have "signalHoldMaxTicks (tick_up e) = signalHoldMaxTicks e"
    by (rule signalHoldMaxTicks_cong) simp
  moreover have "unat (e_Tick e + 1) = unat (e_Tick e) + 1"
    using assms by (subst u64_add_no_wrap) simp_all
  ultimately show ?thesis using assms by simp
qed

lemma reach_inv:
  assumes "sigctl_reach e0 e" and "sigctl_inv e0"
  shows "sigctl_inv e \<and> e_Net e = e_Net e0 \<and> e_Params e = e_Params e0"
  using assms
proof (induction rule: sigctl_reach.induct)
  case (boundary e)
  then show ?case
    using step_inv [OF tick_up_inv boundary_tick] by simp
qed (simp_all add: enqueue_inv)

definition sigctl_init :: "Engine \<Rightarrow> bool" where
  "sigctl_init e \<longleftrightarrow> e_sigOv e = [] \<and> e_sigNew e = [] \<and> (\<forall>p \<in> set (e_Signals e). compiled p)"

lemma init_inv: "sigctl_init e \<Longrightarrow> sigctl_inv e"
  by (simp add: sigctl_init_def sigctl_inv_def table_ok_def ov_hist_def)

text \<open>
  C1: the starvation rail. However verbs are enqueued and boundaries pass, from an engine with
  compiled programs and no override: every program's history is a sequence of nonempty,
  disjoint intervals in order, no hold ends more than \<open>signalHoldMaxTicks\<close> after its chain
  began, and so from that many ticks ahead of any state the fixed-time program is in force
  again if no further verb comes.
\<close>

theorem starvation_rail:
  assumes "sigctl_reach e0 e" and "sigctl_init e0"
  shows "(\<forall>k. ov_chron (ov_hist (e_sigOv e) k) \<and>
           (\<forall>ov \<in> set (ov_hist (e_sigOv e) k).
              ov_chainStart ov \<le> ov_since ov \<and> ov_since ov \<le> e_Tick e \<and>
              unat (ov_until ov) \<le> unat (ov_chainStart ov) + unat (signalHoldMaxTicks e))) \<and>
         (\<forall>p t. unat (e_Tick e) + unat (signalHoldMaxTicks e) \<le> unat t \<longrightarrow>
            sigPhaseAt e p t = phaseAtElapsed p t)"
proof -
  have t: "table_ok (signalHoldMaxTicks e) e"
    using reach_inv [OF assms(1) init_inv [OF assms(2)]] by (simp add: sigctl_inv_def)
  have "sigPhaseAt e p t = phaseAtElapsed p t"
    if "unat (e_Tick e) + unat (signalHoldMaxTicks e) \<le> unat t" for p t
  proof -
    have "\<not> ov_covers ov t" if "ov \<in> set (ov_hist (e_sigOv e) (pg_ID p))" for ov
    proof -
      have "ov_chainStart ov \<le> e_Tick e"
        and "unat (ov_until ov) \<le> unat (ov_chainStart ov) + unat (signalHoldMaxTicks e)"
        using t that by (auto simp: table_ok_def hist_ok_def intro: order.trans)
      then show ?thesis
        using \<open>unat (e_Tick e) + unat (signalHoldMaxTicks e) \<le> unat t\<close>
        by (auto simp: ov_covers_def word_le_nat_alt word_less_nat_alt)
    qed
    then show ?thesis by (simp add: sigPhaseAt_def find_covers_none)
  qed
  then show ?thesis
    using t by (auto simp: table_ok_def hist_ok_def)
qed


subsection \<open>Lapses and retention\<close>

lemma find_rev_filter:
  "(\<And>x. x \<in> set h \<Longrightarrow> \<not> P x \<Longrightarrow> \<not> Q x) \<Longrightarrow> find Q (rev (filter P h)) = find Q (rev h)"
  by (induction h rule: rev_induct) auto

definition lapse_of :: "u64 \<Rightarrow> SignalProgram \<Rightarrow> sigOverride list \<Rightarrow> SigLapse list" where
  "lapse_of now p h =
     (if h \<noteq> [] \<and> ov_until (last h) = now
      then [\<lparr>lp_Signal = pg_ID p, lp_Phase = ov_phase (last h), lp_Since = ov_chainStart (last h),
             lp_Until = now, lp_RequestID = ov_requestID (last h)\<rparr>]
      else [])"

lemma sweep_lapses:
  assumes "map_of (e_sigOv e) (pg_ID p) \<noteq> Some []"
  shows "e_sigLapses (sweepSignal e p)
         = e_sigLapses e @ lapse_of (e_Tick e) p (ov_hist (e_sigOv e) (pg_ID p))"
  using assms by (auto simp: sweepSignal_def lapse_of_def ov_hist_def Let_def split: option.split)

text \<open>An entry ending now is never swept, and it is the newest one left iff it was the newest.\<close>

lemma lapse_of_retained:
  assumes "hist_ok b now h" and "unat now + unat b + unat (pg_clearance p) < 18446744073709551616"
  shows "lapse_of now p (retained now p h) = lapse_of now p h"
proof (cases h rule: rev_cases)
  case (snoc g ov)
  have keep: "now \<le> ov_until ov + pg_clearance p" if "now \<le> ov_until ov"
  proof -
    have "unat (ov_until ov) \<le> unat now + unat b"
      using assms(1) snoc by (auto simp: hist_ok_append word_le_nat_alt)
    then have "unat (ov_until ov + pg_clearance p) = unat (ov_until ov) + unat (pg_clearance p)"
      using assms(2) by (intro u64_add_no_wrap) linarith
    then show ?thesis using that by (simp add: word_le_nat_alt)
  qed
  show ?thesis
  proof (cases "now \<le> ov_until ov + pg_clearance p")
    case True
    then show ?thesis using snoc by (simp add: lapse_of_def retained_def)
  next
    case False
    then have lt: "ov_until ov < now" using keep by (meson not_le)
    have "\<forall>o' \<in> set g. ov_until o' < now"
      using assms(1) snoc lt by (auto simp: hist_ok_append intro: le_less_trans less_trans)
    moreover have "set (retained now p h) \<subseteq> set g"
      using snoc False by (auto simp: retained_def)
    ultimately have "retained now p h = [] \<or> ov_until (last (retained now p h)) < now"
      using last_in_set by blast
    then show ?thesis using snoc lt by (auto simp: lapse_of_def)
  qed
qed (simp add: retained_def)

lemma fold_sweep_hist:
  "pg_ID p \<notin> pg_ID ` set ps \<Longrightarrow>
   ov_hist (e_sigOv (foldl sweepSignal e ps)) (pg_ID p) = ov_hist (e_sigOv e) (pg_ID p)"
  by (induction ps arbitrary: e) (auto simp: sweep_hist)

lemma fold_sweep_lapses:
  assumes "table_ok b e" and "distinct (map pg_ID ps)"
  shows "e_sigLapses (foldl sweepSignal e ps) =
         e_sigLapses e @ concat (map (\<lambda>p. lapse_of (e_Tick e) p (ov_hist (e_sigOv e) (pg_ID p))) ps)"
  using assms
proof (induction ps arbitrary: e)
  case (Cons p ps)
  have "map (\<lambda>q. lapse_of (e_Tick e) q (ov_hist (e_sigOv (sweepSignal e p)) (pg_ID q))) ps
        = map (\<lambda>q. lapse_of (e_Tick e) q (ov_hist (e_sigOv e) (pg_ID q))) ps"
    using Cons.prems(2) by (auto simp: sweep_hist image_iff)
  then show ?case
    using Cons.IH [OF sweep_ok [OF Cons.prems(1)]] Cons.prems
    by (simp add: sweep_lapses table_ok_def del: map_eq_conv)
qed simp

lemma fold_sweep_retained:
  assumes "distinct (map pg_ID ps)" and "p \<in> set ps"
  shows "ov_hist (e_sigOv (foldl sweepSignal e ps)) (pg_ID p)
         = retained (e_Tick e) p (ov_hist (e_sigOv e) (pg_ID p))"
  using assms
proof (induction ps arbitrary: e)
  case (Cons q ps)
  show ?case
  proof (cases "p = q")
    case True
    then show ?thesis using Cons.prems fold_sweep_hist [of p ps "sweepSignal e p"]
      by (simp add: sweep_hist)
  next
    case False
    then have "p \<in> set ps" "pg_ID p \<noteq> pg_ID q" using Cons.prems by (auto simp: image_iff)
    then show ?thesis using Cons.IH [of "sweepSignal e q"] Cons.prems by (simp add: sweep_hist)
  qed
qed simp

text \<open>The table between the installation of the verbs and the sweep.\<close>

definition installed :: "Engine \<Rightarrow> Engine" where
  "installed e = foldl (applySignal (signalHoldMaxTicks e)) (e\<lparr>e_appliedSig := [], e_sigLapses := []\<rparr>)
     (e_sigNew e)"

lemma installed_frame [simp]:
  "e_Tick (installed e) = e_Tick e" "e_Net (installed e) = e_Net e" "e_sigLapses (installed e) = []"
  by (simp_all add: installed_def)

lemma installed_ok:
  assumes "sigctl_inv e" and "unat (e_Tick e) + unat (signalHoldMaxTicks e) < 18446744073709551616"
  shows "table_ok (signalHoldMaxTicks e) (installed e)"
  unfolding installed_def using assms
  by (intro fold_apply_ok) (simp_all add: sigctl_inv_def table_ok_def verb_ok_def)

lemma step_installed:
  "stepSignalOverrides e =
   (if e_sigOv (installed e) = [] then (installed e)\<lparr>e_sigNew := []\<rparr>
    else foldl sweepSignal ((installed e)\<lparr>e_sigNew := []\<rparr>) (e_Signals e))"
  by (simp add: stepSignalOverrides_def installed_def Let_def)

lemma step_retained:
  assumes "distinct (map pg_ID (e_Signals e))" and "p \<in> set (e_Signals e)"
  shows "ov_hist (e_sigOv (stepSignalOverrides e)) (pg_ID p)
         = retained (e_Tick e) p (ov_hist (e_sigOv (installed e)) (pg_ID p))"
  using fold_sweep_retained [OF assms, of "(installed e)\<lparr>e_sigNew := []\<rparr>"]
  by (simp add: step_installed ov_hist_def [of "[]"] retained_def)


text \<open>
  exactly one lapse event per expiry. At every boundary the lapse list is, in network
  order, one event for each program whose newest hold ends at this tick, with the phase it
  held, the start of its chain and the request that commanded it, and nothing else: a
  superseded or still running hold reports nothing. It is a function of the table the step
  leaves behind, so a run restored from that table reports the same.
\<close>

theorem lapses_exact:
  assumes "sigctl_inv e" and "distinct (map pg_ID (e_Signals e))"
    and "\<And>p. p \<in> set (e_Signals e) \<Longrightarrow>
      unat (e_Tick e) + unat (signalHoldMaxTicks e) + unat (pg_clearance p) < 18446744073709551616"
    and "unat (e_Tick e) + unat (signalHoldMaxTicks e) < 18446744073709551616"
  shows "e_sigLapses (stepSignalOverrides e) =
         concat (map (\<lambda>p. lapse_of (e_Tick e) p (ov_hist (e_sigOv (stepSignalOverrides e)) (pg_ID p)))
           (e_Signals e))"
proof -
  let ?b = "signalHoldMaxTicks e"
  have ok: "table_ok ?b (installed e)" by (rule installed_ok [OF assms(1,4)])
  have "lapse_of (e_Tick e) p (ov_hist (e_sigOv (stepSignalOverrides e)) (pg_ID p))
        = lapse_of (e_Tick e) p (ov_hist (e_sigOv (installed e)) (pg_ID p))"
    if "p \<in> set (e_Signals e)" for p
    using ok lapse_of_retained [OF _ assms(3) [OF that]] step_retained [OF assms(2) that]
    by (simp add: table_ok_def)
  then have "concat (map (\<lambda>p. lapse_of (e_Tick e) p
      (ov_hist (e_sigOv (stepSignalOverrides e)) (pg_ID p))) (e_Signals e))
    = concat (map (\<lambda>p. lapse_of (e_Tick e) p (ov_hist (e_sigOv (installed e)) (pg_ID p)))
        (e_Signals e))"
    by (metis (no_types, lifting) map_cong)
  moreover have "table_ok ?b ((installed e)\<lparr>e_sigNew := []\<rparr>)"
    using ok by (simp add: table_ok_def)
  ultimately show ?thesis
    using fold_sweep_lapses [OF _ assms(2)]
    by (simp add: step_installed ov_hist_def [of "[]"] lapse_of_def [of _ _ "[]"] map_replicate_const)
qed

lemma retained_find:
  assumes ok: "hist_ok b now h"
    and "unat now + unat b + unat (pg_clearance p) < 18446744073709551616"
    and "unat now \<le> unat t + unat (pg_clearance p) + 1"
  shows "find (\<lambda>ov. ov_covers ov t) (rev (retained now p h)) = find (\<lambda>ov. ov_covers ov t) (rev h)"
  unfolding retained_def
proof (rule find_rev_filter)
  fix ov assume o: "ov \<in> set h" "\<not> now \<le> ov_until ov + pg_clearance p"
  have "unat (ov_until ov) \<le> unat now + unat b"
    using ok o(1) by (fastforce simp: hist_ok_def word_le_nat_alt)
  then have "unat (ov_until ov + pg_clearance p) = unat (ov_until ov) + unat (pg_clearance p)"
    using assms(2) by (intro u64_add_no_wrap) linarith
  then show "\<not> ov_covers ov t"
    using o(2) assms(3) by (auto simp: ov_covers_def word_le_nat_alt word_less_nat_alt)
qed

text \<open>
  retention keeps every answer that can still be asked. Sweeping ended holds out of the
  table changes the phase in force for no tick the clearance logic can look back to, the ticks
  from \<open>now - clearance - 1\<close> on, the future included.
\<close>

theorem retention_sound:
  assumes "sigctl_inv e" and "distinct (map pg_ID (e_Signals e))" and "p \<in> set (e_Signals e)"
    and "unat (e_Tick e) + unat (signalHoldMaxTicks e) + unat (pg_clearance p) < 18446744073709551616"
    and "unat (e_Tick e) \<le> unat t + unat (pg_clearance p) + 1"
  shows "sigPhaseAt (stepSignalOverrides e) p t = sigPhaseAt (installed e) p t"
proof -
  have "hist_ok (signalHoldMaxTicks e) (e_Tick e) (ov_hist (e_sigOv (installed e)) (pg_ID p))"
    using installed_ok [OF assms(1)] assms(4) by (simp add: table_ok_def)
  from retained_find [OF this assms(4,5)] show ?thesis
    by (simp add: sigPhaseAt_def step_retained [OF assms(2,3)])
qed

subsection \<open>What a verb does\<close>

lemma supersede_truncated:
  "h \<noteq> [] \<Longrightarrow> ov_until (last h) = now \<Longrightarrow> fst (supersede now h) = h"
  by (simp add: supersede_def Let_def)

lemma hold_end_le: "now < hold_end now hold cs b \<Longrightarrow>
   unat now + unat hold < 18446744073709551616 \<Longrightarrow> hold_end now hold cs b - now \<le> hold"
  by (auto simp: hold_end_def word_le_nat_alt word_less_nat_alt u64_sub_unat u64_add_no_wrap
      split: if_splits)

lemma applySignal_record:
  "last (e_appliedSig (applySignal b e d)) =
   set_hold (let til = ov_until (hold_entry (e_Tick e) (tg_Dir d) b
       (ov_hist (e_sigOv e) (pg_ID (e_Signals e ! tg_SignalIdx d)))) in
       if e_Tick e < til then til - e_Tick e else 0) (d\<lparr>tg_Tick := e_Tick e\<rparr>)"
  by (simp add: applySignal_def hold_entry_def Let_def split: prod.split)

text \<open>Verbs for other programs leave the history of a program alone.\<close>

lemma fold_apply_other:
  assumes "distinct (map pg_ID (e_Signals e))" and "k < length (e_Signals e)"
    and "\<forall>x \<in> set ds. tg_SignalIdx x < length (e_Signals e) \<and> tg_SignalIdx x \<noteq> k"
  shows "ov_hist (e_sigOv (foldl (applySignal b) e ds)) (pg_ID (e_Signals e ! k)) = ov_hist (e_sigOv e) (pg_ID (e_Signals e ! k))"
  using assms
proof (induction ds arbitrary: e)
  case (Cons d ds)
  have "pg_ID (e_Signals e ! tg_SignalIdx d) \<noteq> pg_ID (e_Signals e ! k)"
    using Cons.prems nth_eq_iff_index_eq [of "map pg_ID (e_Signals e)" "tg_SignalIdx d" k] by simp
  then have "ov_hist (e_sigOv (applySignal b e d)) (pg_ID (e_Signals e ! k)) = ov_hist (e_sigOv e) (pg_ID (e_Signals e ! k))"
    by (simp add: applySignal_hist)
  then show ?case using Cons.IH [of "applySignal b e d"] Cons.prems by simp
qed simp

lemma hold_end_min:
  assumes "cs \<le> now" and "unat now + unat b < 18446744073709551616" and "hold \<le> b" and "now < hold_end now hold cs b"
  shows "unat (hold_end now hold cs b - now) = min (unat hold) (unat cs + unat b - unat now)"
proof -
  have "unat (cs + b) = unat cs + unat b" "unat (now + hold) = unat now + unat hold"
    using assms(1-3) by (auto intro!: u64_add_no_wrap simp: word_le_nat_alt)
  then show ?thesis
    using assms(4) by (auto simp: hold_end_def word_less_nat_alt u64_sub_unat word_le_nat_alt split: if_splits)
qed

text \<open>
  C20: a verb does what the record says it did. The last verb of a boundary is logged with the
  tick it was applied at and its own request id. If the hold of the record is positive, the newest
  entry of the table is that command, from this tick for exactly the recorded ticks: the commanded
  phase is in force with its onset at this tick until then, and from then on the schedule is. The
  recorded hold is the one asked for, or what the starvation bound leaves of the entry's chain,
  whichever is shorter; and when no other verb of the boundary is for the program, the chain is the
  one of the entry before, if that has the same phase and reaches to this tick, and a new one
  otherwise. If the recorded hold is zero, the verb was a renewal that arrived when its chain had
  used up the bound: the chain's entry ends at this tick and nothing new is installed.
\<close>

theorem verb_takes_effect:
  assumes "sigctl_inv e" and "distinct (map pg_ID (e_Signals e))"
    and "e_sigNew e = ds @ [d]" and "p = e_Signals e ! tg_SignalIdx d"
    and "unat (e_Tick e) + unat (signalHoldMaxTicks e) + unat (pg_clearance p) < 18446744073709551616"
    and "d' = last (e_appliedSig (stepSignalOverrides e))"
  shows "tg_Tick d' = e_Tick e \<and> sg_RequestID (tg_Dir d') = sg_RequestID (tg_Dir d) \<and>
         sg_HoldTicks (tg_Dir d') \<le> sg_HoldTicks (tg_Dir d) \<and>
         (if sg_HoldTicks (tg_Dir d') = 0
          then \<exists>ov \<in> set (ov_hist (e_sigOv (installed e)) (pg_ID p)).
                 ov_until ov = e_Tick e \<and> ov_phase ov = sg_Phase (tg_Dir d) \<and>
                 unat (ov_chainStart ov) + unat (signalHoldMaxTicks e) = unat (e_Tick e)
          else (\<forall>t. e_Tick e \<le> t \<and> t < e_Tick e + sg_HoldTicks (tg_Dir d') \<longrightarrow>
                 sigPhaseAt (stepSignalOverrides e) p t = (sg_Phase (tg_Dir d), t - e_Tick e)) \<and>
               (\<forall>t. e_Tick e + sg_HoldTicks (tg_Dir d') \<le> t \<longrightarrow>
                 sigPhaseAt (stepSignalOverrides e) p t = phaseAtElapsed p t) \<and>
               (\<exists>cs. last (ov_hist (e_sigOv (stepSignalOverrides e)) (pg_ID p)) =
                   \<lparr>ov_phase = sg_Phase (tg_Dir d), ov_since = e_Tick e, ov_until = e_Tick e + sg_HoldTicks (tg_Dir d'),
                    ov_chainStart = cs, ov_requestID = sg_RequestID (tg_Dir d)\<rparr> \<and>
                 unat (sg_HoldTicks (tg_Dir d')) =
                   min (unat (sg_HoldTicks (tg_Dir d))) (unat cs + unat (signalHoldMaxTicks e) - unat (e_Tick e)) \<and>
                 ((\<forall>x \<in> set ds. tg_SignalIdx x \<noteq> tg_SignalIdx d) \<longrightarrow>
                   (let h = ov_hist (e_sigOv e) (pg_ID p) in
                    cs = (if h \<noteq> [] \<and> ov_phase (last h) = sg_Phase (tg_Dir d) \<and> e_Tick e \<le> ov_until (last h)
                          then ov_chainStart (last h) else e_Tick e))))
         )"
proof -
  let ?b = "signalHoldMaxTicks e" and ?now = "e_Tick e"
  let ?m = "foldl (applySignal ?b) (e\<lparr>e_appliedSig := [], e_sigLapses := []\<rparr>) ds"
  let ?h = "ov_hist (e_sigOv ?m) (pg_ID p)"
  let ?til = "ov_until (hold_entry ?now (tg_Dir d) ?b ?h)"
  let ?cs = "chain_start ?now (sg_Phase (tg_Dir d)) ?h"
  have inst: "installed e = applySignal ?b ?m d" by (simp add: installed_def assms(3))
  have v: "tg_SignalIdx d < length (e_Signals e)" "0 < sg_HoldTicks (tg_Dir d)"
    "sg_HoldTicks (tg_Dir d) \<le> ?b"
    using assms(1,3) by (auto simp: sigctl_inv_def verb_ok_def)
  have p: "p \<in> set (e_Signals e)" using v(1) assms(4) by simp
  have tick: "unat ?now + unat ?b < 18446744073709551616" using assms(5) by linarith
  have ok: "hist_ok ?b ?now ?h"
    using fold_apply_ok [of ?b "e\<lparr>e_appliedSig := [], e_sigLapses := []\<rparr>" ds] assms(1,3) tick
    by (simp add: sigctl_inv_def table_ok_def verb_ok_def)
  have "e_appliedSig (stepSignalOverrides e) = e_appliedSig (installed e)"
    by (simp add: step_installed)
  then have d': "d' = set_hold (if ?now < ?til then ?til - ?now else 0) (d\<lparr>tg_Tick := ?now\<rparr>)"
    using assms(4,6) by (simp add: inst applySignal_record Let_def)
  have hist: "ov_hist (e_sigOv (installed e)) (pg_ID p) = applied_hist ?now (tg_Dir d) ?b ?h"
    using assms(4) by (simp add: inst applySignal_hist)
  have okI: "hist_ok ?b ?now (ov_hist (e_sigOv (installed e)) (pg_ID p))"
    using installed_ok [OF assms(1) tick] by (simp add: table_ok_def)
  have others: "?h = ov_hist (e_sigOv e) (pg_ID p)" if "\<forall>x \<in> set ds. tg_SignalIdx x \<noteq> tg_SignalIdx d"
    using fold_apply_other [of "e\<lparr>e_appliedSig := [], e_sigLapses := []\<rparr>" "tg_SignalIdx d" ds ?b] that v(1) assms(1-4)
    by (simp add: sigctl_inv_def verb_ok_def)
  show ?thesis
  proof (cases "?now < ?til")
    case True
    have nowrap: "unat ?now + unat (sg_HoldTicks (tg_Dir d)) < 18446744073709551616"
      using v(3) tick by (simp add: word_le_nat_alt)
    with True have le: "?til - ?now \<le> sg_HoldTicks (tg_Dir d)"
      by (simp add: hold_entry_def Let_def hold_end_le)
    have cs: "?cs \<le> ?now" using ok by (auto simp: chain_start_def hist_ok_def intro: order.trans)
    let ?H = "fst (snd (supersede ?now ?h))" and ?E = "hold_entry ?now (tg_Dir d) ?b ?h"
    have ap: "applied_hist ?now (tg_Dir d) ?b ?h = ?H @ [?E]" using True by (simp add: applied_hist_def Let_def)
    have find: "find (\<lambda>ov. ov_covers ov t) (rev (ov_hist (e_sigOv (stepSignalOverrides e)) (pg_ID p))) =
        find (\<lambda>ov. ov_covers ov t) (rev (?H @ [?E]))" if "?now \<le> t" for t
    proof -
      have "unat ?now \<le> unat t + unat (pg_clearance p) + 1" using that by (simp add: word_le_nat_alt)
      from retained_find [OF okI assms(5) this] show ?thesis by (simp only: step_retained [OF assms(2) p] hist ap)
    qed
    have held: "sigPhaseAt (stepSignalOverrides e) p t = (sg_Phase (tg_Dir d), t - ?now)" if "?now \<le> t" "t < ?til" for t
      using that find [OF that(1)] by (simp add: sigPhaseAt_def) (simp add: hold_entry_def ov_covers_def Let_def)
    have over: "sigPhaseAt (stepSignalOverrides e) p t = phaseAtElapsed p t" if "?til \<le> t" for t
    proof -
      have t: "?now \<le> t" using that True by simp
      have "find (\<lambda>ov. ov_covers ov t) (rev (?H @ [?E])) = None"
        using supersede_ok(2) [OF ok] that t by (auto simp: find_None_iff ov_covers_def not_less intro: order.trans)
      then show ?thesis using find [OF t] by (simp add: sigPhaseAt_def)
    qed
    have "?now \<le> ?til + pg_clearance p"
    proof -
      have "unat ?til \<le> unat ?now + unat ?b"
        using hold_end_bounds [OF cs tick] cs by (simp add: hold_entry_def Let_def word_le_nat_alt) (meson add_right_mono order.trans)
      then have "unat (?til + pg_clearance p) = unat ?til + unat (pg_clearance p)"
        using assms(5) by (intro u64_add_no_wrap) linarith
      then show ?thesis using True by (simp add: word_le_nat_alt word_less_nat_alt)
    qed
    then have last: "last (ov_hist (e_sigOv (stepSignalOverrides e)) (pg_ID p)) = ?E"
      by (simp only: step_retained [OF assms(2) p] hist ap retained_def) simp
    have rec: "sg_HoldTicks (tg_Dir d') = ?til - ?now" using True d' by (simp add: set_hold_def)
    have min: "unat (?til - ?now) = min (unat (sg_HoldTicks (tg_Dir d))) (unat ?cs + unat ?b - unat ?now)"
      using hold_end_min [OF cs tick v(3)] True by (simp add: hold_entry_def Let_def)
    have E: "?E = \<lparr>ov_phase = sg_Phase (tg_Dir d), ov_since = ?now, ov_until = ?now + (?til - ?now), ov_chainStart = ?cs,
        ov_requestID = sg_RequestID (tg_Dir d)\<rparr>"
      by (simp add: hold_entry_def Let_def)
    have chain: "?cs = (if ov_hist (e_sigOv e) (pg_ID p) \<noteq> [] \<and> ov_phase (last (ov_hist (e_sigOv e) (pg_ID p))) = sg_Phase (tg_Dir d) \<and>
          ?now \<le> ov_until (last (ov_hist (e_sigOv e) (pg_ID p)))
        then ov_chainStart (last (ov_hist (e_sigOv e) (pg_ID p))) else ?now)"
      if "\<forall>x \<in> set ds. tg_SignalIdx x \<noteq> tg_SignalIdx d"
      unfolding others [OF that] chain_start_def ..
    have nz: "?til - ?now \<noteq> 0" using True by auto
    have fin: "?now + (?til - ?now) = ?til" by simp
    have stamp: "tg_Tick d' = ?now" "sg_RequestID (tg_Dir d') = sg_RequestID (tg_Dir d)" using d' by (simp_all add: set_hold_def)
    show ?thesis
      unfolding rec if_not_P [OF nz] Let_def fin
    proof (intro conjI allI impI exI [of _ ?cs])
      show "last (ov_hist (e_sigOv (stepSignalOverrides e)) (pg_ID p)) = \<lparr>ov_phase = sg_Phase (tg_Dir d), ov_since = ?now,
          ov_until = ?til, ov_chainStart = ?cs, ov_requestID = sg_RequestID (tg_Dir d)\<rparr>"
        using trans [OF last E] unfolding fin .
    qed (use stamp le held over min chain in blast)+
  next
    case False
    note decl = declined_at_bound [OF ok tick v(2,3) False]
    then have "ov_hist (e_sigOv (installed e)) (pg_ID p) = ?h"
      using False supersede_truncated [of ?h ?now] by (simp add: hist applied_hist_def Let_def)
    then show ?thesis
      using False decl d' by (auto simp: set_hold_def intro!: bexI [of _ "last ?h"])
  qed
qed


subsection \<open>Witnesses and a hole in the rail\<close>

definition demo_verb :: SignalDirective where
  "demo_verb = \<lparr>sg_RequestID = ''v1'', sg_Signal = ''j1'', sg_Phase = 2, sg_HoldTicks = 50\<rparr>"

definition demo_start :: Engine where
  "demo_start = demo_engine\<lparr>e_sigOv := []\<rparr>"

definition demo_buffered :: Engine where
  "demo_buffered = demo_start\<lparr>e_sigNew :=
     [\<lparr>tg_Tick = 0, tg_SignalIdx = 0, tg_Dir = demo_verb\<rparr>]\<rparr>"

lemma demo_bound_ticks: "e_Params e = demo_params \<Longrightarrow> signalHoldMaxTicks e = 3000"
proof -
  assume "e_Params e = demo_params"
  moreover have "to_ticks (f64_lit 300 1) (f64_lit 1 10) = 3000" by code_simp
  ultimately show ?thesis
    by (simp add: signalHoldMaxTicks_def SignalHoldMaxSeconds_def demo_params_def demo_ticks)
qed

lemma demo_frame [simp]:
  "e_Params demo_start = demo_params" "e_Params demo_buffered = demo_params"
  "e_Tick demo_start = 25" "e_Tick demo_buffered = 25"
  "e_Signals demo_start = [demo_compiled]" "e_Signals demo_buffered = [demo_compiled]"
  by (simp_all add: demo_start_def demo_buffered_def demo_engine_def demo_net_def)

lemma demo_enqueue: "EnqueueSignal demo_verb demo_start = Inr demo_buffered"
proof -
  have "e_sigNew demo_start = []" "e_sigOv demo_start = []"
    by (simp_all add: demo_start_def demo_engine_def)
  moreover have "length (pg_Phases demo_compiled) = 3" "pg_ID demo_compiled = ''j1''"
    by (simp_all add: demo_compiled_def demo_program_def demo_phases_def)
  ultimately show ?thesis
    by (simp add: EnqueueSignal_def MaxRequestIDBytes_def demo_verb_def demo_bound_ticks
        demo_buffered_def)
qed

lemma demo_init: "sigctl_init demo_start"
  by (simp add: sigctl_init_def demo_compiled_ok) (simp add: demo_start_def demo_engine_def)

lemma demo_buffered_inv: "sigctl_inv demo_buffered"
  using enqueue_inv [OF demo_enqueue init_inv [OF demo_init]] by blast

lemma starvation_rail_witness:
  "sigPhaseAt (stepSignalOverrides (tick_up demo_buffered)) demo_compiled 3026
   = phaseAtElapsed demo_compiled 3026"
proof -
  have "sigctl_reach demo_start (stepSignalOverrides (tick_up demo_buffered))"
    by (rule sigctl_reach.boundary [OF sigctl_reach.enqueue [OF sigctl_reach.start demo_enqueue]])
      (simp add: demo_bound_ticks)
  from starvation_rail [OF this demo_init] show ?thesis
    by (simp add: demo_bound_ticks)
qed

lemma lapses_exact_witness:
  "e_sigLapses (stepSignalOverrides demo_buffered) =
   lapse_of 25 demo_compiled (ov_hist (e_sigOv (stepSignalOverrides demo_buffered)) ''j1'')"
  using lapses_exact [OF demo_buffered_inv]
  by (simp add: demo_bound_ticks demo_compiled_def demo_program_def)

lemma retention_sound_witness:
  "sigPhaseAt (stepSignalOverrides demo_buffered) demo_compiled 25
   = sigPhaseAt (installed demo_buffered) demo_compiled 25"
  using retention_sound [OF demo_buffered_inv, of demo_compiled 25]
  by (simp add: demo_bound_ticks) (simp add: demo_compiled_def)

lemma verb_takes_effect_witness:
  "sigPhaseAt (stepSignalOverrides demo_buffered) demo_compiled 74 = (2, 49)"
proof -
  have n: "e_sigNew demo_buffered = [] @ [\<lparr>tg_Tick = 0, tg_SignalIdx = 0, tg_Dir = demo_verb\<rparr>]"
    by (simp add: demo_buffered_def)
  have d: "last (e_appliedSig (stepSignalOverrides demo_buffered))
           = \<lparr>tg_Tick = 25, tg_SignalIdx = 0, tg_Dir = demo_verb\<rparr>"
    by code_simp
  have o: "unat (e_Tick demo_buffered) + unat (signalHoldMaxTicks demo_buffered)
      + unat (pg_clearance demo_compiled) < 18446744073709551616"
    by (simp add: demo_bound_ticks demo_compiled_def)
  from verb_takes_effect [OF demo_buffered_inv _ n _ _ d [symmetric], of demo_compiled]
  show ?thesis using o by (simp add: demo_verb_def)
qed

text \<open>
  The rail counts a chain from the first of an unbroken run of same-phase holds. A boundary
  that receives a verb for another phase and then a verb for the held phase starts a new chain,
  although the other phase governed no tick (its entry is dropped as empty). With a bound of
  three ticks, such a pair at every boundary keeps phase 2 for as long as the client likes.
\<close>

definition rail_engine :: Engine where
  "rail_engine = demo_start\<lparr>e_Params := demo_params\<lparr>p_Dt := f64_lit 100 1\<rparr>, e_Tick := 0\<rparr>"

definition verb_pair :: "nat \<Rightarrow> SignalDirective list" where
  "verb_pair k =
     [\<lparr>sg_RequestID = replicate (Suc k) CHR ''x'', sg_Signal = ''j1'', sg_Phase = 1, sg_HoldTicks = 3\<rparr>,
      \<lparr>sg_RequestID = replicate (Suc k) CHR ''y'', sg_Signal = ''j1'', sg_Phase = 2, sg_HoldTicks = 3\<rparr>]"

fun enqueue_all :: "SignalDirective list \<Rightarrow> Engine \<Rightarrow> sigctl_error + Engine" where
  "enqueue_all [] e = Inr e"
| "enqueue_all (d # ds) e = (case EnqueueSignal d e of Inl x \<Rightarrow> Inl x | Inr e' \<Rightarrow> enqueue_all ds e')"

fun rail_run :: "nat \<Rightarrow> sigctl_error + Engine" where
  "rail_run 0 = Inr rail_engine"
| "rail_run (Suc k) =
     (case rail_run k of Inl x \<Rightarrow> Inl x
      | Inr e \<Rightarrow> (case enqueue_all (verb_pair k) e of Inl x \<Rightarrow> Inl x
        | Inr e' \<Rightarrow> Inr (stepSignalOverrides (tick_up e'))))"

text \<open>
  The cumulative bound can be bypassed. The bound of the engine is three ticks and the
  schedule shows phase 0 throughout, yet after four boundaries that each accept a verb for
  phase 1 followed by one for phase 2, every one of the ticks 1 to 4 showed phase 2, and the
  hold in force still has three ticks to go.
\<close>

lemma rail_bypass:
  "signalHoldMaxTicks rail_engine = 3 \<and>
   list_all (\<lambda>k. case rail_run k of Inl _ \<Rightarrow> False | Inr e \<Rightarrow>
      unat (e_Tick e) = k \<and> sigPhaseAt e demo_compiled (e_Tick e) = (2, 0) \<and>
      phaseAt demo_compiled (e_Tick e) = 0 \<and>
      sigPhaseAt e demo_compiled (e_Tick e + 2) = (2, 2)) [1, 2, 3, 4]"
  by code_simp

end
