(* ===== verification/Director.thy ===== *)
theory Director
  imports SigCtl
begin

text \<open>
  \<open>engine/director.go\<close>: validation and buffering of a director's spawn directive
  (\<open>EnqueueSpawn\<close>). \<open>byID\<close> is a search by id: the network loader refuses duplicate lane ids.
  The injection of the queued directives is in \<open>Spawn\<close>.
\<close>

definition LaneByID :: "Network \<Rightarrow> string \<Rightarrow> nat option" where
  "LaneByID net lid = find_index (\<lambda>l. l_ID l = lid) (n_Lanes net)"

fun origin_scan :: "Network \<Rightarrow> string \<Rightarrow> nat list \<Rightarrow> nat option" where
  "origin_scan net lid [] = None"
| "origin_scan net lid (k # ks) = (if l_ID (n_Lanes net ! k) = lid then Some k else origin_scan net lid ks)"

definition OriginByID :: "Network \<Rightarrow> string \<Rightarrow> nat option" where
  "OriginByID net lid = origin_scan net lid (n_Origins net)"

datatype spawn_error =
    Spawn_id_too_long nat
  | Spawn_bad_offset f64
  | Spawn_unknown_lane string
  | Spawn_offset_past_end string
  | Spawn_not_origin string
  | Spawn_unknown_destination string
  | Spawn_destination_wall string
  | Spawn_unknown_type string
  | Spawn_duplicate_queued string
  | Spawn_duplicate_buffered string

definition is_NaN :: "f64 \<Rightarrow> bool" where "is_NaN x \<longleftrightarrow> \<not> feq x x"

text \<open>The lane a directive injects on: a network origin, or any lane with a positive offset.\<close>

definition spawn_lane :: "SpawnDirective \<Rightarrow> Network \<Rightarrow> spawn_error + nat" where
  "spawn_lane d net =
     (if flt (sd_OffsetM d) 0 \<or> is_NaN (sd_OffsetM d) then Inl (Spawn_bad_offset (sd_OffsetM d))
      else if flt 0 (sd_OffsetM d) then
        (case LaneByID net (sd_Origin d) of
           None \<Rightarrow> Inl (Spawn_unknown_lane (sd_Origin d))
         | Some k \<Rightarrow> if fle (l_Length (n_Lanes net ! k)) (sd_OffsetM d)
             then Inl (Spawn_offset_past_end (sd_Origin d)) else Inr k)
      else (case OriginByID net (sd_Origin d) of
          Some k \<Rightarrow> Inr k
        | None \<Rightarrow> if LaneByID net (sd_Origin d) = None then Inl (Spawn_unknown_lane (sd_Origin d))
            else Inl (Spawn_not_origin (sd_Origin d))))"

definition check_destination :: "SpawnDirective \<Rightarrow> Network \<Rightarrow> spawn_error + unit" where
  "check_destination d net =
     (if sd_Destination d = [] then Inr ()
      else case LaneByID net (sd_Destination d) of
          None \<Rightarrow> Inl (Spawn_unknown_destination (sd_Destination d))
        | Some k \<Rightarrow> if l_EndWall (n_Lanes net ! k) then Inl (Spawn_destination_wall (sd_Destination d))
            else Inr ())"

definition EnqueueSpawn :: "SpawnDirective \<Rightarrow> Engine \<Rightarrow> spawn_error + Engine" where
  "EnqueueSpawn d e =
     (if MaxRequestIDBytes < int (length (sd_RequestID d))
      then Inl (Spawn_id_too_long (length (sd_RequestID d)))
      else bindE (spawn_lane d (e_Net e)) (\<lambda>lane.
        bindE (check_destination d (e_Net e)) (\<lambda>_.
        case find_index (\<lambda>t. vt_Name t = sd_TypeName d) (e_Types e) of
          None \<Rightarrow> Inl (Spawn_unknown_type (sd_TypeName d))
        | Some ti \<Rightarrow>
            if list_ex (\<lambda>q. sd_RequestID (ts_Dir q) = sd_RequestID d) (e_dirQueue e)
            then Inl (Spawn_duplicate_queued (sd_RequestID d))
            else if list_ex (\<lambda>q. sd_RequestID (ts_Dir q) = sd_RequestID d) (e_dirNew e)
            then Inl (Spawn_duplicate_buffered (sd_RequestID d))
            else Inr (e\<lparr>e_dirNew := e_dirNew e @
              [\<lparr>ts_Tick = 0, ts_TypeIdx = ti, ts_LaneIdx = lane, ts_Dir = d\<rparr>]\<rparr>))))"

subsection \<open>The queue of directives\<close>

definition net_ok :: "Network \<Rightarrow> bool" where
  "net_ok net \<longleftrightarrow> list_all (\<lambda>k. k < length (n_Lanes net)) (n_Origins net)"

text \<open>Resolved, within range, with request ids that identify a live directive.\<close>

definition spawns_ok :: "Engine \<Rightarrow> bool" where
  "spawns_ok e \<longleftrightarrow> distinct (map (sd_RequestID \<circ> ts_Dir) (e_dirQueue e @ e_dirNew e)) \<and>
     list_all (\<lambda>d. ts_LaneIdx d < length (e_Lanes e) \<and> ts_TypeIdx d < length (e_Types e) \<and>
       sd_Origin (ts_Dir d) = l_ID (e_Lanes e ! ts_LaneIdx d) \<and>
       sd_TypeName (ts_Dir d) = vt_Name (e_Types e ! ts_TypeIdx d) \<and>
       int (length (sd_RequestID (ts_Dir d))) \<le> MaxRequestIDBytes) (e_dirQueue e @ e_dirNew e)"

lemma origin_scan_Some:
  "origin_scan net lid ks = Some k \<Longrightarrow> k \<in> set ks \<and> l_ID (n_Lanes net ! k) = lid"
  by (induction ks) (auto split: if_splits)

lemma spawn_lane_sound:
  assumes "spawn_lane d net = Inr k" and "net_ok net"
  shows "k < length (n_Lanes net) \<and> l_ID (n_Lanes net ! k) = sd_Origin d"
  using assms origin_scan_Some [of net "sd_Origin d" "n_Origins net"]
  by (auto simp: spawn_lane_def LaneByID_def OriginByID_def net_ok_def list_all_iff find_index_Some_iff
      split: if_splits option.splits)

lemma EnqueueSpawn_Inr:
  assumes "EnqueueSpawn d e = Inr e'"
  obtains lane ti where "spawn_lane d (e_Net e) = Inr lane" "check_destination d (e_Net e) = Inr ()"
    "find_index (\<lambda>t. vt_Name t = sd_TypeName d) (e_Types e) = Some ti"
    "sd_RequestID d \<notin> set (map (sd_RequestID \<circ> ts_Dir) (e_dirQueue e @ e_dirNew e))"
    "int (length (sd_RequestID d)) \<le> MaxRequestIDBytes"
    "e' = e\<lparr>e_dirNew := e_dirNew e @ [\<lparr>ts_Tick = 0, ts_TypeIdx = ti, ts_LaneIdx = lane, ts_Dir = d\<rparr>]\<rparr>"
proof -
  have len: "int (length (sd_RequestID d)) \<le> MaxRequestIDBytes"
    using assms by (simp add: EnqueueSpawn_def not_less split: if_splits)
  obtain lane where lane: "spawn_lane d (e_Net e) = Inr lane"
    using assms by (auto simp: EnqueueSpawn_def bindE_Inr_iff split: if_splits)
  have dest: "check_destination d (e_Net e) = Inr ()"
    using assms by (auto simp: EnqueueSpawn_def bindE_Inr_iff split: if_splits)
  obtain ti where ti: "find_index (\<lambda>t. vt_Name t = sd_TypeName d) (e_Types e) = Some ti"
    using assms lane dest by (auto simp: EnqueueSpawn_def split: if_splits option.splits)
  note r = assms [unfolded EnqueueSpawn_def lane dest ti bindE.simps option.case]
  have "sd_RequestID d \<notin> set (map (sd_RequestID \<circ> ts_Dir) (e_dirQueue e @ e_dirNew e))"
    and "e' = e\<lparr>e_dirNew := e_dirNew e @ [\<lparr>ts_Tick = 0, ts_TypeIdx = ti, ts_LaneIdx = lane, ts_Dir = d\<rparr>]\<rparr>"
    using r by (auto simp: list_ex_iff split: if_splits)
  then show ?thesis using that lane dest ti len by blast
qed

lemma EnqueueSpawn_ok:
  assumes "EnqueueSpawn d e = Inr e'" and "spawns_ok e" and "net_ok (e_Net e)"
  shows "spawns_ok e'"
proof (rule EnqueueSpawn_Inr [OF assms(1)])
  fix lane ti
  assume "spawn_lane d (e_Net e) = Inr lane"
    and t: "find_index (\<lambda>t. vt_Name t = sd_TypeName d) (e_Types e) = Some ti"
    and "sd_RequestID d \<notin> set (map (sd_RequestID \<circ> ts_Dir) (e_dirQueue e @ e_dirNew e))"
    "int (length (sd_RequestID d)) \<le> MaxRequestIDBytes"
    "e' = e\<lparr>e_dirNew := e_dirNew e @ [\<lparr>ts_Tick = 0, ts_TypeIdx = ti, ts_LaneIdx = lane, ts_Dir = d\<rparr>]\<rparr>"
  moreover have "ti < length (e_Types e)" "vt_Name (e_Types e ! ti) = sd_TypeName d"
    using t by (simp_all add: find_index_Some_iff)
  ultimately show "spawns_ok e'"
    using assms(2) spawn_lane_sound [OF _ assms(3)] by (auto simp: spawns_ok_def)
qed

end
