(* ===== verification/Contract.thy ===== *)
theory Contract
  imports IntentBus Director
begin

text \<open>
  \<open>engine/natsio/contract.go\<close>: the contract layer between the engine and its controllers:
  attach handshakes, exclusive claims, director verbs, hold-last re-issues, liveness and the
  pause gate. Wire callbacks only buffer requests; every operation below runs between ticks.
  A \<open>*controller\<close> is its id: ids are assigned once, and the invariant shows that the maps only
  hold attached ones. JSON payloads arrive decoded, or as the decoder's message. The wall clock,
  the outcome of a record write and of publishing an observation are arguments. Log lines, the
  counter of published events and the observation frames themselves are left out.
\<close>

subsection \<open>Data\<close>

record ContractConfig =
  cc_PauseAfterTicks :: u64
  cc_DetachAfterTicks :: u64
  cc_HoldLastTicks :: u64
  cc_PaceFloor :: int
  cc_PauseLogEvery :: int
  cc_PauseEscapeAfter :: int

definition withDefaults :: "ContractConfig \<Rightarrow> ContractConfig" where
  "withDefaults c = c\<lparr>
     cc_PauseAfterTicks := (if cc_PauseAfterTicks c = 0 then 5 else cc_PauseAfterTicks c),
     cc_DetachAfterTicks := (if cc_DetachAfterTicks c = 0 then 10 else cc_DetachAfterTicks c),
     cc_HoldLastTicks := (if cc_HoldLastTicks c = 0 then 2 else cc_HoldLastTicks c),
     cc_PauseLogEvery := (if cc_PauseLogEvery c = 0 then 10000000000 else cc_PauseLogEvery c),
     cc_PauseEscapeAfter := (if cc_PauseEscapeAfter c = 0 then 60000000000 else cc_PauseEscapeAfter c)\<rparr>"

record ObsWindow =
  ow_RadiusM :: f64
  ow_MaxNeighbors :: int
  ow_Features :: u16

record HelloRequest =
  hr_ContractVersion :: int
  hr_ControllerType :: string
  hr_CadenceTicks :: u64
  hr_Grants :: "string list"
  hr_ClaimCapacity :: int
  hr_Claims :: "u64 list"
  hr_Window :: ObsWindow

datatype hello_reason =
    Hello_bad_payload string
  | Hello_version int
  | Hello_cadence u64 u64
  | Hello_unknown_grant string
  | Hello_no_grants
  | Hello_capacity

record HelloReply =
  hp_Accepted :: bool
  hp_ControllerID :: string
  hp_Grants :: "string list"
  hp_Claims :: "u64 list"
  hp_ContractVersion :: int
  hp_Run :: string
  hp_Tick :: u64
  hp_Reason :: "hello_reason option"

datatype claim_reason = Claim_not_attached | Claim_no_drive | Claim_bad_payload string

record ClaimReply =
  cp_Granted :: "u64 list"
  cp_Rejected :: "u64 list"
  cp_Reason :: "claim_reason option"

record ReleaseRequest =
  rr_VehicleIDs :: "u64 list"
  rr_Detach :: bool

record VerbRequest =
  vq_Verb :: string
  vq_RequestID :: string
  vq_Origin :: string
  vq_VType :: string
  vq_EarliestTick :: u64
  vq_Destination :: string
  vq_OffsetM :: f64
  vq_Signal :: string
  vq_Phase :: "int option"
  vq_HoldTicks :: u64

datatype verb_reason =
    Verb_bad_payload string
  | Verb_not_attached
  | Verb_no_grant
  | Verb_unsupported string
  | Verb_missing_id
  | Verb_id_too_long nat
  | Verb_missing_phase
  | Verb_spawn_refused spawn_error
  | Verb_signal_refused sigctl_error

record VerbReply =
  vr_Accepted :: bool
  vr_Verb :: string
  vr_RequestID :: string
  vr_Duplicate :: bool
  vr_Reason :: "verb_reason option"

record ContractEvent =
  ev_Type :: string
  ev_Tick :: u64
  ev_ControllerID :: string
  ev_VehicleIDs :: "u64 list"
  ev_Reason :: string
  ev_Demand :: int
  ev_Available :: int

record controller =
  ct_id :: string
  ct_ctype :: string
  ct_cadence :: u64
  ct_grant :: u8
  ct_grants :: "string list"
  ct_capacity :: int
  ct_window :: ObsWindow
  ct_claims :: "u64 list"
  ct_lastSeen :: u64
  ct_seq :: u64
  ct_obsErrRun :: u64

record holdState =
  hs_intent :: Intent
  hs_lastFresh :: u64
  hs_cadence :: u64
  hs_grant :: u8
  hs_ctrlID :: string
  hs_seq :: u64

datatype reply = Hello_reply HelloReply | Claim_reply ClaimReply | Verb_reply VerbReply

datatype ctlReq =
    ReqHello string "string + HelloRequest"
  | ReqClaim string string "string + u64 list"
  | ReqRelease string "string + ReleaseRequest"
  | ReqHeartbeat string
  | ReqVerb string string "string + VerbRequest"

record Contract =
  k_run :: string
  k_cfg :: ContractConfig
  k_reqs :: "ctlReq list"
  k_ctrls :: "(string \<times> controller) list"
  k_byVehicle :: "u64 \<Rightarrow> string option"
  k_hold :: "(u64 \<times> holdState) list"
  k_legacySeqs :: "string \<Rightarrow> u64"
  k_announced :: "u64 list"
  k_verbs :: "string \<Rightarrow> VerbReply option"
  k_nextID :: nat
  k_driveSeen :: bool
  k_deficit :: u64
  k_paused :: bool
  k_pausedAt :: int
  k_pauseLogAt :: int
  k_escaped :: bool
  k_claimViolations :: u64
  k_obsErrs :: u64
  k_obsErrMaxRun :: u64
  k_obsOut :: u64
  k_events :: "(string \<times> ContractEvent) list"
  k_replies :: "(string \<times> reply) list"

definition NewContract :: "string \<Rightarrow> ContractConfig \<Rightarrow> Contract" where
  "NewContract run cfg = \<lparr>k_run = run, k_cfg = withDefaults cfg, k_reqs = [], k_ctrls = [],
     k_byVehicle = (\<lambda>_. None), k_hold = [], k_legacySeqs = (\<lambda>_. 0), k_announced = [],
     k_verbs = (\<lambda>_. None), k_nextID = 0, k_driveSeen = False, k_deficit = 0, k_paused = False,
     k_pausedAt = 0, k_pauseLogAt = 0, k_escaped = False, k_claimViolations = 0, k_obsErrs = 0,
     k_obsErrMaxRun = 0, k_obsOut = 0, k_events = [], k_replies = []\<rparr>"

definition SubjectEventClaim :: "string \<Rightarrow> string" where
  "SubjectEventClaim run = ''ts.'' @ run @ ''.ctl.events.claim''"
definition SubjectEventRelease :: "string \<Rightarrow> string" where
  "SubjectEventRelease run = ''ts.'' @ run @ ''.ctl.events.release''"
definition SubjectEventUnclaimed :: "string \<Rightarrow> string" where
  "SubjectEventUnclaimed run = ''ts.'' @ run @ ''.ctl.events.unclaimed''"
definition SubjectEventPause :: "string \<Rightarrow> string" where
  "SubjectEventPause run = ''ts.'' @ run @ ''.ctl.events.pause''"

definition publishEvent :: "string \<Rightarrow> ContractEvent \<Rightarrow> Contract \<Rightarrow> Contract" where
  "publishEvent subject evt c = c\<lparr>k_events := k_events c @ [(subject, evt)]\<rparr>"

definition respond :: "string \<Rightarrow> reply \<Rightarrow> Contract \<Rightarrow> Contract" where
  "respond rs r c = (if rs = [] then c else c\<lparr>k_replies := k_replies c @ [(rs, r)]\<rparr>)"

definition fleet_event :: "string \<Rightarrow> u64 \<Rightarrow> string \<Rightarrow> u64 list \<Rightarrow> string \<Rightarrow> ContractEvent" where
  "fleet_event ty tick cid vids reason = \<lparr>ev_Type = ty, ev_Tick = tick, ev_ControllerID = cid,
     ev_VehicleIDs = vids, ev_Reason = reason, ev_Demand = 0, ev_Available = 0\<rparr>"

text \<open>\<open>bind\<close>: the callback buffers one request; the claim, release, heartbeat and verb subjects
  carry the controller id as the fifth token.\<close>

definition onRequest :: "ctlReq \<Rightarrow> Contract \<Rightarrow> Contract" where
  "onRequest r c = c\<lparr>k_reqs := k_reqs c @ [r]\<rparr>"

subsection \<open>Claims\<close>

definition upd_ctl :: "string \<Rightarrow> (controller \<Rightarrow> controller) \<Rightarrow> Contract \<Rightarrow> Contract" where
  "upd_ctl cid f c = c\<lparr>k_ctrls := AList.map_entry cid f (k_ctrls c)\<rparr>"

definition adopt :: "controller \<Rightarrow> holdState \<Rightarrow> holdState" where
  "adopt ctl h = h\<lparr>hs_ctrlID := ct_id ctl, hs_cadence := ct_cadence ctl, hs_grant := ct_grant ctl, hs_seq := 0\<rparr>"

definition tryClaim :: "Engine \<Rightarrow> controller \<Rightarrow> u64 \<Rightarrow> Contract \<Rightarrow> bool \<times> Contract" where
  "tryClaim e ctl vid c =
     (let owner = k_byVehicle c vid in
      if owner \<noteq> None \<and> owner \<noteq> Some (ct_id ctl) then (False, c)
      else if vehicleByID e vid = None then (False, c)
      else if owner = None then
        (True, (upd_ctl (ct_id ctl) (\<lambda>x. x\<lparr>ct_claims := vid # ct_claims x\<rparr>) c)
          \<lparr>k_byVehicle := (k_byVehicle c)(vid := Some (ct_id ctl)),
           k_announced := removeAll vid (k_announced c),
           k_hold := AList.map_entry vid (adopt ctl) (k_hold c)\<rparr>)
      else (True, c))"

fun claim_each :: "Engine \<Rightarrow> controller \<Rightarrow> u64 list \<Rightarrow> Contract \<Rightarrow> u64 list \<times> u64 list \<times> Contract" where
  "claim_each e ctl [] c = ([], [], c)"
| "claim_each e ctl (v # vs) c =
     (let (ok, c1) = tryClaim e ctl v c; (g, rej, c2) = claim_each e ctl vs c1 in
      if ok then (v # g, rej, c2) else (g, v # rej, c2))"

definition claim_event :: "Engine \<Rightarrow> string \<Rightarrow> u64 list \<Rightarrow> Contract \<Rightarrow> Contract" where
  "claim_event e cid vids c =
     (if vids = [] then c
      else publishEvent (SubjectEventClaim (k_run c)) (fleet_event ''claim'' (e_Tick e) cid vids []) c)"

definition handleClaim :: "Engine \<Rightarrow> string \<Rightarrow> string \<Rightarrow> string + u64 list \<Rightarrow> Contract \<Rightarrow> Contract" where
  "handleClaim e cid rs payload c =
     (let none = \<lparr>cp_Granted = [], cp_Rejected = [], cp_Reason = None\<rparr> in
      case map_of (k_ctrls c) cid of
        None \<Rightarrow> respond rs (Claim_reply (none\<lparr>cp_Reason := Some Claim_not_attached\<rparr>)) c
      | Some ctl \<Rightarrow>
          (let c1 = upd_ctl cid (\<lambda>x. x\<lparr>ct_lastSeen := e_Tick e\<rparr>) c in
           if ''drive'' \<notin> set (ct_grants ctl)
           then respond rs (Claim_reply (none\<lparr>cp_Reason := Some Claim_no_drive\<rparr>)) c1
           else case payload of
               Inl err \<Rightarrow> respond rs (Claim_reply (none\<lparr>cp_Reason := Some (Claim_bad_payload err)\<rparr>)) c1
             | Inr vids \<Rightarrow>
                 (let (g, rej, c2) = claim_each e ctl vids c1; g' = sort g in
                  respond rs (Claim_reply \<lparr>cp_Granted = g', cp_Rejected = rej, cp_Reason = None\<rparr>)
                    (claim_event e cid g' c2))))"

subsection \<open>Attaching\<close>

fun collect_grants :: "string list \<Rightarrow> string list \<Rightarrow> u8 \<Rightarrow> string + (string list \<times> u8)" where
  "collect_grants [] gs lvl = Inr (gs, lvl)"
| "collect_grants (g # rest) gs lvl =
     (if g = ''drive'' then collect_grants rest (List.insert g gs) (if lvl < 1 then 1 else lvl)
      else if g = ''signal'' then collect_grants rest (List.insert g gs) (if lvl < 2 then 2 else lvl)
      else if g = ''director'' then collect_grants rest (List.insert g gs) 3
      else Inl g)"

text \<open>The checks of a hello: cadence, grants and grant level, or why it is refused.\<close>

definition hello_check :: "ContractConfig \<Rightarrow> string + HelloRequest \<Rightarrow>
    hello_reason + (HelloRequest \<times> u64 \<times> string list \<times> u8)" where
  "hello_check cfg payload =
     (case payload of
        Inl err \<Rightarrow> Inl (Hello_bad_payload err)
      | Inr req \<Rightarrow>
          if hr_ContractVersion req \<noteq> int SchemaVersion then Inl (Hello_version (hr_ContractVersion req))
          else let cadence = (if hr_CadenceTicks req = 0 then 1 else hr_CadenceTicks req) in
            if cc_DetachAfterTicks cfg \<le> cadence then Inl (Hello_cadence cadence (cc_DetachAfterTicks cfg))
            else case collect_grants (hr_Grants req) [] 0 of
                Inl g \<Rightarrow> Inl (Hello_unknown_grant g)
              | Inr (grants, lvl) \<Rightarrow>
                  if grants = [] then Inl Hello_no_grants
                  else if ''drive'' \<in> set grants \<and> hr_ClaimCapacity req < 1 then Inl Hello_capacity
                  else Inr (req, cadence, grants, lvl))"

definition handleHello :: "Engine \<Rightarrow> string \<Rightarrow> string + HelloRequest \<Rightarrow> Contract \<Rightarrow> Contract" where
  "handleHello e rs payload c =
     (let base = \<lparr>hp_Accepted = False, hp_ControllerID = [], hp_Grants = [], hp_Claims = [],
            hp_ContractVersion = int SchemaVersion, hp_Run = k_run c, hp_Tick = e_Tick e, hp_Reason = None\<rparr> in
      case hello_check (k_cfg c) payload of
        Inl why \<Rightarrow> respond rs (Hello_reply (base\<lparr>hp_Reason := Some why\<rparr>)) c
      | Inr (req, cadence, grants, lvl) \<Rightarrow>
          (let n = Suc (k_nextID c);
               ctl = \<lparr>ct_id = ''ctl-'' @ dec_string n, ct_ctype = hr_ControllerType req, ct_cadence = cadence,
                 ct_grant = lvl, ct_grants = grants, ct_capacity = hr_ClaimCapacity req,
                 ct_window = hr_Window req, ct_claims = [], ct_lastSeen = e_Tick e, ct_seq = 0, ct_obsErrRun = 0\<rparr>;
               c1 = c\<lparr>k_nextID := n, k_ctrls := AList.update (ct_id ctl) ctl (k_ctrls c),
                      k_driveSeen := (k_driveSeen c \<or> ''drive'' \<in> set grants)\<rparr>;
               (g, _, c2) = claim_each e ctl (hr_Claims req) c1; g' = sort g in
           respond rs (Hello_reply (base\<lparr>hp_Accepted := True, hp_ControllerID := ct_id ctl,
               hp_Grants := sort grants, hp_Claims := g'\<rparr>))
             (claim_event e (ct_id ctl) g' c2)))"

subsection \<open>Releasing and detaching\<close>

definition releaseOne :: "string \<Rightarrow> u64 \<Rightarrow> Contract \<Rightarrow> Contract" where
  "releaseOne cid vid c =
     (upd_ctl cid (\<lambda>x. x\<lparr>ct_claims := removeAll vid (ct_claims x)\<rparr>) c)
       \<lparr>k_byVehicle := (k_byVehicle c)(vid := None),
        k_hold := AList.map_entry vid (\<lambda>h. h\<lparr>hs_ctrlID := []\<rparr>) (k_hold c)\<rparr>"

definition announce :: "u64 list \<Rightarrow> Contract \<Rightarrow> Contract" where
  "announce vids c = c\<lparr>k_announced := fold List.insert vids (k_announced c)\<rparr>"

definition release_events :: "Engine \<Rightarrow> string \<Rightarrow> u64 list \<Rightarrow> string \<Rightarrow> Contract \<Rightarrow> Contract" where
  "release_events e cid vids reason c =
     (if vids = [] then c
      else publishEvent (SubjectEventUnclaimed (k_run c)) (fleet_event ''unclaimed'' (e_Tick e) cid vids reason)
        (publishEvent (SubjectEventRelease (k_run c)) (fleet_event ''release'' (e_Tick e) cid vids reason) c))"

definition detach :: "Engine \<Rightarrow> string \<Rightarrow> string \<Rightarrow> Contract \<Rightarrow> Contract" where
  "detach e cid reason c =
     (case map_of (k_ctrls c) cid of
        None \<Rightarrow> c
      | Some ctl \<Rightarrow>
          (let ids = sort (ct_claims ctl); c1 = c\<lparr>k_ctrls := AList.delete cid (k_ctrls c)\<rparr> in
           release_events e cid ids reason (announce ids (fold (releaseOne cid) ids c1))))"

fun release_each :: "string \<Rightarrow> u64 list \<Rightarrow> Contract \<Rightarrow> u64 list \<times> Contract" where
  "release_each cid [] c = ([], c)"
| "release_each cid (v # vs) c =
     (if k_byVehicle c v = Some cid
      then (let (r, c2) = release_each cid vs (releaseOne cid v c) in (v # r, c2))
      else release_each cid vs c)"

definition handleRelease :: "Engine \<Rightarrow> string \<Rightarrow> string + ReleaseRequest \<Rightarrow> Contract \<Rightarrow> Contract" where
  "handleRelease e cid payload c =
     (case map_of (k_ctrls c) cid of
        None \<Rightarrow> c
      | Some ctl \<Rightarrow>
          (let c1 = upd_ctl cid (\<lambda>x. x\<lparr>ct_lastSeen := e_Tick e\<rparr>) c in
           case payload of
             Inl _ \<Rightarrow> c1
           | Inr req \<Rightarrow>
               (let (released, c2) = release_each cid (rr_VehicleIDs req) c1; ids = sort released;
                    c3 = announce ids (release_events e cid ids ''release'' c2) in
                if rr_Detach req then detach e cid ''disconnect'' c3 else c3)))"

subsection \<open>Director verbs\<close>

definition run_verb :: "VerbRequest \<Rightarrow> Engine \<Rightarrow> verb_reason + Engine" where
  "run_verb req e =
     (if vq_Verb req = ''spawn'' then
        (case EnqueueSpawn \<lparr>sd_RequestID = vq_RequestID req, sd_Origin = vq_Origin req,
             sd_TypeName = vq_VType req, sd_EarliestTick = vq_EarliestTick req,
             sd_Destination = vq_Destination req, sd_OffsetM = vq_OffsetM req\<rparr> e of
           Inl err \<Rightarrow> Inl (Verb_spawn_refused err) | Inr e' \<Rightarrow> Inr e')
      else case vq_Phase req of
          None \<Rightarrow> Inl Verb_missing_phase
        | Some ph \<Rightarrow> (case EnqueueSignal \<lparr>sg_RequestID = vq_RequestID req, sg_Signal = vq_Signal req,
              sg_Phase = ph, sg_HoldTicks = vq_HoldTicks req\<rparr> e of
            Inl err \<Rightarrow> Inl (Verb_signal_refused err) | Inr e' \<Rightarrow> Inr e'))"

text \<open>The reply without its transport: the new engine, the new contract and the answer.\<close>

definition verb_answer :: "Engine \<Rightarrow> string \<Rightarrow> string + VerbRequest \<Rightarrow> Contract \<Rightarrow>
    Engine \<times> Contract \<times> VerbReply" where
  "verb_answer e cid payload c =
     (let none = \<lparr>vr_Accepted = False, vr_Verb = [], vr_RequestID = [], vr_Duplicate = False, vr_Reason = None\<rparr> in
      case payload of
        Inl err \<Rightarrow> (e, c, none\<lparr>vr_Reason := Some (Verb_bad_payload err)\<rparr>)
      | Inr req \<Rightarrow>
          (let rp = none\<lparr>vr_Verb := vq_Verb req, vr_RequestID := vq_RequestID req\<rparr> in
           case map_of (k_ctrls c) cid of
             None \<Rightarrow> (e, c, rp\<lparr>vr_Reason := Some Verb_not_attached\<rparr>)
           | Some ctl \<Rightarrow>
               (let c1 = upd_ctl cid (\<lambda>x. x\<lparr>ct_lastSeen := e_Tick e\<rparr>) c in
                if ''director'' \<notin> set (ct_grants ctl) then (e, c1, rp\<lparr>vr_Reason := Some Verb_no_grant\<rparr>)
                else if vq_Verb req \<noteq> ''spawn'' \<and> vq_Verb req \<noteq> ''signal_set''
                then (e, c1, rp\<lparr>vr_Reason := Some (Verb_unsupported (vq_Verb req))\<rparr>)
                else if vq_RequestID req = [] then (e, c1, rp\<lparr>vr_Reason := Some Verb_missing_id\<rparr>)
                else if MaxRequestIDBytes < int (length (vq_RequestID req))
                then (e, c1, rp\<lparr>vr_Reason := Some (Verb_id_too_long (length (vq_RequestID req)))\<rparr>)
                else case k_verbs c (vq_RequestID req) of
                    Some prev \<Rightarrow> (e, c1, prev\<lparr>vr_Duplicate := True\<rparr>)
                  | None \<Rightarrow>
                      (let (e', rp') = (case run_verb req e of
                          Inl why \<Rightarrow> (e, rp\<lparr>vr_Reason := Some why\<rparr>)
                        | Inr e1 \<Rightarrow> (e1, rp\<lparr>vr_Accepted := True\<rparr>)) in
                       (e', c1\<lparr>k_verbs := (k_verbs c1)(vq_RequestID req := Some rp')\<rparr>, rp')))))"

definition handleVerb :: "Engine \<Rightarrow> string \<Rightarrow> string \<Rightarrow> string + VerbRequest \<Rightarrow> Contract \<Rightarrow> Engine \<times> Contract" where
  "handleVerb e cid rs payload c =
     (let (e', c', rp) = verb_answer e cid payload c in (e', respond rs (Verb_reply rp) c'))"

subsection \<open>Liveness, capacity and the pause gate\<close>

definition drives :: "controller \<Rightarrow> bool" where "drives ctl \<longleftrightarrow> ''drive'' \<in> set (ct_grants ctl)"

definition driveCtlCount :: "Contract \<Rightarrow> nat" where
  "driveCtlCount c = length (filter (\<lambda>(_, ctl). drives ctl) (k_ctrls c))"

definition capacity :: "Engine \<Rightarrow> Contract \<Rightarrow> int \<times> int" where
  "capacity e c =
     (int (length (filter (\<lambda>v. k_byVehicle c (v_ID v) = None) (e_order e))),
      sum_list (map (\<lambda>(_, ctl). let spare = ct_capacity ctl - int (length (ct_claims ctl)) in
          if drives ctl \<and> 0 < spare then spare else 0) (k_ctrls c)))"

text \<open>\<open>rec\<close> is the record plane: the error of a failed write, if it fails.\<close>

definition emitPause :: "(ContractEvent \<Rightarrow> string option) \<Rightarrow> Engine \<Rightarrow> string \<Rightarrow> int \<Rightarrow> int \<Rightarrow> Contract \<Rightarrow>
    string + Contract" where
  "emitPause rec e kind demand avail c =
     (let evt = \<lparr>ev_Type = kind, ev_Tick = e_Tick e, ev_ControllerID = [], ev_VehicleIDs = [],
          ev_Reason = [], ev_Demand = demand, ev_Available = avail\<rparr> in
      case rec evt of
        Some err \<Rightarrow> Inl err
      | None \<Rightarrow> Inr (publishEvent (SubjectEventPause (k_run c)) evt c))"

definition process_req :: "ctlReq \<Rightarrow> Engine \<times> Contract \<Rightarrow> Engine \<times> Contract" where
  "process_req r ec =
     (let (e, c) = ec in
      case r of
        ReqHello rs p \<Rightarrow> (e, handleHello e rs p c)
      | ReqClaim cid rs p \<Rightarrow> (e, handleClaim e cid rs p c)
      | ReqRelease cid p \<Rightarrow> (e, handleRelease e cid p c)
      | ReqHeartbeat cid \<Rightarrow> (e, upd_ctl cid (\<lambda>x. x\<lparr>ct_lastSeen := e_Tick e\<rparr>) c)
      | ReqVerb cid rs p \<Rightarrow> handleVerb e cid rs p c)"

definition silent :: "Engine \<Rightarrow> ContractConfig \<Rightarrow> controller \<Rightarrow> bool" where
  "silent e cfg ctl \<longleftrightarrow> ct_lastSeen ctl < e_Tick e \<and> cc_DetachAfterTicks cfg < e_Tick e - ct_lastSeen ctl"

definition sweep_one :: "Engine \<Rightarrow> string \<Rightarrow> Contract \<Rightarrow> Contract" where
  "sweep_one e cid c =
     (case map_of (k_ctrls c) cid of
        None \<Rightarrow> c
      | Some ctl \<Rightarrow> if silent e (k_cfg c) ctl then detach e cid ''disconnect'' c else c)"

definition liveness_sweep :: "Engine \<Rightarrow> Contract \<Rightarrow> Contract" where
  "liveness_sweep e c =
     (if k_ctrls c \<noteq> [] \<and> 0 < cc_PaceFloor (k_cfg c)
      then fold (sweep_one e) (sort (map fst (k_ctrls c))) c else c)"

definition resume_check :: "(ContractEvent \<Rightarrow> string option) \<Rightarrow> int \<Rightarrow> Engine \<Rightarrow> Contract \<Rightarrow> string + Contract" where
  "resume_check rec now e c =
     (if \<not> k_paused c then Inr c
      else let (demand, avail) = capacity e c in
        if demand \<le> avail then emitPause rec e ''resume'' demand avail (c\<lparr>k_paused := False\<rparr>)
        else let c1 = (if cc_PauseLogEvery (k_cfg c) \<le> now - k_pauseLogAt c then c\<lparr>k_pauseLogAt := now\<rparr> else c) in
          if cc_PauseEscapeAfter (k_cfg c1) \<le> now - k_pausedAt c1
          then emitPause rec e ''resume'' demand avail (c1\<lparr>k_paused := False, k_escaped := True\<rparr>)
          else Inr c1)"

definition ProcessControl :: "(ContractEvent \<Rightarrow> string option) \<Rightarrow> int \<Rightarrow> Engine \<Rightarrow> Contract \<Rightarrow>
    string + (Engine \<times> Contract)" where
  "ProcessControl rec now e c =
     (let (e1, c1) = fold process_req (k_reqs c) (e, c\<lparr>k_reqs := []\<rparr>) in
      case resume_check rec now e1 (liveness_sweep e1 c1) of
        Inl err \<Rightarrow> Inl err | Inr c2 \<Rightarrow> Inr (e1, c2))"

subsection \<open>Draining intents\<close>

definition GrantDirector :: u8 where "GrantDirector = 3"

text \<open>One arrival: the keyed intent it becomes, if it passes the claim filter, and whether it is
  the claim holder's own.\<close>

definition drain_one :: "Engine \<Rightarrow> ArrivedIntent \<Rightarrow> Contract \<Rightarrow> KeyedIntent option \<times> bool \<times> Contract" where
  "drain_one e a c =
     (let vid = in_VehicleID (ar_Intent a) in
      case map_of (k_ctrls c) (ar_Controller a) of
        None \<Rightarrow>
          if k_byVehicle c vid \<noteq> None then (None, False, c\<lparr>k_claimViolations := k_claimViolations c + 1\<rparr>)
          else let n = k_legacySeqs c (ar_Controller a) + 1 in
            (Some \<lparr>ki_Controller = ar_Controller a, ki_Seq = n, ki_Grant = 0, ki_Held = False,
                   ki_Intent = ar_Intent a\<rparr>, False,
             c\<lparr>k_legacySeqs := (k_legacySeqs c)(ar_Controller a := n)\<rparr>)
      | Some ctl \<Rightarrow>
          (let cid = ar_Controller a; own = (drives ctl \<and> k_byVehicle c vid = Some cid);
               c1 = upd_ctl cid (\<lambda>x. x\<lparr>ct_lastSeen := e_Tick e\<rparr>) c in
           if \<not> own \<and> ct_grant ctl < GrantDirector
           then (None, False, c1\<lparr>k_claimViolations := k_claimViolations c1 + 1\<rparr>)
           else let n = ct_seq ctl + 1; c2 = upd_ctl cid (\<lambda>x. x\<lparr>ct_seq := n\<rparr>) c1 in
             (Some \<lparr>ki_Controller = cid, ki_Seq = n, ki_Grant = ct_grant ctl, ki_Held = False,
                    ki_Intent = ar_Intent a\<rparr>, own,
              if own
              then c2\<lparr>k_hold := AList.update vid \<lparr>hs_intent = ar_Intent a, hs_lastFresh = e_Tick e,
                  hs_cadence = ct_cadence ctl, hs_grant = ct_grant ctl, hs_ctrlID = cid, hs_seq = 0\<rparr> (k_hold c2)\<rparr>
              else c2)))"

fun drain_arrivals :: "Engine \<Rightarrow> ArrivedIntent list \<Rightarrow> Contract \<Rightarrow> KeyedIntent list \<times> u64 list \<times> Contract" where
  "drain_arrivals e [] c = ([], [], c)"
| "drain_arrivals e (a # as) c =
     (let (k, own, c1) = drain_one e a c; (ks, fresh, c2) = drain_arrivals e as c1 in
      ((case k of None \<Rightarrow> ks | Some x \<Rightarrow> x # ks),
       if own then in_VehicleID (ar_Intent a) # fresh else fresh, c2))"

definition hold_window :: "ContractConfig \<Rightarrow> holdState \<Rightarrow> u64" where
  "hold_window cfg h = (hs_cadence h - 1) + cc_HoldLastTicks cfg"

definition hold_live :: "ContractConfig \<Rightarrow> u64 \<Rightarrow> holdState \<Rightarrow> bool" where
  "hold_live cfg tick h \<longleftrightarrow> \<not> (tick \<le> hs_lastFresh h \<or> hold_window cfg h < tick - hs_lastFresh h)"

definition hold_one :: "Engine \<Rightarrow> u64 \<Rightarrow> Contract \<Rightarrow> KeyedIntent list \<times> Contract" where
  "hold_one e vid c =
     (case map_of (k_hold c) vid of
        None \<Rightarrow> ([], c)
      | Some h \<Rightarrow>
          if \<not> hold_live (k_cfg c) (e_Tick e) h then ([], c\<lparr>k_hold := AList.delete vid (k_hold c)\<rparr>)
          else let key = (\<lambda>n. \<lparr>ki_Controller = hs_ctrlID h, ki_Seq = n, ki_Grant = hs_grant h,
                 ki_Held = True, ki_Intent = hs_intent h\<rparr>) in
            case map_of (k_ctrls c) (hs_ctrlID h) of
              Some ctl \<Rightarrow> ([key (ct_seq ctl + 1)], upd_ctl (hs_ctrlID h) (\<lambda>x. x\<lparr>ct_seq := ct_seq ctl + 1\<rparr>) c)
            | None \<Rightarrow> ([key (hs_seq h + 1)],
                c\<lparr>k_hold := AList.update vid (h\<lparr>hs_seq := hs_seq h + 1\<rparr>) (k_hold c)\<rparr>))"

fun hold_each :: "Engine \<Rightarrow> u64 list \<Rightarrow> u64 list \<Rightarrow> Contract \<Rightarrow> KeyedIntent list \<times> Contract" where
  "hold_each e fresh [] c = ([], c)"
| "hold_each e fresh (vid # vids) c =
     (if vid \<in> set fresh then hold_each e fresh vids c
      else let (k, c1) = hold_one e vid c; (ks, c2) = hold_each e fresh vids c1 in (k @ ks, c2))"

definition DrainIntents :: "Engine \<Rightarrow> ArrivedIntent list \<Rightarrow> Contract \<Rightarrow> KeyedIntent list \<times> Contract" where
  "DrainIntents e arr c =
     (let (ks, fresh, c1) = drain_arrivals e arr c;
          (hs, c2) = hold_each e fresh (sort (map fst (k_hold c1))) c1 in (ks @ hs, c2))"

subsection \<open>After a step\<close>

definition noteObsErr :: "string \<Rightarrow> Contract \<Rightarrow> Contract" where
  "noteObsErr cid c =
     (let c1 = upd_ctl cid (\<lambda>x. x\<lparr>ct_obsErrRun := ct_obsErrRun x + 1\<rparr>) c in
      case map_of (k_ctrls c1) cid of
        None \<Rightarrow> c1
      | Some ctl \<Rightarrow> c1\<lparr>k_obsErrMaxRun := max (k_obsErrMaxRun c1) (ct_obsErrRun ctl)\<rparr>)"

definition noteObsOK :: "string \<Rightarrow> Contract \<Rightarrow> Contract" where
  "noteObsOK cid c = upd_ctl cid (\<lambda>x. x\<lparr>ct_obsErrRun := 0\<rparr>) c"

text \<open>\<open>sent cid\<close>: the connection accepted the observation frame of that controller.\<close>

definition publish_one_obs :: "(string \<Rightarrow> bool) \<Rightarrow> string \<Rightarrow> Contract \<Rightarrow> Contract" where
  "publish_one_obs sent cid c =
     (case map_of (k_ctrls c) cid of
        None \<Rightarrow> c
      | Some ctl \<Rightarrow>
          if \<not> drives ctl then c
          else if sent cid then (noteObsOK cid c)\<lparr>k_obsOut := k_obsOut c + 1\<rparr>
          else (noteObsErr cid c)\<lparr>k_obsErrs := k_obsErrs c + 1\<rparr>)"

definition despawn_sweep :: "Engine \<Rightarrow> Contract \<Rightarrow> Contract" where
  "despawn_sweep e c =
     (let live = set (map v_ID (e_order e)); dead = (\<lambda>vid. k_byVehicle c vid \<noteq> None \<and> vid \<notin> live) in
      c\<lparr>k_byVehicle := (\<lambda>vid. if dead vid then None else k_byVehicle c vid),
        k_ctrls := map (\<lambda>(cid, x). (cid, x\<lparr>ct_claims :=
          filter (\<lambda>vid. \<not> (k_byVehicle c vid = Some cid \<and> vid \<notin> live)) (ct_claims x)\<rparr>)) (k_ctrls c),
        k_hold := filter (\<lambda>(vid, _). \<not> dead vid) (k_hold c),
        k_announced := filter (\<lambda>vid. \<not> dead vid) (k_announced c)\<rparr>)"

fun new_unclaimed :: "Vehicle list \<Rightarrow> Contract \<Rightarrow> u64 list \<times> Contract" where
  "new_unclaimed [] c = ([], c)"
| "new_unclaimed (v # vs) c =
     (if k_byVehicle c (v_ID v) = None \<and> v_ID v \<notin> set (k_announced c)
      then (let (ids, c2) = new_unclaimed vs (announce [v_ID v] c) in (v_ID v # ids, c2))
      else new_unclaimed vs c)"

definition announce_spawns :: "Engine \<Rightarrow> Contract \<Rightarrow> Contract" where
  "announce_spawns e c =
     (if driveCtlCount c = 0 then c
      else let (ids, c1) = new_unclaimed (e_order e) c in
        if ids = [] then c1
        else publishEvent (SubjectEventUnclaimed (k_run c1)) (fleet_event ''unclaimed'' (e_Tick e) [] ids ''spawn'') c1)"

definition pause_gate :: "(ContractEvent \<Rightarrow> string option) \<Rightarrow> int \<Rightarrow> Engine \<Rightarrow> Contract \<Rightarrow> string + Contract" where
  "pause_gate rec now e c =
     (if \<not> k_driveSeen c \<or> k_paused c then Inr c
      else let (demand, avail) = capacity e c;
               c1 = (if avail < demand then c\<lparr>k_deficit := k_deficit c + 1\<rparr>
                     else c\<lparr>k_deficit := 0, k_escaped := False\<rparr>) in
        if \<not> k_escaped c1 \<and> cc_PauseAfterTicks (k_cfg c1) \<le> k_deficit c1
        then emitPause rec e ''pause'' demand avail
          (c1\<lparr>k_paused := True, k_deficit := 0, k_pausedAt := now, k_pauseLogAt := now\<rparr>)
        else Inr c1)"

definition AfterStep :: "(ContractEvent \<Rightarrow> string option) \<Rightarrow> int \<Rightarrow> (string \<Rightarrow> bool) \<Rightarrow> Engine \<Rightarrow> Contract \<Rightarrow>
    string + Contract" where
  "AfterStep rec now sent e c =
     (let c1 = fold (publish_one_obs sent) (sort (map fst (k_ctrls c))) c in
      pause_gate rec now e (announce_spawns e (despawn_sweep e c1)))"

end
