(* ===== verification/ContractClaims.thy ===== *)
theory ContractClaims
  imports Contract
begin

text \<open>
  The claim invariant of the contract layer and its preservation by every operation of
  \<open>engine/natsio/contract.go\<close>: hellos, claims, releases, detaches, verbs, the liveness sweep, the
  drain and the sweep after a step.
\<close>

subsection \<open>The claim invariant\<close>

text \<open>
  The ownership table and the claim sets of the attached controllers are inverse to each other,
  ids are the ones handed out so far, and a hold bridge belongs to the owner of its vehicle, or
  to nobody when the vehicle has none.
\<close>

definition cid_of :: "nat \<Rightarrow> string" where "cid_of n = ''ctl-'' @ dec_string n"

definition claims_ok :: "Contract \<Rightarrow> bool" where
  "claims_ok c \<longleftrightarrow> distinct (map fst (k_ctrls c)) \<and>
     (\<forall>cid x. map_of (k_ctrls c) cid = Some x \<longrightarrow> ct_id x = cid \<and> distinct (ct_claims x) \<and>
        set (ct_claims x) = {vid. k_byVehicle c vid = Some cid} \<and>
        (\<exists>n. 0 < n \<and> n \<le> k_nextID c \<and> cid = cid_of n)) \<and>
     (\<forall>vid cid. k_byVehicle c vid = Some cid \<longrightarrow> map_of (k_ctrls c) cid \<noteq> None) \<and>
     distinct (map fst (k_hold c)) \<and>
     (\<forall>vid h. map_of (k_hold c) vid = Some h \<longrightarrow>
        hs_ctrlID h = (case k_byVehicle c vid of None \<Rightarrow> [] | Some cid \<Rightarrow> cid))"

lemma map_of_entry: "map_of (AList.map_entry k f al) j = (if j = k then map_option f (map_of al k) else map_of al j)"
  by (induction al) auto

lemma keys_entry [simp]: "map fst (AList.map_entry k f al) = map fst al"
  by (induction al) auto

lemma entry_absent: "map_of al k = None \<Longrightarrow> AList.map_entry k f al = al"
  by (induction al) (auto split: if_splits)

lemma distinct_keys_update: "distinct (map fst al) \<Longrightarrow> distinct (map fst (AList.update k v al))"
  by (rule distinct_update)

lemma upd_ctl_sel [simp]:
  "k_byVehicle (upd_ctl cid f c) = k_byVehicle c" "k_hold (upd_ctl cid f c) = k_hold c"
  "k_nextID (upd_ctl cid f c) = k_nextID c" "k_run (upd_ctl cid f c) = k_run c" "k_cfg (upd_ctl cid f c) = k_cfg c"
  "k_verbs (upd_ctl cid f c) = k_verbs c" "k_announced (upd_ctl cid f c) = k_announced c"
  "k_events (upd_ctl cid f c) = k_events c" "k_paused (upd_ctl cid f c) = k_paused c"
  "k_claimViolations (upd_ctl cid f c) = k_claimViolations c" "k_legacySeqs (upd_ctl cid f c) = k_legacySeqs c"
  "map fst (k_ctrls (upd_ctl cid f c)) = map fst (k_ctrls c)"
  by (simp_all add: upd_ctl_def)

lemma upd_ctl_ctrls [simp]:
  "map_of (k_ctrls (upd_ctl cid f c)) j
   = (if j = cid then map_option f (map_of (k_ctrls c) cid) else map_of (k_ctrls c) j)"
  by (simp add: upd_ctl_def map_of_entry)

lemma claims_okD:
  assumes "claims_ok c"
  shows "map_of (k_ctrls c) cid = Some x \<Longrightarrow> ct_id x = cid"
    and "map_of (k_ctrls c) cid = Some x \<Longrightarrow> distinct (ct_claims x)"
    and "map_of (k_ctrls c) cid = Some x \<Longrightarrow> vid \<in> set (ct_claims x) \<longleftrightarrow> k_byVehicle c vid = Some cid"
    and "map_of (k_ctrls c) cid = Some x \<Longrightarrow> \<exists>n. 0 < n \<and> n \<le> k_nextID c \<and> cid = cid_of n"
    and "k_byVehicle c vid = Some cid \<Longrightarrow> map_of (k_ctrls c) cid \<noteq> None"
    and "map_of (k_hold c) vid = Some h \<Longrightarrow> hs_ctrlID h = (case k_byVehicle c vid of None \<Rightarrow> [] | Some cid \<Rightarrow> cid)"
    and "distinct (map fst (k_ctrls c))" and "distinct (map fst (k_hold c))"
  using assms unfolding claims_ok_def by blast+

text \<open>Only the four tables and the id counter matter, and only identity and claims of a controller.\<close>

definition same_claims :: "Contract \<Rightarrow> Contract \<Rightarrow> bool" where
  "same_claims c c' \<longleftrightarrow> k_byVehicle c' = k_byVehicle c \<and> k_hold c' = k_hold c \<and> k_nextID c' = k_nextID c \<and>
     map fst (k_ctrls c') = map fst (k_ctrls c) \<and>
     (\<forall>cid. map_option (\<lambda>x. (ct_id x, ct_claims x)) (map_of (k_ctrls c') cid)
        = map_option (\<lambda>x. (ct_id x, ct_claims x)) (map_of (k_ctrls c) cid))"

lemma same_claims_ok:
  assumes "same_claims c c'" and "claims_ok c"
  shows "claims_ok c'"
proof -
  have own: "k_byVehicle c' = k_byVehicle c" and hold: "k_hold c' = k_hold c" and nx: "k_nextID c' = k_nextID c"
    and keys: "map fst (k_ctrls c') = map fst (k_ctrls c)"
    and E: "\<And>cid. map_option (\<lambda>x. (ct_id x, ct_claims x)) (map_of (k_ctrls c') cid)
        = map_option (\<lambda>x. (ct_id x, ct_claims x)) (map_of (k_ctrls c) cid)"
    using assms(1) unfolding same_claims_def by blast+
  have m: "\<exists>y. map_of (k_ctrls c) cid = Some y \<and> ct_id y = ct_id x \<and> ct_claims y = ct_claims x"
    if "map_of (k_ctrls c') cid = Some x" for cid x
    using E [of cid] that by (cases "map_of (k_ctrls c) cid") auto
  have n: "map_of (k_ctrls c') cid \<noteq> None" if "map_of (k_ctrls c) cid \<noteq> None" for cid
    using E [of cid] that by (cases "map_of (k_ctrls c') cid") auto
  show ?thesis
    unfolding claims_ok_def own hold nx keys
  proof (intro conjI allI impI)
    fix cid x
    assume "map_of (k_ctrls c') cid = Some x"
    then obtain y where y: "map_of (k_ctrls c) cid = Some y" "ct_id y = ct_id x" "ct_claims y = ct_claims x"
      using m by blast
    note d = claims_okD(1-4) [OF assms(2) y(1)]
    show "ct_id x = cid" "distinct (ct_claims x)" "set (ct_claims x) = {vid. k_byVehicle c vid = Some cid}"
      "\<exists>n>0. n \<le> k_nextID c \<and> cid = cid_of n"
      using d y by auto
  next
    fix vid cid
    assume "k_byVehicle c vid = Some cid"
    then show "map_of (k_ctrls c') cid \<noteq> None" using claims_okD(5) [OF assms(2)] n by blast
  qed (use claims_okD(6-8) [OF assms(2)] in blast)+
qed

lemma upd_ctl_same: "(\<And>x. ct_id (f x) = ct_id x \<and> ct_claims (f x) = ct_claims x) \<Longrightarrow> same_claims c (upd_ctl cid f c)"
  by (simp add: same_claims_def option.map_comp comp_def)

lemma claims_ok_frame [simp]:
  "claims_ok (publishEvent sb ev c) = claims_ok c" "claims_ok (respond rs r c) = claims_ok c"
  "claims_ok (announce vids c) = claims_ok c" "claims_ok (release_events e cid vids reason c) = claims_ok c"
  "claims_ok (claim_event e cid vids c) = claims_ok c"
  "claims_ok (c\<lparr>k_reqs := x1\<rparr>) = claims_ok c" "claims_ok (c\<lparr>k_claimViolations := x2\<rparr>) = claims_ok c"
  "claims_ok (c\<lparr>k_legacySeqs := x3\<rparr>) = claims_ok c" "claims_ok (c\<lparr>k_verbs := x4\<rparr>) = claims_ok c"
  "claims_ok (c\<lparr>k_paused := x5\<rparr>) = claims_ok c" "claims_ok (c\<lparr>k_escaped := x5\<rparr>) = claims_ok c"
  "claims_ok (c\<lparr>k_pauseLogAt := x6\<rparr>) = claims_ok c" "claims_ok (c\<lparr>k_pausedAt := x6\<rparr>) = claims_ok c"
  "claims_ok (c\<lparr>k_deficit := x7\<rparr>) = claims_ok c" "claims_ok (c\<lparr>k_obsOut := x7\<rparr>) = claims_ok c"
  "claims_ok (c\<lparr>k_obsErrs := x7\<rparr>) = claims_ok c" "claims_ok (c\<lparr>k_obsErrMaxRun := x7\<rparr>) = claims_ok c"
  by (simp_all add: claims_ok_def publishEvent_def respond_def announce_def release_events_def claim_event_def)

lemma upd_ctl_ok:
  "(\<And>x. ct_id (f x) = ct_id x \<and> ct_claims (f x) = ct_claims x) \<Longrightarrow> claims_ok c \<Longrightarrow> claims_ok (upd_ctl cid f c)"
  by (rule same_claims_ok [OF upd_ctl_same])

text \<open>A claim: the vehicle was free, the controller is attached.\<close>

lemma claim_ok:
  assumes ok: "claims_ok c" and free: "k_byVehicle c vid = None"
    and att: "map_of (k_ctrls c) (ct_id ctl) = Some x0"
  shows "claims_ok ((upd_ctl (ct_id ctl) (\<lambda>x. x\<lparr>ct_claims := vid # ct_claims x\<rparr>) c)
          \<lparr>k_byVehicle := (k_byVehicle c)(vid := Some (ct_id ctl)), k_announced := an,
           k_hold := AList.map_entry vid (adopt ctl) (k_hold c)\<rparr>)"
    (is "claims_ok ?c'")
proof -
  let ?own = "(k_byVehicle c)(vid := Some (ct_id ctl))"
  have sel: "k_byVehicle ?c' = ?own" "k_nextID ?c' = k_nextID c"
    "k_hold ?c' = AList.map_entry vid (adopt ctl) (k_hold c)"
    "map fst (k_ctrls ?c') = map fst (k_ctrls c)"
    by (simp_all add: upd_ctl_def)
  have ctrls: "map_of (k_ctrls ?c') j = (if j = ct_id ctl then Some (x0\<lparr>ct_claims := vid # ct_claims x0\<rparr>)
      else map_of (k_ctrls c) j)" for j
    using att by (simp add: upd_ctl_def map_of_entry)
  show ?thesis
    unfolding claims_ok_def sel
  proof (intro conjI allI impI)
    fix cid x
    assume x: "map_of (k_ctrls ?c') cid = Some x"
    have "\<exists>y. map_of (k_ctrls c) cid = Some y \<and> ct_id x = ct_id y \<and>
        ct_claims x = (if cid = ct_id ctl then vid # ct_claims y else ct_claims y)"
      using x att unfolding ctrls by (auto split: if_splits)
    then obtain y where y: "map_of (k_ctrls c) cid = Some y" "ct_id x = ct_id y"
        "ct_claims x = (if cid = ct_id ctl then vid # ct_claims y else ct_claims y)"
      by blast
    note d = claims_okD(1-4) [OF ok y(1)]
    have "vid \<notin> set (ct_claims y)" using d(3) free by simp
    then show "distinct (ct_claims x)" using d(2) y(3) by simp
    show "ct_id x = cid" "\<exists>n>0. n \<le> k_nextID c \<and> cid = cid_of n" using d y(2) by simp_all
    show "set (ct_claims x) = {v. ?own v = Some cid}"
      using d(3) free y(3) by auto
  next
    fix v cid
    assume "?own v = Some cid"
    then show "map_of (k_ctrls ?c') cid \<noteq> None"
      using claims_okD(5) [OF ok, of v cid] unfolding ctrls by (auto split: if_splits)
  next
    fix v h
    assume "map_of (AList.map_entry vid (adopt ctl) (k_hold c)) v = Some h"
    then show "hs_ctrlID h = (case ?own v of None \<Rightarrow> [] | Some cid \<Rightarrow> cid)"
      using claims_okD(6) [OF ok] by (auto simp: map_of_entry adopt_def split: if_splits)
  qed (use claims_okD(7,8) [OF ok] in simp_all)
qed

lemma tryClaim_ok:
  assumes "claims_ok c" and "map_of (k_ctrls c) (ct_id ctl) = Some x0"
  shows "claims_ok (snd (tryClaim e ctl vid c))"
  using assms claim_ok [OF assms(1) _ assms(2)] by (auto simp: tryClaim_def Let_def)

lemma tryClaim_attached:
  "map_of (k_ctrls c) (ct_id ctl) \<noteq> None \<Longrightarrow> map_of (k_ctrls (snd (tryClaim e ctl vid c))) (ct_id ctl) \<noteq> None"
  by (auto simp: tryClaim_def Let_def)

lemma claim_each_ok:
  assumes "claims_ok c" and "map_of (k_ctrls c) (ct_id ctl) \<noteq> None"
  shows "claims_ok (snd (snd (claim_each e ctl vids c)))"
  using assms
proof (induction vids arbitrary: c)
  case (Cons v vs)
  have "claims_ok (snd (tryClaim e ctl v c))" using Cons.prems tryClaim_ok by blast
  then show ?case using Cons.IH [OF _ tryClaim_attached [OF Cons.prems(2)], of e v] by (auto simp: split_beta Let_def)
qed simp

lemma handleClaim_ok: "claims_ok c \<Longrightarrow> claims_ok (handleClaim e cid rs p c)"
proof (cases "map_of (k_ctrls c) cid")
  case (Some ctl)
  assume ok: "claims_ok c"
  let ?c1 = "upd_ctl cid (\<lambda>x. x\<lparr>ct_lastSeen := e_Tick e\<rparr>) c"
  have ok1: "claims_ok ?c1" using ok by (intro upd_ctl_ok) simp_all
  have "ct_id ctl = cid" using claims_okD(1) [OF ok Some] .
  then have "claims_ok (snd (snd (claim_each e ctl vids ?c1)))" for vids
    using claim_each_ok [OF ok1] Some by simp
  then show ?thesis using ok1 Some by (auto simp: handleClaim_def Let_def split_beta split: sum.split)
qed (simp add: handleClaim_def)

text \<open>Ids are fresh: the decimal form of a number determines it.\<close>

definition dec_value :: "string \<Rightarrow> nat" where
  "dec_value s = foldl (\<lambda>a ch. a * 10 + (of_char ch - 48)) 0 s"

lemma dec_value_string: "dec_value (dec_string n) = n"
proof (induction n rule: dec_string.induct)
  case (1 n)
  have d: "(of_char (char_of (48 + m) :: char) :: nat) = 48 + m" if "m < 10" for m :: nat
    using that by (simp add: of_char_of)
  show ?case
  proof (cases "n < 10")
    case True
    then show ?thesis by (simp add: dec_string.simps [of n] dec_value_def d)
  next
    case False
    then have "dec_value (dec_string (n div 10)) = n div 10" by (rule 1)
    then show ?thesis using False d [of "n mod 10"]
      by (simp add: dec_string.simps [of n] dec_value_def)
  qed
qed

lemma cid_of_inj: "cid_of m = cid_of n \<longleftrightarrow> m = n"
  unfolding cid_of_def by (metis dec_value_string same_append_eq)

lemma cid_of_nonempty [simp]: "cid_of n \<noteq> []"
  by (simp add: cid_of_def)

lemma fresh_cid:
  assumes "claims_ok c"
  shows "map_of (k_ctrls c) (cid_of (Suc (k_nextID c))) = None"
    and "k_byVehicle c vid \<noteq> Some (cid_of (Suc (k_nextID c)))"
proof -
  show "map_of (k_ctrls c) (cid_of (Suc (k_nextID c))) = None"
  proof (cases "map_of (k_ctrls c) (cid_of (Suc (k_nextID c)))")
    case (Some x)
    from claims_okD(4) [OF assms this] show ?thesis by (auto simp: cid_of_inj)
  qed
  then show "k_byVehicle c vid \<noteq> Some (cid_of (Suc (k_nextID c)))"
    using claims_okD(5) [OF assms] by blast
qed

lemma attach_ok:
  assumes ok: "claims_ok c" and "ct_id ctl = cid_of (Suc (k_nextID c))" and "ct_claims ctl = []"
  shows "claims_ok (c\<lparr>k_nextID := Suc (k_nextID c), k_ctrls := AList.update (ct_id ctl) ctl (k_ctrls c), k_driveSeen := d\<rparr>)"
proof -
  note f = fresh_cid [OF ok]
  show ?thesis
    unfolding claims_ok_def
  proof (intro conjI allI impI)
    fix cid x
    assume "map_of (k_ctrls (c\<lparr>k_nextID := Suc (k_nextID c), k_ctrls := AList.update (ct_id ctl) ctl (k_ctrls c), k_driveSeen := d\<rparr>)) cid = Some x"
    then have x: "(if cid = ct_id ctl then Some ctl else map_of (k_ctrls c) cid) = Some x"
      by (auto simp: update_conv' split: if_splits)
    show "ct_id x = cid" using x claims_okD(1) [OF ok] by (auto split: if_splits)
    show "distinct (ct_claims x)" using x claims_okD(2) [OF ok] assms(3) by (auto split: if_splits)
    show "set (ct_claims x) = {vid. k_byVehicle (c\<lparr>k_nextID := Suc (k_nextID c),
        k_ctrls := AList.update (ct_id ctl) ctl (k_ctrls c), k_driveSeen := d\<rparr>) vid = Some cid}"
      using x claims_okD(3) [OF ok] assms(2,3) f(2) by (auto split: if_splits)
    show "\<exists>n>0. n \<le> k_nextID (c\<lparr>k_nextID := Suc (k_nextID c),
        k_ctrls := AList.update (ct_id ctl) ctl (k_ctrls c), k_driveSeen := d\<rparr>) \<and> cid = cid_of n"
    proof (cases "cid = ct_id ctl")
      case True
      then show ?thesis using assms(2) by (intro exI [of _ "Suc (k_nextID c)"]) simp
    next
      case False
      then have "map_of (k_ctrls c) cid = Some x" using x by simp
      from claims_okD(4) [OF ok this] show ?thesis using le_SucI by auto
    qed
  next
    fix vid cid
    assume "k_byVehicle (c\<lparr>k_nextID := Suc (k_nextID c), k_ctrls := AList.update (ct_id ctl) ctl (k_ctrls c), k_driveSeen := d\<rparr>) vid = Some cid"
    then show "map_of (k_ctrls (c\<lparr>k_nextID := Suc (k_nextID c), k_ctrls := AList.update (ct_id ctl) ctl (k_ctrls c), k_driveSeen := d\<rparr>)) cid \<noteq> None"
      using claims_okD(5) [OF ok] by (simp add: update_conv')
  qed (use claims_okD(6-8) [OF ok] in \<open>auto simp: distinct_update\<close>)
qed

lemma handleHello_ok: "claims_ok c \<Longrightarrow> claims_ok (handleHello e rs p c)"
proof (cases "hello_check (k_cfg c) p")
  case (Inr r)
  assume ok: "claims_ok c"
  obtain req cadence grants lvl where r: "r = (req, cadence, grants, lvl)" by (cases r)
  let ?ctl = "\<lparr>ct_id = ''ctl-'' @ dec_string (Suc (k_nextID c)), ct_ctype = hr_ControllerType req, ct_cadence = cadence,
     ct_grant = lvl, ct_grants = grants, ct_capacity = hr_ClaimCapacity req, ct_window = hr_Window req,
     ct_claims = [], ct_lastSeen = e_Tick e, ct_seq = 0, ct_obsErrRun = 0\<rparr>"
  let ?c1 = "c\<lparr>k_nextID := Suc (k_nextID c), k_ctrls := AList.update (ct_id ?ctl) ?ctl (k_ctrls c),
     k_driveSeen := (k_driveSeen c \<or> ''drive'' \<in> set grants)\<rparr>"
  have "claims_ok ?c1" by (rule attach_ok [OF ok]) (simp_all add: cid_of_def)
  moreover have "map_of (k_ctrls ?c1) (ct_id ?ctl) \<noteq> None" by (simp add: update_conv')
  ultimately have "claims_ok (snd (snd (claim_each e ?ctl (hr_Claims req) ?c1)))"
    by (rule claim_each_ok)
  then show ?thesis by (simp add: handleHello_def Inr r Let_def split_beta)
qed (simp add: handleHello_def)

subsection \<open>Releases keep it\<close>

lemma releaseOne_ok:
  assumes ok: "claims_ok c" and own: "k_byVehicle c vid = Some cid"
  shows "claims_ok (releaseOne cid vid c)"
proof -
  have ctrls: "map_of (k_ctrls (releaseOne cid vid c)) j = (if j = cid
      then map_option (\<lambda>x. x\<lparr>ct_claims := removeAll vid (ct_claims x)\<rparr>) (map_of (k_ctrls c) cid)
      else map_of (k_ctrls c) j)" for j
    by (simp add: releaseOne_def upd_ctl_def map_of_entry)
  show ?thesis
    unfolding claims_ok_def
  proof (intro conjI allI impI)
    fix j x
    assume "map_of (k_ctrls (releaseOne cid vid c)) j = Some x"
    then obtain y where y: "map_of (k_ctrls c) j = Some y"
      "x = (if j = cid then y\<lparr>ct_claims := removeAll vid (ct_claims y)\<rparr> else y)"
      unfolding ctrls by (auto split: if_splits)
    note d = claims_okD(1-4) [OF ok y(1)]
    show "ct_id x = j" "distinct (ct_claims x)" "\<exists>n>0. n \<le> k_nextID (releaseOne cid vid c) \<and> j = cid_of n"
      using d y(2) by (simp_all add: releaseOne_def distinct_removeAll)
    show "set (ct_claims x) = {v. k_byVehicle (releaseOne cid vid c) v = Some j}"
      using d(3) y(2) own by (auto simp: releaseOne_def)
  next
    fix v j
    assume "k_byVehicle (releaseOne cid vid c) v = Some j"
    then show "map_of (k_ctrls (releaseOne cid vid c)) j \<noteq> None"
      using claims_okD(5) [OF ok, of v j] unfolding ctrls by (auto simp: releaseOne_def split: if_splits)
  next
    fix v h
    assume "map_of (k_hold (releaseOne cid vid c)) v = Some h"
    then show "hs_ctrlID h = (case k_byVehicle (releaseOne cid vid c) v of None \<Rightarrow> [] | Some j \<Rightarrow> j)"
      using claims_okD(6) [OF ok] by (auto simp: releaseOne_def map_of_entry split: if_splits)
  qed (use claims_okD(7,8) [OF ok] in \<open>simp_all add: releaseOne_def\<close>)
qed

lemma release_each_ok: "claims_ok c \<Longrightarrow> claims_ok (snd (release_each cid vids c))"
  by (induction vids arbitrary: c) (auto simp: split_beta Let_def releaseOne_ok)

text \<open>A whole fleet at once, by a controller that is no longer in the table.\<close>

lemma fold_release_all:
  assumes "map_of (k_ctrls c) cid = None"
  shows "k_ctrls (fold (releaseOne cid) ids c) = k_ctrls c \<and>
    k_nextID (fold (releaseOne cid) ids c) = k_nextID c \<and>
    k_byVehicle (fold (releaseOne cid) ids c) = (\<lambda>v. if v \<in> set ids then None else k_byVehicle c v) \<and>
    map fst (k_hold (fold (releaseOne cid) ids c)) = map fst (k_hold c) \<and>
    (\<forall>v. map_of (k_hold (fold (releaseOne cid) ids c)) v
         = (if v \<in> set ids then map_option (\<lambda>h. h\<lparr>hs_ctrlID := []\<rparr>) (map_of (k_hold c) v) else map_of (k_hold c) v))"
  using assms
proof (induction ids arbitrary: c)
  case (Cons a ids)
  have k: "k_ctrls (releaseOne cid a c) = k_ctrls c"
    using Cons.prems by (simp add: releaseOne_def upd_ctl_def entry_absent)
  then have "map_of (k_ctrls (releaseOne cid a c)) cid = None" using Cons.prems by simp
  note IH = Cons.IH [OF this]
  have h: "map_of (k_hold (releaseOne cid a c)) v
      = (if v = a then map_option (\<lambda>h. h\<lparr>hs_ctrlID := []\<rparr>) (map_of (k_hold c) a) else map_of (k_hold c) v)" for v
    by (simp add: releaseOne_def map_of_entry)
  show ?case using IH k h by (auto simp: releaseOne_def fun_eq_iff option.map_comp comp_def)
qed simp

lemma fold_release:
  assumes "map_of (k_ctrls c) cid = None"
  shows "k_ctrls (fold (releaseOne cid) ids c) = k_ctrls c"
    and "k_nextID (fold (releaseOne cid) ids c) = k_nextID c"
    and "k_byVehicle (fold (releaseOne cid) ids c) = (\<lambda>v. if v \<in> set ids then None else k_byVehicle c v)"
    and "map fst (k_hold (fold (releaseOne cid) ids c)) = map fst (k_hold c)"
    and "map_of (k_hold (fold (releaseOne cid) ids c)) v
         = (if v \<in> set ids then map_option (\<lambda>h. h\<lparr>hs_ctrlID := []\<rparr>) (map_of (k_hold c) v) else map_of (k_hold c) v)"
  using fold_release_all [OF assms] by blast+

lemma detach_ok:
  assumes ok: "claims_ok c"
  shows "claims_ok (detach e cid reason c)"
proof (cases "map_of (k_ctrls c) cid")
  case (Some ctl)
  let ?ids = "sort (ct_claims ctl)" and ?c1 = "c\<lparr>k_ctrls := AList.delete cid (k_ctrls c)\<rparr>"
  let ?c2 = "fold (releaseOne cid) ?ids ?c1"
  have gone: "map_of (k_ctrls ?c1) cid = None" by (simp add: delete_conv')
  note r = fold_release [OF gone, of ?ids]
  have ids: "v \<in> set ?ids \<longleftrightarrow> k_byVehicle c v = Some cid" for v
    using claims_okD(3) [OF ok Some] by simp
  have "claims_ok ?c2"
    unfolding claims_ok_def r
  proof (intro conjI allI impI)
    fix j x
    assume "map_of (k_ctrls ?c1) j = Some x"
    then have j: "j \<noteq> cid" "map_of (k_ctrls c) j = Some x" by (auto simp: delete_conv' split: if_splits)
    note d = claims_okD(1-4) [OF ok j(2)]
    show "ct_id x = j" "distinct (ct_claims x)" "\<exists>n>0. n \<le> k_nextID ?c1 \<and> j = cid_of n" using d by simp_all
    show "set (ct_claims x) = {v. (if v \<in> set ?ids then None else k_byVehicle ?c1 v) = Some j}"
      using d(3) ids j(1) by auto
  next
    fix v j
    assume "(if v \<in> set ?ids then None else k_byVehicle ?c1 v) = Some j"
    then show "map_of (k_ctrls ?c1) j \<noteq> None"
      using claims_okD(5) [OF ok, of v j] ids [of v] by (auto simp: delete_conv' split: if_splits)
  next
    fix v h
    assume "(if v \<in> set ?ids then map_option (\<lambda>h. h\<lparr>hs_ctrlID := []\<rparr>) (map_of (k_hold ?c1) v) else map_of (k_hold ?c1) v) = Some h"
    then show "hs_ctrlID h = (case if v \<in> set ?ids then None else k_byVehicle ?c1 v of None \<Rightarrow> [] | Some j \<Rightarrow> j)"
      using claims_okD(6) [OF ok] by (auto split: if_splits)
  qed (use claims_okD(7,8) [OF ok] in \<open>simp_all add: distinct_delete\<close>)
  then show ?thesis by (simp add: detach_def Some Let_def)
qed (simp add: detach_def ok)

subsection \<open>Every operation keeps it\<close>

text \<open>An operation applied along a list keeps what one application keeps.\<close>

locale keeps =
  fixes inv :: "'s \<Rightarrow> bool" and step :: "'x \<Rightarrow> 's \<Rightarrow> 's"
  assumes step_keeps: "inv s \<Longrightarrow> inv (step x s)"
begin

lemma fold_keeps: "inv s \<Longrightarrow> inv (fold step xs s)"
  by (induction xs arbitrary: s) (simp_all add: step_keeps)

end

lemma handleRelease_ok: "claims_ok c \<Longrightarrow> claims_ok (handleRelease e cid p c)"
proof (cases "map_of (k_ctrls c) cid")
  case (Some ctl)
  assume ok: "claims_ok c"
  let ?c1 = "upd_ctl cid (\<lambda>x. x\<lparr>ct_lastSeen := e_Tick e\<rparr>) c"
  have ok1: "claims_ok ?c1" using ok by (intro upd_ctl_ok) simp_all
  then have "claims_ok (snd (release_each cid vids ?c1))" for vids by (rule release_each_ok)
  then show ?thesis using Some ok1
    by (auto simp: handleRelease_def Let_def split_beta detach_ok split: sum.split)
qed (simp add: handleRelease_def)

lemma verb_answer_ok: "claims_ok c \<Longrightarrow> claims_ok (fst (snd (verb_answer e cid p c)))"
  by (auto simp: verb_answer_def Let_def split_beta upd_ctl_ok split: sum.split option.split)

lemma handleVerb_ok: "claims_ok c \<Longrightarrow> claims_ok (snd (handleVerb e cid rs p c))"
  using verb_answer_ok [of c e cid p] by (simp add: handleVerb_def split_beta)

interpretation reqs: keeps "\<lambda>(e, c). claims_ok c" process_req
proof
  fix s :: "Engine \<times> Contract" and r
  assume "case s of (e, c) \<Rightarrow> claims_ok c"
  moreover obtain e c where "s = (e, c)" by (cases s)
  ultimately show "case process_req r s of (e, c) \<Rightarrow> claims_ok c"
    by (cases r) (simp_all add: process_req_def handleHello_ok handleClaim_ok handleRelease_ok upd_ctl_ok
        handleVerb_ok split_beta)
qed

interpretation sweep: keeps claims_ok "sweep_one e" for e
  by unfold_locales (simp add: sweep_one_def detach_ok split: option.split)

lemma liveness_sweep_ok: "claims_ok c \<Longrightarrow> claims_ok (liveness_sweep e c)"
  by (simp add: liveness_sweep_def sweep.fold_keeps)

lemma emitPause_ok: "emitPause rec e kind d a c = Inr c' \<Longrightarrow> claims_ok c \<Longrightarrow> claims_ok c'"
  by (auto simp: emitPause_def Let_def split: option.splits)

lemma resume_check_ok: "resume_check rec now e c = Inr c' \<Longrightarrow> claims_ok c \<Longrightarrow> claims_ok c'"
  by (auto simp: resume_check_def Let_def split_beta split: if_splits dest!: emitPause_ok)

lemma ProcessControl_ok:
  assumes "ProcessControl rec now e c = Inr (e', c')" and "claims_ok c"
  shows "claims_ok c'"
proof -
  obtain e1 c1 where f: "fold process_req (k_reqs c) (e, c\<lparr>k_reqs := []\<rparr>) = (e1, c1)" by fastforce
  have "claims_ok c1" using reqs.fold_keeps [of "(e, c\<lparr>k_reqs := []\<rparr>)" "k_reqs c"] assms(2) f by simp
  then have "claims_ok (liveness_sweep e1 c1)" by (rule liveness_sweep_ok)
  then show ?thesis
    using assms(1) f resume_check_ok by (auto simp: ProcessControl_def split: sum.splits)
qed

lemma fresh_hold_ok:
  assumes ok: "claims_ok c" and own: "k_byVehicle c vid = Some (hs_ctrlID h)"
  shows "claims_ok (c\<lparr>k_hold := AList.update vid h (k_hold c)\<rparr>)"
  using ok own unfolding claims_ok_def by (auto simp: update_conv' distinct_update)

lemma drain_one_ok: "claims_ok c \<Longrightarrow> claims_ok (snd (snd (drain_one e a c)))"
proof (cases "map_of (k_ctrls c) (ar_Controller a)")
  case (Some ctl)
  assume ok: "claims_ok c"
  let ?c2 = "upd_ctl (ar_Controller a) (\<lambda>x. x\<lparr>ct_seq := ct_seq ctl + 1\<rparr>)
    (upd_ctl (ar_Controller a) (\<lambda>x. x\<lparr>ct_lastSeen := e_Tick e\<rparr>) c)"
  have ok2: "claims_ok ?c2" using ok by (intro upd_ctl_ok) simp_all
  have ok1: "claims_ok (upd_ctl (ar_Controller a) (\<lambda>x. x\<lparr>ct_lastSeen := e_Tick e\<rparr>) c)"
    using ok by (intro upd_ctl_ok) simp_all
  show ?thesis
    using Some ok1 ok2 fresh_hold_ok [OF ok2] by (simp add: drain_one_def Let_def)
qed (auto simp: drain_one_def Let_def)

lemma drain_arrivals_ok: "claims_ok c \<Longrightarrow> claims_ok (snd (snd (drain_arrivals e as c)))"
proof (induction as arbitrary: c)
  case (Cons a as)
  then show ?case using drain_one_ok [OF Cons.prems, of e a] by (simp add: split_beta Let_def)
qed simp

lemma hold_one_ok:
  assumes ok: "claims_ok c"
  shows "claims_ok (snd (hold_one e vid c))"
proof (cases "map_of (k_hold c) vid")
  case (Some h)
  have del: "claims_ok (c\<lparr>k_hold := AList.delete vid (k_hold c)\<rparr>)"
    using ok unfolding claims_ok_def by (auto simp: delete_conv' distinct_delete)
  have upd: "claims_ok (c\<lparr>k_hold := AList.update vid (h\<lparr>hs_seq := n\<rparr>) (k_hold c)\<rparr>)" for n
    using ok Some unfolding claims_ok_def by (auto simp: update_conv' distinct_update)
  have "claims_ok (upd_ctl (hs_ctrlID h) (\<lambda>x. x\<lparr>ct_seq := n\<rparr>) c)" for n
    using ok by (intro upd_ctl_ok) simp_all
  then show ?thesis using Some del upd by (simp add: hold_one_def Let_def split: option.split)
qed (simp add: hold_one_def ok)

lemma hold_each_ok: "claims_ok c \<Longrightarrow> claims_ok (snd (hold_each e fresh vids c))"
proof (induction vids arbitrary: c)
  case (Cons v vs)
  then show ?case using hold_one_ok [OF Cons.prems, of e v] by (simp add: split_beta Let_def)
qed simp

lemma DrainIntents_ok: "claims_ok c \<Longrightarrow> claims_ok (snd (DrainIntents e arr c))"
  using hold_each_ok drain_arrivals_ok by (simp add: DrainIntents_def split_beta Let_def)

interpretation obs: keeps claims_ok "publish_one_obs sent" for sent
  by unfold_locales
    (auto simp: publish_one_obs_def noteObsOK_def noteObsErr_def Let_def upd_ctl_ok split: option.split)

lemma map_of_map_snd: "map_of (map (\<lambda>(k, x). (k, f k x)) al) j = map_option (f j) (map_of al j)"
  by (induction al) auto

lemma map_of_filter_key: "map_of (filter (\<lambda>(k, x). P k) al) j = (if P j then map_of al j else None)"
  by (induction al) auto

lemma despawn_sweep_ok:
  assumes ok: "claims_ok c"
  shows "claims_ok (despawn_sweep e c)"
proof -
  let ?live = "set (map v_ID (e_order e))"
  let ?dead = "\<lambda>vid. k_byVehicle c vid \<noteq> None \<and> vid \<notin> ?live"
  let ?c = "despawn_sweep e c"
  have sel: "k_byVehicle ?c = (\<lambda>vid. if ?dead vid then None else k_byVehicle c vid)"
    "k_hold ?c = filter (\<lambda>(vid, _). \<not> ?dead vid) (k_hold c)" "k_nextID ?c = k_nextID c"
    "map fst (k_ctrls ?c) = map fst (k_ctrls c)"
    by (simp_all add: despawn_sweep_def Let_def split_beta comp_def)
  have ctrls: "map_of (k_ctrls ?c) j = map_option (\<lambda>x. x\<lparr>ct_claims :=
          filter (\<lambda>vid. \<not> (k_byVehicle c vid = Some j \<and> vid \<notin> ?live)) (ct_claims x)\<rparr>) (map_of (k_ctrls c) j)" for j
    by (simp add: despawn_sweep_def Let_def map_of_map_snd)
  show ?thesis
    unfolding claims_ok_def sel
  proof (intro conjI allI impI)
    fix j x
    assume "map_of (k_ctrls ?c) j = Some x"
    then obtain y where y: "map_of (k_ctrls c) j = Some y"
      "x = y\<lparr>ct_claims := filter (\<lambda>vid. \<not> (k_byVehicle c vid = Some j \<and> vid \<notin> ?live)) (ct_claims y)\<rparr>"
      unfolding ctrls by auto
    note d = claims_okD(1-4) [OF ok y(1)]
    show "ct_id x = j" "distinct (ct_claims x)" "\<exists>n>0. n \<le> k_nextID c \<and> j = cid_of n"
      using d y(2) by simp_all
    show "set (ct_claims x) = {v. (if ?dead v then None else k_byVehicle c v) = Some j}"
      using d(3) y(2) by auto
  next
    fix v j
    assume "(if ?dead v then None else k_byVehicle c v) = Some j"
    then show "map_of (k_ctrls ?c) j \<noteq> None"
      using claims_okD(5) [OF ok, of v j] unfolding ctrls by (auto split: if_splits)
  next
    fix v h
    assume "map_of (filter (\<lambda>(vid, _). \<not> ?dead vid) (k_hold c)) v = Some h"
    then have f: "(if \<not> ?dead v then map_of (k_hold c) v else None) = Some h"
      by (simp only: map_of_filter_key [of "\<lambda>vid. \<not> ?dead vid"])
    then have "map_of (k_hold c) v = Some h" "\<not> ?dead v" by (metis option.distinct(1))+
    then show "hs_ctrlID h = (case if ?dead v then None else k_byVehicle c v of None \<Rightarrow> [] | Some j \<Rightarrow> j)"
      using claims_okD(6) [OF ok] by (simp only: if_False)
  qed (use claims_okD(7,8) [OF ok] in \<open>auto simp: distinct_map_filter\<close>)
qed

lemma new_unclaimed_ok: "claims_ok c \<Longrightarrow> claims_ok (snd (new_unclaimed vs c))"
  by (induction vs arbitrary: c) (auto simp: split_beta Let_def)

lemma announce_spawns_ok: "claims_ok c \<Longrightarrow> claims_ok (announce_spawns e c)"
  using new_unclaimed_ok [of c "e_order e"] by (simp add: announce_spawns_def split_beta Let_def)

lemma pause_gate_ok: "pause_gate rec now e c = Inr c' \<Longrightarrow> claims_ok c \<Longrightarrow> claims_ok c'"
  by (auto simp: pause_gate_def Let_def split_beta split: if_splits dest!: emitPause_ok)

lemma AfterStep_ok: "AfterStep rec now sent e c = Inr c' \<Longrightarrow> claims_ok c \<Longrightarrow> claims_ok c'"
  unfolding AfterStep_def Let_def
  by (erule pause_gate_ok) (intro announce_spawns_ok despawn_sweep_ok obs.fold_keeps)

end
