(* ===== verification/ContractRun.thy ===== *)
theory ContractRun
  imports ContractClaims
begin

text \<open>
  The contract layer as a transition system: the run loop's moves, the states they reach, what
  the claim filter and the hold-last rule let through, that verbs are answered once, and when the
  pause gate opens.
\<close>

subsection \<open>The run loop's moves\<close>

inductive contract_step :: "Contract \<Rightarrow> Contract \<Rightarrow> bool" where
  request: "contract_step c (onRequest r c)"
| control: "ProcessControl rec now e c = Inr (e', c') \<Longrightarrow> contract_step c c'"
| drain: "DrainIntents e arr c = (ks, c') \<Longrightarrow> contract_step c c'"
| after: "AfterStep rec now sent e c = Inr c' \<Longrightarrow> contract_step c c'"

inductive_cases contract_stepE: "contract_step c c'"

inductive contract_run :: "Contract \<Rightarrow> Contract \<Rightarrow> bool" where
  stay: "contract_run c c"
| move: "contract_run c c1 \<Longrightarrow> contract_step c1 c2 \<Longrightarrow> contract_run c c2"

lemma contract_step_ok: "contract_step c c' \<Longrightarrow> claims_ok c \<Longrightarrow> claims_ok c'"
proof (erule contract_stepE)
  show "claims_ok c \<Longrightarrow> c' = onRequest r c \<Longrightarrow> claims_ok c'" for r by (simp add: onRequest_def)
  show "claims_ok c \<Longrightarrow> DrainIntents e arr c = (ks, c') \<Longrightarrow> claims_ok c'" for e arr ks
    using DrainIntents_ok [of c e arr] by simp
qed (auto dest: ProcessControl_ok AfterStep_ok)

lemma contract_run_ok: "contract_run c c' \<Longrightarrow> claims_ok c \<Longrightarrow> claims_ok c'"
  by (induction rule: contract_run.induct) (auto dest: contract_step_ok)

lemma NewContract_ok: "claims_ok (NewContract run cfg)"
  by (simp add: claims_ok_def NewContract_def)

lemma reachable_ok: "contract_run (NewContract run cfg) c \<Longrightarrow> claims_ok c"
  by (rule contract_run_ok [OF _ NewContract_ok])

subsection \<open>What the claim filter and the hold-last rule let through\<close>

definition own_arrival :: "Contract \<Rightarrow> ArrivedIntent \<Rightarrow> bool" where
  "own_arrival c a \<longleftrightarrow> (case map_of (k_ctrls c) (ar_Controller a) of None \<Rightarrow> False
     | Some ctl \<Rightarrow> drives ctl \<and> k_byVehicle c (in_VehicleID (ar_Intent a)) = Some (ar_Controller a))"

definition authorised :: "Contract \<Rightarrow> string \<Rightarrow> u64 \<Rightarrow> u8 \<Rightarrow> bool" where
  "authorised c cid vid grant \<longleftrightarrow> (case map_of (k_ctrls c) cid of
     None \<Rightarrow> k_byVehicle c vid = None \<and> grant = 0
   | Some ctl \<Rightarrow> grant = ct_grant ctl \<and>
       (drives ctl \<and> k_byVehicle c vid = Some cid \<or> GrantDirector \<le> grant))"

text \<open>What the drain loop never touches.\<close>

definition same_rights :: "Contract \<Rightarrow> Contract \<Rightarrow> bool" where
  "same_rights c c' \<longleftrightarrow> k_byVehicle c' = k_byVehicle c \<and> k_cfg c' = k_cfg c \<and>
     (\<forall>cid. map_option (\<lambda>x. (ct_grants x, ct_grant x, ct_cadence x)) (map_of (k_ctrls c') cid)
        = map_option (\<lambda>x. (ct_grants x, ct_grant x, ct_cadence x)) (map_of (k_ctrls c) cid))"

lemma same_rightsD:
  assumes "same_rights c c'"
  shows "own_arrival c' a = own_arrival c a" and "authorised c' cid vid g = authorised c cid vid g"
proof -
  have own: "k_byVehicle c' = k_byVehicle c"
    and E: "\<And>cid. map_option (\<lambda>x. (ct_grants x, ct_grant x, ct_cadence x)) (map_of (k_ctrls c') cid)
        = map_option (\<lambda>x. (ct_grants x, ct_grant x, ct_cadence x)) (map_of (k_ctrls c) cid)"
    using assms unfolding same_rights_def by blast+
  show "own_arrival c' a = own_arrival c a"
    using E [of "ar_Controller a"] by (auto simp: own_arrival_def own drives_def split: option.splits)
  show "authorised c' cid vid g = authorised c cid vid g"
    using E [of cid] by (auto simp: authorised_def own drives_def split: option.splits)
qed

lemma same_rights_trans: "same_rights a b \<Longrightarrow> same_rights b c \<Longrightarrow> same_rights a c"
  by (simp add: same_rights_def)

lemma same_rights_refl: "same_rights c c"
  by (simp add: same_rights_def)

lemma same_rights_upd:
  "(\<And>x. ct_grants (f x) = ct_grants x \<and> ct_grant (f x) = ct_grant x \<and> ct_cadence (f x) = ct_cadence x) \<Longrightarrow>
   same_rights c (upd_ctl cid f c)"
  by (simp add: same_rights_def option.map_comp comp_def)

lemma same_rights_frame [simp]:
  "same_rights c (c'\<lparr>k_hold := h\<rparr>) = same_rights c c'" "same_rights c (c'\<lparr>k_claimViolations := n\<rparr>) = same_rights c c'"
  "same_rights c (c'\<lparr>k_legacySeqs := l\<rparr>) = same_rights c c'"
  by (simp_all add: same_rights_def)

lemma drain_one_facts:
  "same_rights c (snd (snd (drain_one e a c)))"
  "fst (snd (drain_one e a c)) = own_arrival c a"
  "k_hold (snd (snd (drain_one e a c))) =
     (if own_arrival c a then AList.update (in_VehicleID (ar_Intent a))
        \<lparr>hs_intent = ar_Intent a, hs_lastFresh = e_Tick e,
         hs_cadence = ct_cadence (the (map_of (k_ctrls c) (ar_Controller a))),
         hs_grant = ct_grant (the (map_of (k_ctrls c) (ar_Controller a))),
         hs_ctrlID = ar_Controller a, hs_seq = 0\<rparr> (k_hold c)
      else k_hold c)"
proof -
  let ?c1 = "upd_ctl (ar_Controller a) (\<lambda>x. x\<lparr>ct_lastSeen := e_Tick e\<rparr>) c"
  have u1: "same_rights c ?c1" by (rule same_rights_upd) simp
  have u2: "same_rights c (upd_ctl (ar_Controller a) (\<lambda>x. x\<lparr>ct_seq := n\<rparr>) ?c1)" for n
    by (rule same_rights_trans [OF u1 same_rights_upd]) simp
  show "same_rights c (snd (snd (drain_one e a c)))"
    using u1 u2 by (simp add: drain_one_def Let_def same_rights_refl split: option.split)
  show "fst (snd (drain_one e a c)) = own_arrival c a"
    by (auto simp: drain_one_def own_arrival_def Let_def split: option.split)
  show "k_hold (snd (snd (drain_one e a c))) =
     (if own_arrival c a then AList.update (in_VehicleID (ar_Intent a))
        \<lparr>hs_intent = ar_Intent a, hs_lastFresh = e_Tick e,
         hs_cadence = ct_cadence (the (map_of (k_ctrls c) (ar_Controller a))),
         hs_grant = ct_grant (the (map_of (k_ctrls c) (ar_Controller a))),
         hs_ctrlID = ar_Controller a, hs_seq = 0\<rparr> (k_hold c)
      else k_hold c)"
    by (auto simp: drain_one_def own_arrival_def Let_def split: option.split)
qed

lemma drain_one_key:
  assumes "fst (drain_one e a c) = Some k"
  shows "\<not> ki_Held k \<and> ki_Intent k = ar_Intent a \<and> ki_Controller k = ar_Controller a \<and>
    authorised c (ki_Controller k) (in_VehicleID (ki_Intent k)) (ki_Grant k)"
  using assms
  by (auto simp: drain_one_def authorised_def Let_def not_less split: option.splits if_splits)

lemma drain_arrivals_facts:
  "same_rights c (snd (snd (drain_arrivals e as c))) \<and>
   set (fst (snd (drain_arrivals e as c))) = (\<lambda>a. in_VehicleID (ar_Intent a)) ` set (filter (own_arrival c) as) \<and>
   (\<forall>vid. vid \<notin> set (fst (snd (drain_arrivals e as c))) \<longrightarrow>
      map_of (k_hold (snd (snd (drain_arrivals e as c)))) vid = map_of (k_hold c) vid) \<and>
   (\<forall>k \<in> set (fst (drain_arrivals e as c)). \<not> ki_Held k \<and>
      (\<exists>a \<in> set as. ki_Intent k = ar_Intent a \<and> ki_Controller k = ar_Controller a) \<and>
      authorised c (ki_Controller k) (in_VehicleID (ki_Intent k)) (ki_Grant k))"
proof (induction as arbitrary: c)
  case (Cons a as)
  obtain k own c1 where d: "drain_one e a c = (k, own, c1)" by (metis surj_pair)
  obtain ks fr c2 where r: "drain_arrivals e as c1 = (ks, fr, c2)" by (metis surj_pair)
  note f = drain_one_facts [where c = c and e = e and a = a, unfolded d fst_conv snd_conv]
  note eq = same_rightsD [OF f(1)]
  note IH = Cons.IH [of c1, unfolded r fst_conv snd_conv eq]
  have rights: "same_rights c c2" using same_rights_trans [OF f(1)] IH by blast
  have k: "\<not> ki_Held x \<and> ki_Intent x = ar_Intent a \<and> ki_Controller x = ar_Controller a \<and>
    authorised c (ki_Controller x) (in_VehicleID (ki_Intent x)) (ki_Grant x)" if "k = Some x" for x
    by (rule drain_one_key [of e a c x, unfolded d fst_conv, OF that])
  have h: "map_of (k_hold c1) vid = map_of (k_hold c) vid" if "vid \<noteq> in_VehicleID (ar_Intent a) \<or> \<not> own" for vid
    using that f(2,3) by (auto simp: update_conv')
  have flt: "set (filter (own_arrival c1) as) = set (filter (own_arrival c) as)"
    using eq(1) by simp
  show ?case
    using IH rights k h f(2) by (auto simp: d r eq(1) split: option.splits)
qed (simp add: same_rights_refl)

definition bridge_live :: "Engine \<Rightarrow> Contract \<Rightarrow> u64 \<Rightarrow> bool" where
  "bridge_live e c vid \<longleftrightarrow> (case map_of (k_hold c) vid of
     None \<Rightarrow> False | Some h \<Rightarrow> hold_live (k_cfg c) (e_Tick e) h)"

definition bridge :: "Contract \<Rightarrow> u64 \<Rightarrow> string \<times> u8 \<times> Intent" where
  "bridge c vid = (let h = the (map_of (k_hold c) vid) in (hs_ctrlID h, hs_grant h, hs_intent h))"

definition key_of :: "KeyedIntent \<Rightarrow> string \<times> u8 \<times> Intent" where
  "key_of k = (ki_Controller k, ki_Grant k, ki_Intent k)"

text \<open>A bridge apart from its re-issue counter.\<close>

definition unnumbered :: "holdState \<Rightarrow> holdState" where "unnumbered h = h\<lparr>hs_seq := 0\<rparr>"

lemma unnumbered_sel [simp]:
  "hs_ctrlID (unnumbered h) = hs_ctrlID h" "hs_grant (unnumbered h) = hs_grant h"
  "hs_intent (unnumbered h) = hs_intent h" "hold_live cfg t (unnumbered h) = hold_live cfg t h"
  "unnumbered (h\<lparr>hs_seq := n\<rparr>) = unnumbered h"
  by (simp_all add: unnumbered_def hold_live_def hold_window_def)

definition bridges :: "Contract \<Rightarrow> u64 \<Rightarrow> holdState option" where
  "bridges c vid = map_option unnumbered (map_of (k_hold c) vid)"

lemma bridge_bridges:
  "bridge_live e c vid = (case bridges c vid of None \<Rightarrow> False | Some h \<Rightarrow> hold_live (k_cfg c) (e_Tick e) h)"
  "bridges c vid = Some h \<Longrightarrow> bridge c vid = (hs_ctrlID h, hs_grant h, hs_intent h)"
  by (auto simp: bridge_live_def bridges_def bridge_def split: option.split)

lemma hold_one_facts:
  "k_cfg (snd (hold_one e vid c)) = k_cfg c"
  "bridges (snd (hold_one e vid c)) v
   = (if v = vid \<and> \<not> bridge_live e c vid then None else bridges c v)"
  "map key_of (fst (hold_one e vid c)) = (if bridge_live e c vid then [bridge c vid] else [])"
  "list_all ki_Held (fst (hold_one e vid c))"
  by (auto simp: hold_one_def Let_def bridges_def bridge_live_def bridge_def key_of_def delete_conv' update_conv'
      split: option.splits)

lemma hold_each_facts:
  assumes "distinct vids"
  shows "k_cfg (snd (hold_each e fresh vids c)) = k_cfg c \<and>
    (\<forall>v. bridges (snd (hold_each e fresh vids c)) v
      = (if v \<in> set vids \<and> v \<notin> set fresh \<and> \<not> bridge_live e c v then None else bridges c v)) \<and>
    map key_of (fst (hold_each e fresh vids c))
      = map (bridge c) (filter (\<lambda>v. v \<notin> set fresh \<and> bridge_live e c v) vids) \<and>
    list_all ki_Held (fst (hold_each e fresh vids c))"
  using assms
proof (induction vids arbitrary: c)
  case (Cons vid vids)
  show ?case
  proof (cases "vid \<in> set fresh")
    case True
    then show ?thesis using Cons by auto
  next
    case False
    obtain k c1 where h: "hold_one e vid c = (k, c1)" by fastforce
    obtain ks c2 where r: "hold_each e fresh vids c1 = (ks, c2)" by fastforce
    note f = hold_one_facts [where e = e and vid = vid and c = c, unfolded h fst_conv snd_conv]
    have live: "bridge_live e c1 v = bridge_live e c v" if "v \<noteq> vid" for v
      using that by (simp add: bridge_bridges(1) f split: option.split)
    have br: "bridge c1 v = bridge c v" if ne: "v \<noteq> vid" and lv: "bridge_live e c v" for v
    proof -
      obtain x where x: "bridges c v = Some x"
        using lv unfolding bridge_bridges(1) by (auto split: option.splits)
      then have "bridges c1 v = Some x" using f(2) ne by simp
      then show ?thesis using bridge_bridges(2) x by metis
    qed
    note IH = Cons.IH [of c1, unfolded r fst_conv snd_conv]
    have "map (bridge c1) (filter (\<lambda>v. v \<notin> set fresh \<and> bridge_live e c1 v) vids)
        = map (bridge c) (filter (\<lambda>v. v \<notin> set fresh \<and> bridge_live e c v) vids)"
    proof -
      have "filter (\<lambda>v. v \<notin> set fresh \<and> bridge_live e c1 v) vids = filter (\<lambda>v. v \<notin> set fresh \<and> bridge_live e c v) vids"
      proof (rule filter_cong [OF refl])
        fix x assume "x \<in> set vids"
        then have "x \<noteq> vid" using Cons.prems by auto
        from live [OF this] show "(x \<notin> set fresh \<and> bridge_live e c1 x) = (x \<notin> set fresh \<and> bridge_live e c x)"
          by simp
      qed
      moreover have "map (bridge c1) (filter (\<lambda>v. v \<notin> set fresh \<and> bridge_live e c v) vids)
          = map (bridge c) (filter (\<lambda>v. v \<notin> set fresh \<and> bridge_live e c v) vids)"
      proof (rule map_cong [OF refl])
        fix x assume "x \<in> set (filter (\<lambda>v. v \<notin> set fresh \<and> bridge_live e c v) vids)"
        then have "x \<noteq> vid" "bridge_live e c x" using Cons.prems by auto
        then show "bridge c1 x = bridge c x" by (rule br)
      qed
      ultimately show ?thesis by simp
    qed
    moreover have "bridges c2 v
        = (if v \<in> set (vid # vids) \<and> v \<notin> set fresh \<and> \<not> bridge_live e c v then None else bridges c v)" for v
    proof (cases "v = vid")
      case True
      then show ?thesis using IH f(2) [of v] Cons.prems False by simp
    next
      case ne: False
      then show ?thesis using IH f(2) [of v] Cons.prems live [OF ne] by simp
    qed
    ultimately show ?thesis using IH f Cons.prems False by (simp add: h r)
  qed
qed simp

lemma sort_filter_eq:
  fixes xs ys :: "u64 list"
  assumes "distinct xs" "distinct ys" "\<And>v. P v \<Longrightarrow> v \<in> set xs \<longleftrightarrow> v \<in> set ys"
  shows "filter P (sort xs) = filter P (sort ys)"
proof -
  have "sorted (filter P (sort xs))" "sorted (filter P (sort ys))"
    by (simp_all add: sorted_filter [where f = id, simplified])
  moreover have "set (filter P (sort xs)) = set (filter P (sort ys))" using assms(3) by auto
  ultimately show ?thesis
    using assms(1,2) by (intro sorted_distinct_set_unique) simp_all
qed

definition own_vids :: "Contract \<Rightarrow> ArrivedIntent list \<Rightarrow> u64 list" where
  "own_vids c arr = map (\<lambda>a. in_VehicleID (ar_Intent a)) (filter (own_arrival c) arr)"

lemma drain_core:
  assumes ok: "claims_ok c"
  shows "map key_of (filter ki_Held (fst (DrainIntents e arr c)))
      = map (bridge c) (filter (\<lambda>vid. vid \<notin> set (own_vids c arr) \<and> bridge_live e c vid) (sort (map fst (k_hold c))))"
    and "vid \<notin> set (own_vids c arr) \<Longrightarrow>
      bridges (snd (DrainIntents e arr c)) vid = (if bridge_live e c vid then bridges c vid else None)"
    and "k \<in> set (fst (DrainIntents e arr c)) \<Longrightarrow> \<not> ki_Held k \<Longrightarrow>
      list_ex (\<lambda>a. ki_Intent k = ar_Intent a \<and> ki_Controller k = ar_Controller a) arr \<and>
      authorised c (ki_Controller k) (in_VehicleID (ki_Intent k)) (ki_Grant k)"
proof -
  obtain ks fresh c1 where d: "drain_arrivals e arr c = (ks, fresh, c1)" by (metis surj_pair)
  obtain hs c2 where h: "hold_each e fresh (sort (map fst (k_hold c1))) c1 = (hs, c2)" by fastforce
  have D: "DrainIntents e arr c = (ks @ hs, c2)" by (simp add: DrainIntents_def d h)
  note f = drain_arrivals_facts [of c e arr, unfolded d fst_conv snd_conv]
  have fresh: "set fresh = set (own_vids c arr)" using f by (auto simp: own_vids_def)
  have ok1: "claims_ok c1" using drain_arrivals_ok [OF ok, of e arr] d by simp
  have dist: "distinct (map fst (k_hold c1))" "distinct (map fst (k_hold c))"
    using claims_okD(8) [OF ok1] claims_okD(8) [OF ok] by blast+
  have same: "map_of (k_hold c1) v = map_of (k_hold c) v" if "v \<notin> set fresh" for v
    using f that by blast
  have cfg: "k_cfg c1 = k_cfg c" using f by (simp add: same_rights_def)
  have eqs: "bridge_live e c1 v = bridge_live e c v" "bridge c1 v = bridge c v" "bridges c1 v = bridges c v"
    if "v \<notin> set fresh" for v
    using same [OF that] by (simp_all add: bridge_live_def bridge_def bridges_def cfg split: option.split)
  have ds: "distinct (sort (map fst (k_hold c1)))" using dist(1) by simp
  note H = hold_each_facts [OF ds, of e fresh c1, unfolded h fst_conv snd_conv]
  have held: "filter ki_Held ks = []" "filter ki_Held hs = hs"
    using f H by (auto simp: filter_empty_conv filter_id_conv list_all_iff)
  have "filter (\<lambda>v. v \<notin> set fresh \<and> bridge_live e c1 v) (sort (map fst (k_hold c1)))
      = filter (\<lambda>v. v \<notin> set fresh \<and> bridge_live e c v) (sort (map fst (k_hold c1)))"
    using eqs(1) by (intro filter_cong) auto
  also have "\<dots> = filter (\<lambda>v. v \<notin> set fresh \<and> bridge_live e c v) (sort (map fst (k_hold c)))"
  proof (rule sort_filter_eq [OF dist])
    fix v assume "v \<notin> set fresh \<and> bridge_live e c v"
    then have "map_of (k_hold c1) v = map_of (k_hold c) v" using same by blast
    then show "v \<in> set (map fst (k_hold c1)) \<longleftrightarrow> v \<in> set (map fst (k_hold c))"
      using map_of_eq_None_iff [of "k_hold c1" v] map_of_eq_None_iff [of "k_hold c" v] by simp
  qed
  finally have keys: "filter (\<lambda>v. v \<notin> set fresh \<and> bridge_live e c1 v) (sort (map fst (k_hold c1)))
      = filter (\<lambda>v. v \<notin> set fresh \<and> bridge_live e c v) (sort (map fst (k_hold c)))" .
  have "map key_of hs = map (bridge c1) (filter (\<lambda>v. v \<notin> set fresh \<and> bridge_live e c v) (sort (map fst (k_hold c))))"
    using H by (simp only: keys)
  also have "\<dots> = map (bridge c) (filter (\<lambda>v. v \<notin> set fresh \<and> bridge_live e c v) (sort (map fst (k_hold c))))"
    using eqs(2) by (intro map_cong) auto
  finally show "map key_of (filter ki_Held (fst (DrainIntents e arr c)))
      = map (bridge c) (filter (\<lambda>vid. vid \<notin> set (own_vids c arr) \<and> bridge_live e c vid) (sort (map fst (k_hold c))))"
    by (simp add: D held fresh)
  show "bridges (snd (DrainIntents e arr c)) vid = (if bridge_live e c vid then bridges c vid else None)"
    if "vid \<notin> set (own_vids c arr)"
  proof -
    have nf: "vid \<notin> set fresh" using that fresh by simp
    have "bridges c vid = None" if "vid \<notin> set (map fst (k_hold c1))"
      using that eqs(3) [OF nf] map_of_eq_None_iff [of "k_hold c1" vid] by (simp add: bridges_def)
    then show ?thesis using H nf eqs [OF nf] by (auto simp: D)
  qed
  show "list_ex (\<lambda>a. ki_Intent k = ar_Intent a \<and> ki_Controller k = ar_Controller a) arr \<and>
      authorised c (ki_Controller k) (in_VehicleID (ki_Intent k)) (ki_Grant k)"
    if "k \<in> set (fst (DrainIntents e arr c))" "\<not> ki_Held k"
    using that f H by (auto simp: D list_ex_iff list_all_iff)
qed

subsection \<open>Verbs are answered once\<close>

abbreviation remembers :: "string \<Rightarrow> VerbReply \<Rightarrow> Contract \<Rightarrow> bool" where
  "remembers rid r c \<equiv> k_verbs c rid = Some r"

lemma verbs_frame [simp]:
  "k_verbs (publishEvent sb ev c) = k_verbs c" "k_verbs (respond rs rp c) = k_verbs c"
  "k_verbs (announce vids c) = k_verbs c" "k_verbs (release_events e cid vids reason c) = k_verbs c"
  "k_verbs (claim_event e cid vids c) = k_verbs c" "k_verbs (releaseOne cid vid c) = k_verbs c"
  by (simp_all add: publishEvent_def respond_def announce_def release_events_def claim_event_def releaseOne_def)

lemma verbs_ops [simp]:
  "k_verbs (snd (tryClaim e ctl vid c)) = k_verbs c"
  "k_verbs (snd (snd (claim_each e ctl vids c))) = k_verbs c"
  "k_verbs (fold (releaseOne cid) ids c) = k_verbs c"
  "k_verbs (detach e cid reason c) = k_verbs c"
  "k_verbs (snd (release_each cid ids c)) = k_verbs c"
proof -
  show t: "k_verbs (snd (tryClaim e ctl vid c)) = k_verbs c" for e ctl vid c
    by (simp add: tryClaim_def Let_def)
  show "k_verbs (snd (snd (claim_each e ctl vids c))) = k_verbs c"
    by (induction vids arbitrary: c) (simp_all add: split_beta Let_def t)
  show f: "k_verbs (fold (releaseOne cid) ids c) = k_verbs c" for ids c
    by (induction ids arbitrary: c) simp_all
  show "k_verbs (detach e cid reason c) = k_verbs c"
    by (simp add: detach_def Let_def f split: option.split)
  show "k_verbs (snd (release_each cid ids c)) = k_verbs c"
    by (induction ids arbitrary: c) (simp_all add: split_beta Let_def)
qed

lemma verb_answer_remembers: "remembers rid r c \<Longrightarrow> remembers rid r (fst (snd (verb_answer e cid p c)))"
  by (auto simp: verb_answer_def Let_def split_beta split: sum.split option.split)


lemma handlers_remember:
  "k_verbs (handleHello e rs hp c) = k_verbs c" "k_verbs (handleClaim e cid rs cp c) = k_verbs c"
  "k_verbs (handleRelease e cid rp c) = k_verbs c"
  by (auto simp: handleHello_def handleClaim_def handleRelease_def Let_def split_beta split: sum.split option.split)

interpretation reqv: keeps "\<lambda>(e, c). remembers rid r c" process_req for rid r
proof
  fix s :: "Engine \<times> Contract" and q
  assume "case s of (e, c) \<Rightarrow> remembers rid r c"
  moreover obtain e c where "s = (e, c)" by (cases s)
  ultimately show "case process_req q s of (e, c) \<Rightarrow> remembers rid r c"
    using verb_answer_remembers
    by (cases q) (simp_all add: process_req_def handlers_remember handleVerb_def split_beta)
qed

interpretation sweepv: keeps "remembers rid r" "sweep_one e" for rid r e
  by unfold_locales (simp add: sweep_one_def split: option.split)

interpretation obsv: keeps "remembers rid r" "publish_one_obs sent" for rid r sent
  by unfold_locales
    (auto simp: publish_one_obs_def noteObsOK_def noteObsErr_def Let_def split: option.split)

lemma ProcessControl_remembers:
  assumes "ProcessControl rec now e c = Inr (e', c')" and "remembers rid r c"
  shows "remembers rid r c'"
proof -
  obtain e1 c1 where f: "fold process_req (k_reqs c) (e, c\<lparr>k_reqs := []\<rparr>) = (e1, c1)" by fastforce
  have "remembers rid r c1"
    using reqv.fold_keeps [of rid r "(e, c\<lparr>k_reqs := []\<rparr>)" "k_reqs c"] assms(2) f by simp
  then have "remembers rid r (liveness_sweep e1 c1)"
    by (simp add: liveness_sweep_def sweepv.fold_keeps)
  then show ?thesis
    using assms(1) f
    by (auto simp: ProcessControl_def resume_check_def emitPause_def Let_def split_beta
        split: sum.splits if_splits option.splits)
qed

lemma drain_remembers: "k_verbs (snd (DrainIntents e arr c)) = k_verbs c"
proof -
  have o: "k_verbs (snd (snd (drain_one e a c))) = k_verbs c" for a c
    by (simp add: drain_one_def Let_def split: option.split)
  have d: "k_verbs (snd (snd (drain_arrivals e as c))) = k_verbs c" for as c
    by (induction as arbitrary: c) (simp_all add: split_beta Let_def o)
  have h1: "k_verbs (snd (hold_one e v c)) = k_verbs c" for v c
    by (simp add: hold_one_def Let_def split: option.split)
  have h: "k_verbs (snd (hold_each e fr vs c)) = k_verbs c" for fr vs c
    by (induction vs arbitrary: c) (simp_all add: split_beta Let_def h1)
  show ?thesis by (simp add: DrainIntents_def split_beta Let_def d h)
qed

lemma emitPause_verbs: "emitPause rec e kind d a c = Inr c' \<Longrightarrow> k_verbs c' = k_verbs c"
  by (auto simp: emitPause_def Let_def split: option.splits)

lemma pause_gate_verbs: "pause_gate rec now e c = Inr c' \<Longrightarrow> k_verbs c' = k_verbs c"
  by (auto simp: pause_gate_def Let_def split_beta split: if_splits dest!: emitPause_verbs)

lemma AfterStep_remembers:
  assumes "AfterStep rec now sent e c = Inr c'" and "remembers rid r c"
  shows "remembers rid r c'"
proof -
  have n: "k_verbs (snd (new_unclaimed vs c)) = k_verbs c" for vs c
    by (induction vs arbitrary: c) (simp_all add: split_beta Let_def)
  have "remembers rid r (fold (publish_one_obs sent) (sort (map fst (k_ctrls c))) c)"
    using assms(2) by (rule obsv.fold_keeps)
  then have "remembers rid r (announce_spawns e (despawn_sweep e (fold (publish_one_obs sent) (sort (map fst (k_ctrls c))) c)))"
    by (simp add: announce_spawns_def split_beta Let_def n) (simp add: despawn_sweep_def Let_def)
  then show ?thesis
    using assms(1) pause_gate_verbs unfolding AfterStep_def Let_def by metis
qed

lemma contract_run_remembers: "contract_run c c' \<Longrightarrow> remembers rid r c \<Longrightarrow> remembers rid r c'"
proof (induction rule: contract_run.induct)
  case (move c c1 c2)
  note r = move.IH [OF move.prems]
  from move.hyps(2) show ?case
  proof (rule contract_stepE)
    show "c2 = onRequest q c1 \<Longrightarrow> remembers rid r c2" for q
      using r by (simp add: onRequest_def)
    show "DrainIntents e arr c1 = (ks, c2) \<Longrightarrow> remembers rid r c2" for e arr ks
      using drain_remembers [of e arr c1] r by simp
  qed (use r ProcessControl_remembers AfterStep_remembers in blast)+
qed

subsection \<open>The pause gate\<close>

definition gate :: "Contract \<Rightarrow> bool \<times> int \<times> ContractConfig" where
  "gate c = (k_paused c, k_pausedAt c, k_cfg c)"

lemma gate_frame [simp]:
  "gate (publishEvent sb ev c) = gate c" "gate (respond rs rp c) = gate c" "gate (announce vids c) = gate c"
  "gate (release_events e cid vids reason c) = gate c" "gate (claim_event e cid vids c) = gate c"
  "gate (releaseOne cid vid c) = gate c" "gate (upd_ctl cid f c) = gate c"
  by (simp_all add: gate_def publishEvent_def respond_def announce_def release_events_def claim_event_def
      releaseOne_def upd_ctl_def)

lemma gate_ops [simp]:
  "gate (snd (tryClaim e ctl vid c)) = gate c" "gate (snd (snd (claim_each e ctl vids c))) = gate c"
  "gate (fold (releaseOne cid) ids c) = gate c" "gate (detach e cid reason c) = gate c"
  "gate (snd (release_each cid ids c)) = gate c" "gate (fst (snd (verb_answer e cid vp c))) = gate c"
proof -
  show t: "gate (snd (tryClaim e ctl vid c)) = gate c" for e ctl vid c
    by (simp add: tryClaim_def Let_def gate_def upd_ctl_def)
  show "gate (snd (snd (claim_each e ctl vids c))) = gate c"
    by (induction vids arbitrary: c) (simp_all add: split_beta Let_def t)
  show f: "gate (fold (releaseOne cid) ids c) = gate c" for ids c
    by (induction ids arbitrary: c) simp_all
  show "gate (detach e cid reason c) = gate c"
    by (simp add: detach_def Let_def f split: option.split) (simp add: gate_def)
  show "gate (snd (release_each cid ids c)) = gate c"
    by (induction ids arbitrary: c) (simp_all add: split_beta Let_def)
  have v: "gate (c\<lparr>k_verbs := v\<rparr>) = gate c" for c v by (simp add: gate_def)
  show "gate (fst (snd (verb_answer e cid vp c))) = gate c"
    by (auto simp: verb_answer_def Let_def split_beta v split: sum.split option.split)
qed

lemma gate_handlers [simp]:
  "gate (handleClaim e cid rs cp c) = gate c" "gate (handleRelease e cid rp c) = gate c"
  "gate (handleHello e rs hp c) = gate c"
proof -
  show "gate (handleClaim e cid rs cp c) = gate c" "gate (handleRelease e cid rp c) = gate c"
    by (auto simp: handleClaim_def handleRelease_def Let_def split_beta split: sum.split option.split)
  have "gate (c\<lparr>k_nextID := n, k_ctrls := t, k_driveSeen := b\<rparr>) = gate c" for n t b by (simp add: gate_def)
  then show "gate (handleHello e rs hp c) = gate c"
    by (auto simp: handleHello_def Let_def split_beta split: sum.split)
qed

interpretation reqg: keeps "\<lambda>(e, c). gate c = g" process_req for g
proof
  fix s :: "Engine \<times> Contract" and q
  assume "case s of (e, c) \<Rightarrow> gate c = g"
  moreover obtain e c where "s = (e, c)" by (cases s)
  ultimately show "case process_req q s of (e, c) \<Rightarrow> gate c = g"
    by (cases q) (simp_all add: process_req_def handleVerb_def split_beta)
qed

interpretation sweepg: keeps "\<lambda>c. gate c = g" "sweep_one e" for g e
  by unfold_locales (simp add: sweep_one_def split: option.split)

lemma control_reaches_gate:
  assumes "ProcessControl rec now e c = Inr (e', c')"
  obtains c1 where "gate c1 = gate c" "resume_check rec now e' c1 = Inr c'"
proof -
  obtain e1 c1 where f: "fold process_req (k_reqs c) (e, c\<lparr>k_reqs := []\<rparr>) = (e1, c1)" by fastforce
  have "gate (c\<lparr>k_reqs := []\<rparr>) = gate c" by (simp add: gate_def)
  then have "gate c1 = gate c"
    using reqg.fold_keeps [of "gate c" "(e, c\<lparr>k_reqs := []\<rparr>)" "k_reqs c"] f by simp
  then have "gate (liveness_sweep e1 c1) = gate c"
    by (simp add: liveness_sweep_def sweepg.fold_keeps)
  moreover have "resume_check rec now e' (liveness_sweep e1 c1) = Inr c'"
    using assms f by (auto simp: ProcessControl_def split: sum.splits)
  ultimately show ?thesis by (rule that)
qed

lemma emitPause_gate:
  assumes "emitPause rec e kind d a c = Inr c'"
  shows "k_paused c' = k_paused c" "capacity e' c' = capacity e' c"
  using assms by (auto simp: emitPause_def publishEvent_def capacity_def Let_def split: option.splits)

lemma resume_check_gate:
  assumes "resume_check rec now e c = Inr c'" and "k_paused c"
  shows "k_paused c' \<longleftrightarrow> \<not> (fst (capacity e c') \<le> snd (capacity e c') \<or>
    cc_PauseEscapeAfter (k_cfg c) \<le> now - k_pausedAt c)"
proof -
  obtain d a where cap: "capacity e c = (d, a)" by fastforce
  have frame: "capacity e (c\<lparr>k_paused := p\<rparr>) = (d, a)" "capacity e (c\<lparr>k_pauseLogAt := t\<rparr>) = (d, a)"
    "capacity e (c\<lparr>k_paused := p, k_escaped := q\<rparr>) = (d, a)"
    "capacity e (c\<lparr>k_pauseLogAt := t, k_paused := p, k_escaped := q\<rparr>) = (d, a)" for p q t
    using cap by (simp_all add: capacity_def)
  let ?c1 = "if cc_PauseLogEvery (k_cfg c) \<le> now - k_pauseLogAt c then c\<lparr>k_pauseLogAt := now\<rparr> else c"
  have c1: "k_cfg ?c1 = k_cfg c" "k_pausedAt ?c1 = k_pausedAt c" "k_paused ?c1" "capacity e ?c1 = (d, a)"
    using assms(2) cap frame by simp_all
  have esc: "capacity e (?c1\<lparr>k_paused := False, k_escaped := True\<rparr>) = (d, a)"
    using frame by simp
  note R = assms(1) [unfolded resume_check_def, simplified assms(2) cap Let_def prod.case c1 not_True_eq_False if_False]
  show ?thesis
  proof (cases "d \<le> a")
    case True
    then have em: "emitPause rec e ''resume'' d a (c\<lparr>k_paused := False\<rparr>) = Inr c'" using R by simp
    then show ?thesis
      using True emitPause_gate(1) [OF em] emitPause_gate(2) [OF em, of e] by (simp add: frame)
  next
    case late: False
    show ?thesis
    proof (cases "cc_PauseEscapeAfter (k_cfg c) \<le> now - k_pausedAt c")
      case True
      then have em: "emitPause rec e ''resume'' d a (?c1\<lparr>k_paused := False, k_escaped := True\<rparr>) = Inr c'"
        using R late by simp
      then show ?thesis
        using True emitPause_gate(1) [OF em] by simp
    next
      case False
      then have "c' = ?c1" using R late by simp
      then show ?thesis using False late c1 by simp
    qed
  qed
qed

subsection \<open>Properties\<close>

text \<open>
  C2: Claims are exclusive. In every state the run loop can reach, whatever the controllers send
  and however the vehicles come and go, the ownership table names a controller for a vehicle
  exactly when that controller is attached and holds the vehicle in its claim set, so no vehicle
  is held by two controllers and none by a detached one; and the hold-last bridge of a vehicle is
  re-issued in the name of its owner, or of nobody when it has none.
\<close>

theorem claims_exclusive:
  assumes "contract_run (NewContract run cfg) c"
  shows "(k_byVehicle c vid = Some cid \<longleftrightarrow>
      (\<exists>x. map_of (k_ctrls c) cid = Some x \<and> ct_id x = cid \<and> vid \<in> set (ct_claims x))) \<and>
    (\<forall>h. map_of (k_hold c) vid = Some h \<longrightarrow>
      hs_ctrlID h = (case k_byVehicle c vid of None \<Rightarrow> [] | Some owner \<Rightarrow> owner))"
  using reachable_ok [OF assms] claims_okD(1,3,5,6) [OF reachable_ok [OF assms]] by blast

text \<open>
  C19: The claim filter. Every intent the drain lets through fresh was sent by the controller it
  is attributed to, and that controller was entitled to it: an attached one carries its own grant
  level and either drives the vehicle under its own claim or is a director; an unattached one is
  heard only for a vehicle nobody has claimed, at the lowest level.
\<close>

theorem drain_authorised:
  assumes "contract_run (NewContract run cfg) c" and "k \<in> set (fst (DrainIntents e arr c))" and "\<not> ki_Held k"
  shows "list_ex (\<lambda>a. ki_Intent k = ar_Intent a \<and> ki_Controller k = ar_Controller a) arr \<and>
    authorised c (ki_Controller k) (in_VehicleID (ki_Intent k)) (ki_Grant k)"
  using drain_core(3) [OF reachable_ok [OF assms(1)] assms(2,3)] .

text \<open>
  C23: Hold-last bridges exactly the window. The re-issued intents of a drain are, in vehicle
  order, the last intent of every tracked vehicle whose owner sent nothing for it and whose age
  is within cadence - 1 plus the healing window, in the owner's name and grant, unchanged; such a
  bridge survives the drain and one that has run out is dropped.
\<close>

theorem hold_last_exact:
  assumes "contract_run (NewContract run cfg) c"
  shows "map key_of (filter ki_Held (fst (DrainIntents e arr c)))
      = map (bridge c) (filter (\<lambda>v. v \<notin> set (own_vids c arr) \<and> bridge_live e c v) (sort (map fst (k_hold c)))) \<and>
    (vid \<notin> set (own_vids c arr) \<longrightarrow>
      bridges (snd (DrainIntents e arr c)) vid = (if bridge_live e c vid then bridges c vid else None))"
  using drain_core(1,2) [OF reachable_ok [OF assms]] by blast

text \<open>A verb that reaches the kernel: an attached director, a known kind, a usable request id.\<close>

definition well_sent :: "Contract \<Rightarrow> string \<Rightarrow> VerbRequest \<Rightarrow> bool" where
  "well_sent c cid req \<longleftrightarrow> (case map_of (k_ctrls c) cid of None \<Rightarrow> False
     | Some ctl \<Rightarrow> ''director'' \<in> set (ct_grants ctl)) \<and>
     (vq_Verb req = ''spawn'' \<or> vq_Verb req = ''signal_set'') \<and> vq_RequestID req \<noteq> [] \<and>
     int (length (vq_RequestID req)) \<le> MaxRequestIDBytes"

text \<open>
  C25: Verbs are idempotent for the whole run. Once a well-sent verb has been answered, a verb
  with the same request id, sent at any later time by any director, whatever happened between,
  gets the very same answer marked as a duplicate and leaves the engine untouched.
\<close>

theorem verb_idempotent:
  assumes "well_sent c cid req" and "k_verbs c (vq_RequestID req) = None"
    and "verb_answer e cid (Inr req) c = (e1, c1, r)"
    and "contract_run c1 c2"
    and "well_sent c2 cid2 req2" and "vq_RequestID req2 = vq_RequestID req"
  shows "fst (verb_answer e2 cid2 (Inr req2) c2) = e2 \<and>
    snd (snd (verb_answer e2 cid2 (Inr req2) c2)) = r\<lparr>vr_Duplicate := True\<rparr>"
proof -
  have "remembers (vq_RequestID req) r c1"
    using assms(1-3) by (auto simp: verb_answer_def well_sent_def Let_def not_le split: option.splits sum.splits)
  then have "remembers (vq_RequestID req2) r c2"
    using contract_run_remembers [OF assms(4)] assms(6) by simp
  then show ?thesis
    using assms(5) by (auto simp: verb_answer_def well_sent_def Let_def not_le split: option.splits)
qed

text \<open>
  The pause gate never wedges a run. A control pass over a gated run leaves it gated exactly
  when the live unclaimed vehicles still outnumber the spare claim capacity and the gate has been
  engaged for less than the escape time, whatever requests the pass served.
\<close>

theorem gate_escapes:
  assumes "ProcessControl rec now e c = Inr (e', c')" and "k_paused c"
  shows "k_paused c' \<longleftrightarrow> snd (capacity e' c') < fst (capacity e' c') \<and>
    now - k_pausedAt c < cc_PauseEscapeAfter (k_cfg c)"
proof (rule control_reaches_gate [OF assms(1)])
  fix c1
  assume "gate c1 = gate c" and r: "resume_check rec now e' c1 = Inr c'"
  then have "k_paused c1" "k_pausedAt c1 = k_pausedAt c" "k_cfg c1 = k_cfg c"
    using assms(2) by (simp_all add: gate_def)
  with resume_check_gate [OF r] show ?thesis by (simp add: not_le)
qed

subsection \<open>Witnesses\<close>

definition demo_cfg :: ContractConfig where
  "demo_cfg = \<lparr>cc_PauseAfterTicks = 0, cc_DetachAfterTicks = 0, cc_HoldLastTicks = 0, cc_PaceFloor = 0,
     cc_PauseLogEvery = 0, cc_PauseEscapeAfter = 0\<rparr>"

definition demo_hello :: "string list \<Rightarrow> u64 list \<Rightarrow> string + HelloRequest" where
  "demo_hello grants claims = Inr \<lparr>hr_ContractVersion = 2, hr_ControllerType = ''ai'', hr_CadenceTicks = 1,
     hr_Grants = grants, hr_ClaimCapacity = 4, hr_Claims = claims,
     hr_Window = \<lparr>ow_RadiusM = 0, ow_MaxNeighbors = 0, ow_Features = 0\<rparr>\<rparr>"

definition accept_all :: "ContractEvent \<Rightarrow> string option" where "accept_all ev = None"

text \<open>A driver attaches and claims vehicle 1; its first intent is drained at tick 25.\<close>

definition demo_c1 :: Contract where
  "demo_c1 = onRequest (ReqHello ''_INBOX.a'' (demo_hello [''drive'', ''director''] [1])) (NewContract ''r1'' demo_cfg)"

definition demo_c2 :: Contract where
  "demo_c2 = snd (projr (ProcessControl accept_all 0 demo_engine demo_c1))"

definition demo_arrival :: "u64 \<Rightarrow> ArrivedIntent" where
  "demo_arrival vid = \<lparr>ar_Controller = ''ctl-1'', ar_Intent = plain_intent vid\<rparr>"

definition demo_c3 :: Contract where
  "demo_c3 = snd (DrainIntents demo_engine [demo_arrival 1] demo_c2)"

lemma demo_c2_step: "contract_step demo_c1 demo_c2"
proof -
  have "\<not> isl (ProcessControl accept_all 0 demo_engine demo_c1)" by code_simp
  then have "ProcessControl accept_all 0 demo_engine demo_c1
      = Inr (fst (projr (ProcessControl accept_all 0 demo_engine demo_c1)), demo_c2)"
    unfolding demo_c2_def by (cases "ProcessControl accept_all 0 demo_engine demo_c1") simp_all
  then show ?thesis by (rule control)
qed

lemma demo_runs:
  "contract_run (NewContract ''r1'' demo_cfg) demo_c2" "contract_run (NewContract ''r1'' demo_cfg) demo_c3"
proof -
  have "contract_run (NewContract ''r1'' demo_cfg) demo_c1"
    unfolding demo_c1_def by (rule move [OF stay request])
  from move [OF this demo_c2_step] show r: "contract_run (NewContract ''r1'' demo_cfg) demo_c2" .
  have "DrainIntents demo_engine [demo_arrival 1] demo_c2
      = (fst (DrainIntents demo_engine [demo_arrival 1] demo_c2), demo_c3)"
    by (simp add: demo_c3_def)
  from move [OF r drain [OF this]] show "contract_run (NewContract ''r1'' demo_cfg) demo_c3" .
qed

lemma claims_exclusive_witness:
  "\<exists>x. map_of (k_ctrls demo_c2) ''ctl-1'' = Some x \<and> ct_id x = ''ctl-1'' \<and> 1 \<in> set (ct_claims x)"
proof -
  have "k_byVehicle demo_c2 1 = Some ''ctl-1''" by code_simp
  then show ?thesis using claims_exclusive [OF demo_runs(1), of 1 "''ctl-1''"] by blast
qed

definition demo_key :: KeyedIntent where
  "demo_key = hd (fst (DrainIntents demo_engine [demo_arrival 1] demo_c2))"

lemma drain_authorised_witness: "authorised demo_c2 ''ctl-1'' 1 3"
proof -
  have k: "demo_key \<in> set (fst (DrainIntents demo_engine [demo_arrival 1] demo_c2)) \<and> \<not> ki_Held demo_key \<and>
    ki_Controller demo_key = ''ctl-1'' \<and> in_VehicleID (ki_Intent demo_key) = 1 \<and> ki_Grant demo_key = 3"
    by code_simp
  have "authorised demo_c2 (ki_Controller demo_key) (in_VehicleID (ki_Intent demo_key)) (ki_Grant demo_key)"
    using drain_authorised [OF demo_runs(1), of demo_key demo_engine "[demo_arrival 1]"] k by blast
  then show ?thesis using k by simp
qed

text \<open>One silent tick later the intent is re-issued.\<close>

definition demo_late :: Engine where "demo_late = demo_engine\<lparr>e_Tick := 26\<rparr>"

lemma hold_last_exact_witness:
  "map key_of (filter ki_Held (fst (DrainIntents demo_late [] demo_c3))) = [(''ctl-1'', 3, plain_intent 1)]"
proof -
  have "map (bridge demo_c3) (filter (\<lambda>v. v \<notin> set (own_vids demo_c3 []) \<and> bridge_live demo_late demo_c3 v)
      (sort (map fst (k_hold demo_c3)))) = [(''ctl-1'', 3, plain_intent 1)]"
    by code_simp
  then show ?thesis using hold_last_exact [OF demo_runs(2), of demo_late "[]"] by simp
qed

definition demo_verb_req :: VerbRequest where
  "demo_verb_req = \<lparr>vq_Verb = ''spawn'', vq_RequestID = ''q1'', vq_Origin = ''a'', vq_VType = ''car'',
     vq_EarliestTick = 30, vq_Destination = [], vq_OffsetM = 0, vq_Signal = [], vq_Phase = None, vq_HoldTicks = 0\<rparr>"

lemma verb_idempotent_witness:
  "fst (verb_answer demo_late ''ctl-1'' (Inr demo_verb_req)
     (fst (snd (verb_answer demo_engine ''ctl-1'' (Inr demo_verb_req) demo_c2)))) = demo_late"
proof -
  let ?a = "verb_answer demo_engine ''ctl-1'' (Inr demo_verb_req) demo_c2"
  have w: "well_sent demo_c2 ''ctl-1'' demo_verb_req" and n: "k_verbs demo_c2 (vq_RequestID demo_verb_req) = None"
    and w2: "well_sent (fst (snd ?a)) ''ctl-1'' demo_verb_req"
    by code_simp+
  have "?a = (fst ?a, fst (snd ?a), snd (snd ?a))" by simp
  from verb_idempotent [OF w n this stay w2 refl, of demo_late] show ?thesis by blast
qed

text \<open>A gated run without any drive capacity, one minute later.\<close>

definition demo_gated :: Contract where
  "demo_gated = (NewContract ''r1'' demo_cfg)\<lparr>k_driveSeen := True, k_paused := True, k_pausedAt := 0\<rparr>"

definition demo_freed :: "Engine \<times> Contract" where
  "demo_freed = projr (ProcessControl accept_all 60000000000 demo_engine demo_gated)"

lemma gate_escapes_witness: "\<not> k_paused (snd demo_freed)"
proof -
  have "\<not> isl (ProcessControl accept_all 60000000000 demo_engine demo_gated)" by code_simp
  then have p: "ProcessControl accept_all 60000000000 demo_engine demo_gated = Inr (fst demo_freed, snd demo_freed)"
    unfolding demo_freed_def by (cases "ProcessControl accept_all 60000000000 demo_engine demo_gated") simp_all
  have "k_paused demo_gated" by (simp add: demo_gated_def)
  then show ?thesis
    using gate_escapes [OF p] by (simp add: demo_gated_def NewContract_def demo_cfg_def withDefaults_def)
qed

subsection \<open>A claim without the right to drive\<close>

text \<open>
  \<open>handleClaim\<close> refuses a claim without the drive grant; the claims of a hello are not checked
  for it.
\<close>

definition signal_hello :: Contract where
  "signal_hello = handleHello demo_engine ''_INBOX.s'' (demo_hello [''signal''] [1]) (NewContract ''r1'' demo_cfg)"

definition then_driver :: Contract where
  "then_driver = handleHello demo_engine ''_INBOX.d'' (demo_hello [''drive''] [1]) signal_hello"

text \<open>
  A controller with the signal grant only can hold vehicles. Attaching with a claim on
  vehicle 1 it is given the claim; the drive controller that asks for the vehicle afterwards is
  refused, and the holder's own intents for it are dropped, so nobody can drive the vehicle while
  the holder stays attached. The same controller's explicit claim request is refused.
\<close>

lemma claim_without_drive:
  "k_byVehicle signal_hello 1 = Some ''ctl-1'' \<and>
   k_byVehicle then_driver 1 = Some ''ctl-1'' \<and>
   fst (DrainIntents demo_engine [demo_arrival 1] then_driver) = [] \<and>
   fst (DrainIntents demo_engine [\<lparr>ar_Controller = ''ctl-2'', ar_Intent = plain_intent 1\<rparr>] then_driver) = [] \<and>
   last (k_replies (handleClaim demo_engine ''ctl-1'' ''_INBOX.s'' (Inr [2]) signal_hello))
     = (''_INBOX.s'', Claim_reply \<lparr>cp_Granted = [], cp_Rejected = [], cp_Reason = Some Claim_no_drive\<rparr>)"
  by code_simp

end
