(* ===== verification/Keyframe.thy ===== *)
theory Keyframe
  imports Bytes Demo
begin

text \<open>
  \<open>engine/keyframe.go\<close>: the full-state snapshot. \<open>MarshalState\<close> writes the dynamic state at the
  lowest format version that can hold it; \<open>restoreState\<close> reads it into the engine that
  \<open>NewEngine\<close> builds from the run's own spec. That engine, or the error building it, is the
  argument \<open>built\<close>; \<open>checkNet\<close> is the optional guard on its network. The section codecs are
  one definition each; both directions share the conditions \<open>ver\<close> and \<open>adaptive\<close>.
\<close>

subsection \<open>Versions\<close>

definition keyframeMagic :: u32 where "keyframeMagic = 1179341652"
definition keyframeVersion :: u16 where "keyframeVersion = 7"
definition keyframeSignalVersion :: u16 where "keyframeSignalVersion = 7"
definition keyframeAdaptiveVersion :: u16 where "keyframeAdaptiveVersion = 6"
definition keyframeStuckVersion :: u16 where "keyframeStuckVersion = 5"
definition keyframeDestVersion :: u16 where "keyframeDestVersion = 4"
definition keyframeQueueVersion :: u16 where "keyframeQueueVersion = 3"
definition keyframeMinVersion :: u16 where "keyframeMinVersion = 2"
definition keyframeFlagAdaptive :: u16 where "keyframeFlagAdaptive = 1"

lemmas kf_version_defs = keyframeVersion_def keyframeSignalVersion_def keyframeAdaptiveVersion_def
  keyframeStuckVersion_def keyframeDestVersion_def keyframeQueueVersion_def keyframeMinVersion_def
  keyframeFlagAdaptive_def

definition kf_version :: "Engine \<Rightarrow> u16" where
  "kf_version e =
     (let v = (if e_dirQueue e = [] then keyframeMinVersion
               else if \<exists>d \<in> set (e_dirQueue e). sd_Destination (ts_Dir d) \<noteq> [] \<or> \<not> feq (sd_OffsetM (ts_Dir d)) 0
               then keyframeDestVersion else keyframeQueueVersion);
          v = (if \<exists>x \<in> set (e_order e). 0 < v_stuckTicks x \<or> v_stopDone x then keyframeStuckVersion else v);
          v = (if p_AdaptiveRouting (e_Params e) then keyframeAdaptiveVersion else v) in
      if e_sigOv e \<noteq> [] then keyframeSignalVersion else v)"

definition kf_flags :: "Engine \<Rightarrow> u16" where
  "kf_flags e =
     (if keyframeSignalVersion \<le> kf_version e \<and> p_AdaptiveRouting (e_Params e)
      then keyframeFlagAdaptive else 0)"

definition kf_adaptive :: "Engine \<Rightarrow> bool" where
  "kf_adaptive e \<longleftrightarrow> keyframeAdaptiveVersion \<le> kf_version e \<and> p_AdaptiveRouting (e_Params e)"

subsection \<open>Writing\<close>

definition put_bool :: "bool \<Rightarrow> bytes" where "put_bool b = put_u8 (if b then 1 else 0)"

definition put_stream :: "stream \<Rightarrow> bytes" where
  "put_stream s = (let b = marshalStream s in
     put_u64 (Draws s) @ put_u8 (word_of_nat (length b)) @ b)"

definition put_controller :: "u16 \<Rightarrow> bool \<Rightarrow> Vehicle \<Rightarrow> bytes" where
  "put_controller ver adaptive v =
     put_u64 (v_Cruise v) @ put_bool (v_CruiseOK v) @
     put_u32 (i32_bits (v_HeldTurn v)) @ put_u32 (word_of_int (v_Signals v)) @ put_str16 (v_Route v) @
     (if keyframeStuckVersion \<le> ver then put_u64 (v_stuckTicks v) @ put_bool (v_stopDone v) else []) @
     (if adaptive then put_u64 (v_laneEntryTick v) else [])"

definition put_vehicle :: "u16 \<Rightarrow> bool \<Rightarrow> Vehicle \<Rightarrow> bytes" where
  "put_vehicle ver adaptive v =
     put_u64 (v_ID v) @ put_u32 (word_of_nat (v_Lane v)) @ put_u32 (word_of_nat (v_TypeIdx v)) @
     put_u64 (v_S v) @ put_u64 (v_V v) @ put_u64 (v_F v) @ put_u64 (v_Cooldown v) @
     put_stream (v_rng v) @ put_controller ver adaptive v"

definition put_origin :: "originState \<Rightarrow> bytes" where
  "put_origin st = put_u32 (word_of_nat (o_lane st)) @ put_u64 (o_rate st) @ put_u64 (o_tick st) @
     put_u64 (o_pendID st) @ put_stream (o_pendRng st)"

definition put_lane_times :: "f64 \<times> f64 \<Rightarrow> bytes" where
  "put_lane_times t = put_u64 (fst t) @ put_u64 (snd t)"

definition put_directive :: "u16 \<Rightarrow> TickedSpawn \<Rightarrow> bytes" where
  "put_directive ver d =
     put_u64 (ts_Tick d) @ put_u32 (word_of_nat (ts_LaneIdx d)) @ put_u32 (word_of_nat (ts_TypeIdx d)) @
     put_u64 (sd_EarliestTick (ts_Dir d)) @ put_str16 (sd_RequestID (ts_Dir d)) @
     (if keyframeDestVersion \<le> ver
      then put_str16 (sd_Destination (ts_Dir d)) @ put_u64 (sd_OffsetM (ts_Dir d)) else [])"

definition put_override :: "nat \<times> sigOverride \<Rightarrow> bytes" where
  "put_override io = (let ov = snd io in
     put_u32 (word_of_nat (fst io)) @ put_u32 (word_of_int (ov_phase ov)) @ put_u64 (ov_since ov) @
     put_u64 (ov_until ov) @ put_u64 (ov_chainStart ov) @ put_str16 (ov_requestID ov))"

text \<open>The override table in network order, each program's history oldest first.\<close>

definition override_rows :: "Engine \<Rightarrow> (nat \<times> sigOverride) list" where
  "override_rows e = concat (map (\<lambda>i. map (Pair i) (ov_hist (e_sigOv e) (pg_ID (e_Signals e ! i))))
     [0..<length (e_Signals e)])"

definition lane_times :: "Engine \<Rightarrow> (f64 \<times> f64) list" where
  "lane_times e = map (\<lambda>i. (l_ttEMA (e_Lanes e ! i), e_ttSnap e ! i)) [0..<length (e_Lanes e)]"

definition spawnerOrigins :: "Engine \<Rightarrow> originState list" where
  "spawnerOrigins e = (case e_spawner e of None \<Rightarrow> [] | Some s \<Rightarrow> sp_origins s)"

definition put_header :: "Engine \<Rightarrow> bytes" where
  "put_header e =
     put_u32 keyframeMagic @ put_u16 (kf_version e) @ put_u16 (kf_flags e) @ put_u64 (e_Tick e) @
     put_u64 (e_crc e) @ put_u64 (e_nextID e) @ put_u32 (word_of_nat (length (e_order e))) @
     put_u32 (word_of_nat (length (spawnerOrigins e))) @
     put_u32 (case e_spawner e of None \<Rightarrow> 0 | Some s \<Rightarrow> word_of_nat (sp_next s)) @ put_u32 0"

definition MarshalState :: "Engine \<Rightarrow> bytes" where
  "MarshalState e =
     put_header e @ concat (map (put_vehicle (kf_version e) (kf_adaptive e)) (e_order e)) @
     concat (map put_origin (spawnerOrigins e)) @
     (if kf_adaptive e
      then put_u32 (word_of_nat (length (e_Lanes e))) @ concat (map put_lane_times (lane_times e)) else []) @
     (if keyframeQueueVersion \<le> kf_version e
      then put_u32 (word_of_nat (length (e_dirQueue e))) @
           concat (map (put_directive (kf_version e)) (e_dirQueue e)) else []) @
     (if keyframeSignalVersion \<le> kf_version e
      then put_u32 (word_of_nat (length (override_rows e))) @ concat (map put_override (override_rows e))
      else [])"

subsection \<open>Reading\<close>

datatype kf_error =
    Kf_magic u32
  | Kf_version u16
  | Kf_header rerror
  | Kf_build string
  | Kf_regime u16
  | Kf_net string
  | Kf_origins nat nat
  | Kf_vehicle nat rerror
  | Kf_vehicle_lane u64 nat
  | Kf_vehicle_type u64 nat
  | Kf_vehicle_rng u64
  | Kf_controller nat rerror
  | Kf_origin nat rerror
  | Kf_origin_lane nat
  | Kf_origin_rng nat
  | Kf_lane_count rerror
  | Kf_lanes nat nat
  | Kf_lane_section rerror
  | Kf_queue_count rerror
  | Kf_directive nat rerror
  | Kf_directive_range nat
  | Kf_override_count rerror
  | Kf_override nat rerror
  | Kf_override_signal nat nat
  | Kf_override_phase nat nat
  | Kf_override_empty nat u64 u64
  | Kf_override_chain nat u64 u64
  | Kf_trailing nat

definition rd_bool :: "reader \<Rightarrow> bool \<times> reader" where
  "rd_bool r = (let (b, r') = rd_u8 r in (b \<noteq> 0, r'))"

text \<open>Draw count and raw generator state.\<close>

definition rd_stream :: "reader \<Rightarrow> (u64 \<times> bytes) \<times> reader" where
  "rd_stream r = (let (d, r1) = rd_u64 r; (n, r2) = rd_u8 r1; (b, r3) = rd_bytes (unat n) r2 in ((d, b), r3))"

definition rd_controller :: "u16 \<Rightarrow> bool \<Rightarrow> u64 \<Rightarrow> Vehicle \<Rightarrow> reader \<Rightarrow> Vehicle \<times> reader" where
  "rd_controller ver hasLanes tick v r =
     (let (cruise, r1) = rd_u64 r; (ok, r2) = rd_bool r1; (turn, r3) = rd_u32 r2; (sig, r4) = rd_u32 r3;
          (route, r5) = rd_str16 r4;
          (stuck, r6) = (if keyframeStuckVersion \<le> ver then rd_u64 r5 else (0, r5));
          (stop, r7) = (if keyframeStuckVersion \<le> ver then rd_bool r6 else (False, r6));
          (entry, r8) = (if hasLanes then rd_u64 r7 else (tick, r7)) in
      (v\<lparr>v_Cruise := cruise, v_CruiseOK := ok, v_HeldTurn := i32_of turn, v_Signals := uint sig,
         v_Route := route, v_stuckTicks := stuck, v_stopDone := stop, v_laneEntryTick := entry\<rparr>, r8))"

definition rd_vehicle :: "u16 \<Rightarrow> bool \<Rightarrow> u64 \<Rightarrow> Engine \<Rightarrow> nat \<Rightarrow> reader \<Rightarrow> kf_error + (Vehicle \<times> reader)" where
  "rd_vehicle ver hasLanes tick e i r =
     (let (vid, r1) = rd_u64 r; (lane, r2) = rd_u32 r1; (ty, r3) = rd_u32 r2; (s, r4) = rd_u64 r3;
          (vv, r5) = rd_u64 r4; (f, r6) = rd_u64 r5; (cool, r7) = rd_u64 r6;
          ((draws, st), r8) = rd_stream r7 in
      case rerr r8 of
        Some err \<Rightarrow> Inl (Kf_vehicle i err)
      | None \<Rightarrow>
          if length (e_Lanes e) \<le> unat lane then Inl (Kf_vehicle_lane vid (unat lane))
          else if length (e_Types e) \<le> unat ty then Inl (Kf_vehicle_type vid (unat ty))
          else case unmarshalStream st draws of
              None \<Rightarrow> Inl (Kf_vehicle_rng vid)
            | Some rng \<Rightarrow>
                let v0 = \<lparr>v_ID = vid, v_TypeIdx = unat ty, v_Lane = unat lane, v_S = s, v_V = vv, v_F = f,
                      v_Acc = 0, v_Cooldown = cool, v_rng = rng, v_Cruise = 0, v_CruiseOK = False,
                      v_HeldTurn = 0, v_Signals = 0, v_Route = [], v_reqAcc = 0, v_reqAccOK = False,
                      v_reqLane = 0, v_stopDone = False, v_stuckTicks = 0, v_laneEntryTick = 0\<rparr>;
                    (v, r9) = rd_controller ver hasLanes tick v0 r8 in
                case rerr r9 of Some err \<Rightarrow> Inl (Kf_controller i err) | None \<Rightarrow> Inr (v, r9))"

definition rd_origin :: "Engine \<Rightarrow> nat \<Rightarrow> reader \<Rightarrow> kf_error + (originState \<times> reader)" where
  "rd_origin e i r =
     (let (lane, r1) = rd_u32 r; (rate, r2) = rd_u64 r1; (tk, r3) = rd_u64 r2; (pid, r4) = rd_u64 r3;
          ((draws, st), r5) = rd_stream r4 in
      case rerr r5 of
        Some err \<Rightarrow> Inl (Kf_origin i err)
      | None \<Rightarrow>
          if length (e_Lanes e) \<le> unat lane \<or> o_lane (spawnerOrigins e ! i) \<noteq> unat lane
          then Inl (Kf_origin_lane i)
          else case unmarshalStream st draws of
              None \<Rightarrow> Inl (Kf_origin_rng i)
            | Some rng \<Rightarrow> Inr ((spawnerOrigins e ! i)\<lparr>o_rate := rate, o_tick := tk, o_pendID := pid,
                o_pendRng := rng\<rparr>, r5))"

definition rd_lane_times :: "reader \<Rightarrow> (f64 \<times> f64) \<times> reader" where
  "rd_lane_times r = (let (a, r1) = rd_u64 r; (b, r2) = rd_u64 r1 in ((a, b), r2))"

definition rd_directive :: "u16 \<Rightarrow> Engine \<Rightarrow> nat \<Rightarrow> reader \<Rightarrow> kf_error + (TickedSpawn \<times> reader)" where
  "rd_directive ver e i r =
     (let (tk, r1) = rd_u64 r; (lane, r2) = rd_u32 r1; (ty, r3) = rd_u32 r2; (early, r4) = rd_u64 r3;
          (rid, r5) = rd_str16 r4;
          (dest, r6) = (if keyframeDestVersion \<le> ver then rd_str16 r5 else ([], r5));
          (off, r7) = (if keyframeDestVersion \<le> ver then rd_u64 r6 else (0, r6)) in
      case rerr r7 of
        Some err \<Rightarrow> Inl (Kf_directive i err)
      | None \<Rightarrow>
          if length (e_Lanes e) \<le> unat lane \<or> length (e_Types e) \<le> unat ty
          then Inl (Kf_directive_range i)
          else Inr (\<lparr>ts_Tick = tk, ts_TypeIdx = unat ty, ts_LaneIdx = unat lane,
            ts_Dir = \<lparr>sd_RequestID = rid, sd_Origin = l_ID (e_Lanes e ! unat lane),
              sd_TypeName = vt_Name (e_Types e ! unat ty), sd_EarliestTick = early,
              sd_Destination = dest, sd_OffsetM = off\<rparr>\<rparr>, r7))"

definition rd_override :: "Engine \<Rightarrow> nat \<Rightarrow> reader \<Rightarrow> kf_error + ((nat \<times> sigOverride) \<times> reader)" where
  "rd_override e i r =
     (let (idx, r1) = rd_u32 r; (ph, r2) = rd_u32 r1; (since, r3) = rd_u64 r2; (til, r4) = rd_u64 r3;
          (cs, r5) = rd_u64 r4; (rid, r6) = rd_str16 r5 in
      case rerr r6 of
        Some err \<Rightarrow> Inl (Kf_override i err)
      | None \<Rightarrow>
          if length (e_Signals e) \<le> unat idx then Inl (Kf_override_signal i (unat idx))
          else if length (pg_Phases (e_Signals e ! unat idx)) \<le> unat ph
          then Inl (Kf_override_phase i (unat ph))
          else if til \<le> since then Inl (Kf_override_empty i since til)
          else if since < cs then Inl (Kf_override_chain i cs since)
          else Inr ((unat idx, \<lparr>ov_phase = uint ph, ov_since = since, ov_until = til,
            ov_chainStart = cs, ov_requestID = rid\<rparr>), r6))"

text \<open>\<open>n\<close> records from index \<open>i\<close> on, stopping at the first error.\<close>

fun rd_each :: "(nat \<Rightarrow> reader \<Rightarrow> 'e + ('a \<times> reader)) \<Rightarrow> nat \<Rightarrow> nat \<Rightarrow> reader \<Rightarrow> 'e + ('a list \<times> reader)" where
  "rd_each get i 0 r = Inr ([], r)"
| "rd_each get i (Suc n) r =
     (case get i r of
        Inl err \<Rightarrow> Inl err
      | Inr (x, r1) \<Rightarrow> (case rd_each get (Suc i) n r1 of
          Inl err \<Rightarrow> Inl err | Inr (xs, r2) \<Rightarrow> Inr (x # xs, r2)))"


definition restore_vehicles :: "u16 \<Rightarrow> bool \<Rightarrow> u64 \<Rightarrow> nat \<Rightarrow> Engine \<Rightarrow> reader \<Rightarrow> kf_error + (Engine \<times> reader)" where
  "restore_vehicles ver hasLanes tick n e r =
     bindE (rd_each (rd_vehicle ver hasLanes tick e) 0 n r) (\<lambda>(vs, r'). Inr (e\<lparr>e_order := vs\<rparr>, r'))"

definition restore_spawner :: "u32 \<Rightarrow> Engine \<Rightarrow> reader \<Rightarrow> kf_error + (Engine \<times> reader)" where
  "restore_spawner schedNext e r =
     (case e_spawner e of
        None \<Rightarrow> Inr (e, r)
      | Some s \<Rightarrow> bindE (rd_each (rd_origin e) 0 (length (sp_origins s)) r)
          (\<lambda>(sts, r'). Inr (e\<lparr>e_spawner := Some (s\<lparr>sp_next := unat schedNext, sp_origins := sts\<rparr>)\<rparr>, r')))"

definition restore_lanes :: "bool \<Rightarrow> Engine \<Rightarrow> reader \<Rightarrow> kf_error + (Engine \<times> reader)" where
  "restore_lanes hasLanes e r =
     (if \<not> hasLanes then Inr (e, r)
      else let (n, r1) = rd_u32 r in
        case rerr r1 of
          Some err \<Rightarrow> Inl (Kf_lane_count err)
        | None \<Rightarrow>
            if unat n \<noteq> length (e_Lanes e) then Inl (Kf_lanes (unat n) (length (e_Lanes e)))
            else let (ts, r2) = read_many (length (e_Lanes e)) rd_lane_times r1 in
              case rerr r2 of
                Some err \<Rightarrow> Inl (Kf_lane_section err)
              | None \<Rightarrow> Inr (e\<lparr>e_Net := (e_Net e)\<lparr>n_Lanes :=
                    map (\<lambda>(l, t). l\<lparr>l_ttEMA := fst t\<rparr>) (zip (e_Lanes e) ts)\<rparr>,
                  e_ttSnap := map snd ts\<rparr>, r2))"

definition restore_queue :: "u16 \<Rightarrow> Engine \<Rightarrow> reader \<Rightarrow> kf_error + (Engine \<times> reader)" where
  "restore_queue ver e r =
     (if \<not> keyframeQueueVersion \<le> ver then Inr (e, r)
      else let (n, r1) = rd_u32 r in
        case rerr r1 of
          Some err \<Rightarrow> Inl (Kf_queue_count err)
        | None \<Rightarrow> bindE (rd_each (rd_directive ver e) 0 (unat n) r1)
            (\<lambda>(ds, r2). Inr (e\<lparr>e_dirQueue := e_dirQueue e @ ds\<rparr>, r2)))"

definition add_override :: "SignalProgram list \<Rightarrow> (string \<times> sigOverride list) list \<Rightarrow>
    nat \<times> sigOverride \<Rightarrow> (string \<times> sigOverride list) list" where
  "add_override sigs t io =
     (let k = pg_ID (sigs ! fst io) in AList.update k (ov_hist t k @ [snd io]) t)"

definition restore_overrides :: "u16 \<Rightarrow> Engine \<Rightarrow> reader \<Rightarrow> kf_error + (Engine \<times> reader)" where
  "restore_overrides ver e r =
     (if \<not> keyframeSignalVersion \<le> ver then Inr (e, r)
      else let (n, r1) = rd_u32 r in
        case rerr r1 of
          Some err \<Rightarrow> Inl (Kf_override_count err)
        | None \<Rightarrow> bindE (rd_each (rd_override e) 0 (unat n) r1)
            (\<lambda>(rows, r2). Inr (e\<lparr>e_sigOv := foldl (add_override (e_Signals e)) (e_sigOv e) rows\<rparr>, r2)))"

text \<open>The result carries whether the restore notice is set (no lane section, adaptive spec).\<close>

definition restoreState :: "string + Engine \<Rightarrow> (Network \<Rightarrow> string option) \<Rightarrow> bytes \<Rightarrow>
    kf_error + (Engine \<times> bool)" where
  "restoreState built checkNet data =
     (let (magic, r1) = rd_u32 (good data) in
      if magic \<noteq> keyframeMagic then Inl (Kf_magic magic)
      else let (ver, r2) = rd_u16 r1 in
        if ver < keyframeMinVersion \<or> keyframeVersion < ver then Inl (Kf_version ver)
        else let (flags, r3) = rd_u16 r2;
                 hasLanes = (ver = keyframeAdaptiveVersion \<or>
                   keyframeSignalVersion \<le> ver \<and> flags AND keyframeFlagAdaptive \<noteq> 0);
                 (tick, r4) = rd_u64 r3; (crc, r5) = rd_u64 r4; (nextID, r6) = rd_u64 r5;
                 (nVehicles, r7) = rd_u32 r6; (nOrigins, r8) = rd_u32 r7; (schedNext, r9) = rd_u32 r8;
                 (_, r10) = rd_u32 r9 in
          case rerr r10 of
            Some err \<Rightarrow> Inl (Kf_header err)
          | None \<Rightarrow> (case built of
              Inl msg \<Rightarrow> Inl (Kf_build msg)
            | Inr e0 \<Rightarrow>
                if hasLanes \<and> \<not> p_AdaptiveRouting (e_Params e0) then Inl (Kf_regime ver)
                else case checkNet (e_Net e0) of
                    Some msg \<Rightarrow> Inl (Kf_net msg)
                  | None \<Rightarrow>
                      if unat nOrigins \<noteq> length (spawnerOrigins e0)
                      then Inl (Kf_origins (unat nOrigins) (length (spawnerOrigins e0)))
                      else
                        bindE (restore_vehicles ver hasLanes tick (unat nVehicles)
                          (e0\<lparr>e_Tick := tick, e_crc := crc, e_nextID := nextID\<rparr>) r10) (\<lambda>(e1, s1).
                        bindE (restore_spawner schedNext e1 s1) (\<lambda>(e2, s2).
                        bindE (restore_lanes hasLanes e2 s2) (\<lambda>(e3, s3).
                        bindE (restore_queue ver e3 s3) (\<lambda>(e4, s4).
                        bindE (restore_overrides ver e4 s4) (\<lambda>(e5, s5).
                          if rbuf s5 \<noteq> [] then Inl (Kf_trailing (length (rbuf s5)))
                          else Inr (e5, \<not> hasLanes \<and> p_AdaptiveRouting (e_Params e0)))))))))"

definition RestoreState :: "string + Engine \<Rightarrow> bytes \<Rightarrow> kf_error + (Engine \<times> bool)" where
  "RestoreState built data = restoreState built (\<lambda>_. None) data"

subsection \<open>The interface of one record of a section\<close>

text \<open>
  A record reader may reject what it reads; for every value it is meant to accept (\<open>ok\<close>) it
  reads back \<open>val\<close> of it and leaves the rest. The index is the record's position.
\<close>

locale record_codec =
  fixes put :: "'a \<Rightarrow> bytes" and get :: "nat \<Rightarrow> reader \<Rightarrow> 'e + ('b \<times> reader)"
    and ok :: "nat \<Rightarrow> 'a \<Rightarrow> bool" and val :: "nat \<Rightarrow> 'a \<Rightarrow> 'b"
  assumes get_put: "ok i x \<Longrightarrow> get i (good (put x @ r)) = Inr (val i x, good r)"
begin

lemma rd_each_put:
  "\<forall>(j, x) \<in> set (enumerate i xs). ok j x \<Longrightarrow>
   rd_each get i (length xs) (good (concat (map put xs) @ r))
   = Inr (map (\<lambda>(j, x). val j x) (enumerate i xs), good r)"
  by (induction xs arbitrary: i) (auto simp: get_put)

end

lemma rd_bool_put [simp, codec_simps]: "rd_bool (good (put_bool b @ r)) = (b, good r)"
  by (simp add: rd_bool_def put_bool_def)

lemma rd_stream_put [simp, codec_simps]:
  "rd_stream (good (put_stream s @ r)) = ((Draws s, marshalStream s), good r)"
  by (simp add: rd_stream_def put_stream_def Let_def unat_of_nat_u8)

subsection \<open>Each record reads back\<close>

definition veh_ok :: "u16 \<Rightarrow> Engine \<Rightarrow> Vehicle \<Rightarrow> bool" where
  "veh_ok ver e v \<longleftrightarrow> v_Lane v < length (e_Lanes e) \<and> v_TypeIdx v < length (e_Types e) \<and>
     length (e_Lanes e) \<le> 4294967296 \<and> length (e_Types e) \<le> 4294967296 \<and>
     i32_range (v_HeldTurn v) \<and> 0 \<le> v_Signals v \<and> v_Signals v < 4294967296 \<and>
     length (v_Route v) < 65536 \<and>
     (\<not> keyframeStuckVersion \<le> ver \<longrightarrow> v_stuckTicks v = 0 \<and> \<not> v_stopDone v)"

text \<open>A restored vehicle: the per-tick fields are reset, the dwell clock may start anew.\<close>

definition settled :: "bool \<Rightarrow> u64 \<Rightarrow> Vehicle \<Rightarrow> Vehicle" where
  "settled hasLanes tick v = v\<lparr>v_Acc := 0, v_reqAcc := 0, v_reqAccOK := False, v_reqLane := 0,
     v_laneEntryTick := (if hasLanes then v_laneEntryTick v else tick)\<rparr>"

lemma uint_word_of_int_u32: "0 \<le> x \<Longrightarrow> x < 4294967296 \<Longrightarrow> uint (word_of_int x :: u32) = x"
  by (simp add: unsigned_of_int take_bit_int_eq_self)

lemma rd_controller_put:
  assumes "veh_ok ver e v"
  shows "rd_controller ver hasLanes tick v0 (good (put_controller ver hasLanes v @ r))
   = (v0\<lparr>v_Cruise := v_Cruise v, v_CruiseOK := v_CruiseOK v, v_HeldTurn := v_HeldTurn v,
        v_Signals := v_Signals v, v_Route := v_Route v, v_stuckTicks := v_stuckTicks v,
        v_stopDone := v_stopDone v,
        v_laneEntryTick := (if hasLanes then v_laneEntryTick v else tick)\<rparr>, good r)"
  using assms
  by (cases "keyframeStuckVersion \<le> ver"; cases hasLanes)
    (simp_all add: veh_ok_def rd_controller_def put_controller_def rd_str16_good i32_of_bits
      uint_word_of_int_u32)

interpretation veh: record_codec "put_vehicle ver ad" "rd_vehicle ver ad tick e" "\<lambda>_. veh_ok ver e"
  "\<lambda>_. settled ad tick" for ver ad tick e
proof
  fix i v r
  assume ok: "veh_ok ver e v"
  have u: "unat (word_of_nat (v_Lane v) :: u32) = v_Lane v"
    "unat (word_of_nat (v_TypeIdx v) :: u32) = v_TypeIdx v"
    using ok by (auto simp: veh_ok_def unat_of_nat_u32)
  have "\<not> length (e_Lanes e) \<le> v_Lane v" "\<not> length (e_Types e) \<le> v_TypeIdx v"
    using ok by (auto simp: veh_ok_def)
  then show "rd_vehicle ver ad tick e i (good (put_vehicle ver ad v @ r)) = Inr (settled ad tick v, good r)"
    by (simp add: rd_vehicle_def put_vehicle_def rd_controller_put [OF ok] u)
      (cases v, simp add: settled_def)
qed

definition origin_ok :: "Engine \<Rightarrow> nat \<Rightarrow> originState \<Rightarrow> bool" where
  "origin_ok e i st \<longleftrightarrow> o_lane st < length (e_Lanes e) \<and> length (e_Lanes e) \<le> 4294967296 \<and>
     o_lane (spawnerOrigins e ! i) = o_lane st"

interpretation orig: record_codec put_origin "rd_origin e" "origin_ok e" "\<lambda>_ st. st" for e
proof
  fix i st r
  assume ok: "origin_ok e i st"
  then have "unat (word_of_nat (o_lane st) :: u32) = o_lane st" "\<not> length (e_Lanes e) \<le> o_lane st"
    by (auto simp: origin_ok_def unat_of_nat_u32)
  then show "rd_origin e i (good (put_origin st @ r)) = Inr (st, good r)"
    using ok by (simp add: rd_origin_def put_origin_def origin_ok_def)
qed

interpretation lane_field: field put_lane_times rd_lane_times "\<lambda>_. True"
  by unfold_locales (simp add: put_lane_times_def rd_lane_times_def)

definition directive_ok :: "u16 \<Rightarrow> Engine \<Rightarrow> TickedSpawn \<Rightarrow> bool" where
  "directive_ok ver e d \<longleftrightarrow> ts_LaneIdx d < length (e_Lanes e) \<and> ts_TypeIdx d < length (e_Types e) \<and>
     length (e_Lanes e) \<le> 4294967296 \<and> length (e_Types e) \<le> 4294967296 \<and>
     length (sd_RequestID (ts_Dir d)) < 65536 \<and> length (sd_Destination (ts_Dir d)) < 65536 \<and>
     sd_Origin (ts_Dir d) = l_ID (e_Lanes e ! ts_LaneIdx d) \<and>
     sd_TypeName (ts_Dir d) = vt_Name (e_Types e ! ts_TypeIdx d) \<and>
     (\<not> keyframeDestVersion \<le> ver \<longrightarrow> sd_Destination (ts_Dir d) = [] \<and> sd_OffsetM (ts_Dir d) = 0)"

interpretation dir: record_codec "put_directive ver" "rd_directive ver e" "\<lambda>_. directive_ok ver e"
  "\<lambda>_ d. d" for ver e
proof
  fix i d r
  assume ok: "directive_ok ver e d"
  have "unat (word_of_nat (ts_LaneIdx d) :: u32) = ts_LaneIdx d"
    "unat (word_of_nat (ts_TypeIdx d) :: u32) = ts_TypeIdx d"
    "\<not> length (e_Lanes e) \<le> ts_LaneIdx d" "\<not> length (e_Types e) \<le> ts_TypeIdx d"
    using ok by (auto simp: directive_ok_def unat_of_nat_u32)
  moreover obtain tk ty ln rid og tn el ds off where "d = \<lparr>ts_Tick = tk, ts_TypeIdx = ty, ts_LaneIdx = ln,
      ts_Dir = \<lparr>sd_RequestID = rid, sd_Origin = og, sd_TypeName = tn, sd_EarliestTick = el,
        sd_Destination = ds, sd_OffsetM = off\<rparr>\<rparr>"
    by (metis SpawnDirective.cases TickedSpawn.cases)
  ultimately show "rd_directive ver e i (good (put_directive ver d @ r)) = Inr (d, good r)"
    using ok
    by (cases "keyframeDestVersion \<le> ver")
      (simp_all add: rd_directive_def put_directive_def directive_ok_def rd_str16_good)
qed

definition override_ok :: "Engine \<Rightarrow> nat \<times> sigOverride \<Rightarrow> bool" where
  "override_ok e io \<longleftrightarrow> (let i = fst io; ov = snd io in
     i < length (e_Signals e) \<and> i < 4294967296 \<and> 0 \<le> ov_phase ov \<and>
     ov_phase ov < int (length (pg_Phases (e_Signals e ! i))) \<and> ov_phase ov < 4294967296 \<and>
     ov_since ov < ov_until ov \<and> ov_chainStart ov \<le> ov_since ov \<and> length (ov_requestID ov) < 65536)"

interpretation ovr: record_codec put_override "rd_override e" "\<lambda>_. override_ok e" "\<lambda>_ io. io" for e
proof
  fix i io r
  assume ok: "override_ok e io"
  obtain k ov where io: "io = (k, ov)" by (cases io)
  have "unat (word_of_nat k :: u32) = k" "uint (word_of_int (ov_phase ov) :: u32) = ov_phase ov"
    and "\<not> length (e_Signals e) \<le> k" "\<not> ov_until ov \<le> ov_since ov" "\<not> ov_since ov < ov_chainStart ov"
    using ok by (auto simp: override_ok_def io unat_of_nat_u32 uint_word_of_int_u32 Let_def)
  moreover from this(2) have "unat (word_of_int (ov_phase ov) :: u32) = nat (ov_phase ov)"
    by (metis nat_uint_eq)
  moreover have "\<not> length (pg_Phases (e_Signals e ! k)) \<le> nat (ov_phase ov)"
    using ok by (auto simp: override_ok_def io Let_def)
  ultimately show "rd_override e i (good (put_override io @ r)) = Inr (io, good r)"
    using ok by (cases ov) (simp add: rd_override_def put_override_def io override_ok_def rd_str16_good Let_def)
qed

subsection \<open>The whole snapshot reads back\<close>

text \<open>What the wire can carry, and what the engine keeps: lane and type indices in range, override
  rows of known programs, no empty histories.\<close>

definition kf_wf :: "Engine \<Rightarrow> bool" where
  "kf_wf e \<longleftrightarrow> list_all (veh_ok (kf_version e) e) (e_order e) \<and>
     list_all (directive_ok (kf_version e) e) (e_dirQueue e) \<and>
     list_all (override_ok e) (override_rows e) \<and>
     length (e_order e) < 4294967296 \<and> length (e_dirQueue e) < 4294967296 \<and>
     length (override_rows e) < 4294967296 \<and> length (spawnerOrigins e) < 4294967296 \<and>
     length (e_Lanes e) < 4294967296 \<and> length (e_ttSnap e) = length (e_Lanes e) \<and>
     list_all (\<lambda>st. o_lane st < length (e_Lanes e)) (spawnerOrigins e) \<and>
     (case e_spawner e of None \<Rightarrow> True | Some s \<Rightarrow> sp_next s < 4294967296) \<and>
     distinct (map pg_ID (e_Signals e)) \<and>
     list_all (\<lambda>kh. snd kh \<noteq> [] \<and> fst kh \<in> set (map pg_ID (e_Signals e))) (e_sigOv e) \<and>
     distinct (map fst (e_sigOv e))"

text \<open>A fresh engine of the same spec: the same static world, nothing queued, nothing held.\<close>

definition static_lane :: "Lane \<Rightarrow> Lane" where "static_lane l = l\<lparr>l_ttEMA := 0\<rparr>"

definition fresh_for :: "Engine \<Rightarrow> Engine \<Rightarrow> bool" where
  "fresh_for e0 e \<longleftrightarrow> e_Params e0 = e_Params e \<and> e_Types e0 = e_Types e \<and>
     e_Signals e0 = e_Signals e \<and> map static_lane (e_Lanes e0) = map static_lane (e_Lanes e) \<and>
     (e_spawner e0 = None \<longleftrightarrow> e_spawner e = None) \<and>
     map o_lane (spawnerOrigins e0) = map o_lane (spawnerOrigins e) \<and>
     e_dirQueue e0 = [] \<and> e_sigOv e0 = []"

text \<open>The engine \<open>restoreState\<close> rebuilds.\<close>

definition rebuilt :: "Engine \<Rightarrow> Engine \<Rightarrow> Engine" where
  "rebuilt e0 e =
     (let lanes = (if kf_adaptive e
            then map (\<lambda>(l, t). l\<lparr>l_ttEMA := fst t\<rparr>) (zip (e_Lanes e0) (lane_times e)) else e_Lanes e0) in
      e0\<lparr>e_Tick := e_Tick e, e_crc := e_crc e, e_nextID := e_nextID e,
         e_order := map (settled (kf_adaptive e) (e_Tick e)) (e_order e),
         e_spawner := map_option (\<lambda>s. s\<lparr>sp_next := (case e_spawner e of None \<Rightarrow> 0 | Some t \<Rightarrow> sp_next t),
           sp_origins := spawnerOrigins e\<rparr>) (e_spawner e0),
         e_Net := (e_Net e0)\<lparr>n_Lanes := lanes\<rparr>,
         e_ttSnap := (if kf_adaptive e then map snd (lane_times e) else e_ttSnap e0),
         e_dirQueue := e_dirQueue e,
         e_sigOv := foldl (add_override (e_Signals e)) [] (override_rows e)\<rparr>)"

lemma kf_version_cases:
  "kf_version e \<in> {2, 3, 4, 5, 6, 7}"
  "kf_version e = 7 \<longleftrightarrow> e_sigOv e \<noteq> []"
  "p_AdaptiveRouting (e_Params e) \<Longrightarrow> 6 \<le> kf_version e"
  "kf_version e = 6 \<Longrightarrow> p_AdaptiveRouting (e_Params e)"
  "kf_version e = 2 \<Longrightarrow> e_dirQueue e = []"
  by (auto simp: kf_version_def kf_version_defs Let_def split: if_splits)

lemma kf_version_ge3: "\<not> 3 \<le> kf_version e \<Longrightarrow> kf_version e = 2"
  using kf_version_cases(1) [of e] by auto

lemma kf_version_ge7: "7 \<le> kf_version e \<longleftrightarrow> e_sigOv e \<noteq> []"
  using kf_version_cases(1,2) [of e] by auto

lemma kf_adaptive_iff: "kf_adaptive e \<longleftrightarrow> p_AdaptiveRouting (e_Params e)"
  using kf_version_cases(3) [of e] by (auto simp: kf_adaptive_def kf_version_defs)

lemma kf_hasLanes:
  "(kf_version e = keyframeAdaptiveVersion \<or>
    keyframeSignalVersion \<le> kf_version e \<and> kf_flags e AND keyframeFlagAdaptive \<noteq> 0) \<longleftrightarrow> kf_adaptive e"
  using kf_version_cases(1,3,4) [of e]
  by (auto simp: kf_adaptive_iff kf_flags_def kf_version_defs)

lemma kf_version_range: "\<not> (kf_version e < keyframeMinVersion \<or> keyframeVersion < kf_version e)"
  using kf_version_cases(1) [of e] by (auto simp: kf_version_defs)

text \<open>Section by section.\<close>

lemma enumerate_all: "\<forall>x \<in> set xs. P x \<Longrightarrow> \<forall>(j, x) \<in> set (enumerate i xs). P x"
  by (auto simp: in_set_enumerate_eq)

lemma map_enumerate_snd: "map (\<lambda>(j, x). f x) (enumerate i xs) = map f xs"
  by (induction xs arbitrary: i) auto

lemma restore_vehicles_put:
  assumes "list_all (veh_ok ver e) vs"
  shows "restore_vehicles ver ad tick (length vs) e (good (concat (map (put_vehicle ver ad) vs) @ r))
         = Inr (e\<lparr>e_order := map (settled ad tick) vs\<rparr>, good r)"
  using veh.rd_each_put [OF enumerate_all] assms
  by (simp add: restore_vehicles_def list_all_iff map_enumerate_snd)

lemma restore_spawner_put:
  assumes "map o_lane (spawnerOrigins e) = map o_lane sts"
    and "list_all (\<lambda>st. o_lane st < length (e_Lanes e)) sts" and "length (e_Lanes e) \<le> 4294967296"
  shows "restore_spawner nx e (good (concat (map put_origin sts) @ r))
         = Inr (e\<lparr>e_spawner := map_option (\<lambda>s. s\<lparr>sp_next := unat nx, sp_origins := sts\<rparr>) (e_spawner e)\<rparr>, good r)"
proof (cases "e_spawner e")
  case None
  then show ?thesis using assms by (simp add: restore_spawner_def spawnerOrigins_def)
next
  case (Some s)
  have len: "length (sp_origins s) = length sts"
    using assms(1) Some by (auto simp: spawnerOrigins_def dest: map_eq_imp_length_eq)
  have "o_lane (spawnerOrigins e ! j) = o_lane (sts ! j)" if "j < length sts" for j
    using assms(1) that len Some nth_map [of j sts o_lane]
    by (metis length_map nth_map option.simps(5) spawnerOrigins_def)
  then have "\<forall>(j, x) \<in> set (enumerate 0 sts). origin_ok e j x"
    using assms(2,3) by (auto simp: in_set_enumerate_eq origin_ok_def list_all_iff)
  from orig.rd_each_put [OF this] show ?thesis
    using Some len by (simp add: restore_spawner_def map_enumerate_snd)
qed

lemma restore_lanes_put:
  assumes "length (e_Lanes e) = length ts" and "length ts < 4294967296"
  shows "restore_lanes True e (good (put_u32 (word_of_nat (length ts)) @ concat (map put_lane_times ts) @ r))
         = Inr (e\<lparr>e_Net := (e_Net e)\<lparr>n_Lanes := map (\<lambda>(l, t). l\<lparr>l_ttEMA := fst t\<rparr>) (zip (e_Lanes e) ts)\<rparr>,
                  e_ttSnap := map snd ts\<rparr>, good r)"
  using assms lane_field.read_many_good [of ts r] by (simp add: restore_lanes_def unat_of_nat_u32)

lemma restore_queue_put:
  assumes "list_all (directive_ok ver e) ds" and "length ds < 4294967296" and "keyframeQueueVersion \<le> ver"
  shows "restore_queue ver e (good (put_u32 (word_of_nat (length ds)) @ concat (map (put_directive ver) ds) @ r))
         = Inr (e\<lparr>e_dirQueue := e_dirQueue e @ ds\<rparr>, good r)"
  using dir.rd_each_put [OF enumerate_all] assms
  by (simp add: restore_queue_def list_all_iff map_enumerate_snd unat_of_nat_u32)

lemma restore_overrides_put:
  assumes "list_all (override_ok e) rows" and "length rows < 4294967296" and "keyframeSignalVersion \<le> ver"
  shows "restore_overrides ver e (good (put_u32 (word_of_nat (length rows)) @ concat (map put_override rows) @ r))
         = Inr (e\<lparr>e_sigOv := foldl (add_override (e_Signals e)) (e_sigOv e) rows\<rparr>, good r)"
  using ovr.rd_each_put [OF enumerate_all] assms
  by (simp add: restore_overrides_def list_all_iff map_enumerate_snd unat_of_nat_u32)


text \<open>The record conditions depend on the static world only.\<close>

definition same_world :: "Engine \<Rightarrow> Engine \<Rightarrow> bool" where
  "same_world e e' \<longleftrightarrow> e_Types e' = e_Types e \<and> e_Signals e' = e_Signals e \<and>
     map static_lane (e_Lanes e') = map static_lane (e_Lanes e)"

lemma same_world_lanes: "same_world e e' \<Longrightarrow> length (e_Lanes e') = length (e_Lanes e)"
  by (auto simp: same_world_def dest: map_eq_imp_length_eq)

lemma same_world_lane_ID: "same_world e e' \<Longrightarrow> i < length (e_Lanes e) \<Longrightarrow> l_ID (e_Lanes e' ! i) = l_ID (e_Lanes e ! i)"
proof -
  assume w: "same_world e e'" and i: "i < length (e_Lanes e)"
  have "map static_lane (e_Lanes e') ! i = map static_lane (e_Lanes e) ! i"
    using w by (simp add: same_world_def)
  then have "static_lane (e_Lanes e' ! i) = static_lane (e_Lanes e ! i)"
    using i same_world_lanes [OF w] by simp
  then show ?thesis
    by (metis Lane.select_convs(1) Lane.surjective Lane.update_convs(17) static_lane_def)
qed

lemma same_world_ok:
  assumes "same_world e e'"
  shows "veh_ok ver e' = veh_ok ver e" "directive_ok ver e d \<Longrightarrow> directive_ok ver e' d"
    "override_ok e' = override_ok e"
  using assms same_world_lanes [OF assms] same_world_lane_ID [OF assms]
  by (auto simp: veh_ok_def fun_eq_iff directive_ok_def override_ok_def same_world_def)

lemma fresh_same_world: "fresh_for e0 e \<Longrightarrow> same_world e e0"
  by (simp add: fresh_for_def same_world_def)

lemma length_lane_times [simp]: "length (lane_times e) = length (e_Lanes e)"
  by (simp add: lane_times_def)

lemma restoreState_core:
  assumes wf: "kf_wf e" and fr: "fresh_for e0 e" and chk: "checkNet (e_Net e0) = None"
  shows "restoreState (Inr e0) checkNet (MarshalState e @ rest)
         = (if rest = [] then Inr (rebuilt e0 e, False) else Inl (Kf_trailing (length rest)))"
proof -
  let ?v = "kf_version e" and ?a = "kf_adaptive e"
  let ?rows = "override_rows e" and ?ds = "e_dirQueue e"
  let ?e1 = "e0\<lparr>e_Tick := e_Tick e, e_crc := e_crc e, e_nextID := e_nextID e\<rparr>"
  let ?e2 = "?e1\<lparr>e_order := map (settled ?a (e_Tick e)) (e_order e)\<rparr>"
  let ?nx = "(case e_spawner e of None \<Rightarrow> 0 | Some s \<Rightarrow> word_of_nat (sp_next s)) :: u32"
  let ?e3 = "?e2\<lparr>e_spawner := map_option (\<lambda>s. s\<lparr>sp_next := unat ?nx, sp_origins := spawnerOrigins e\<rparr>) (e_spawner e0)\<rparr>"
  let ?e4 = "if ?a then ?e3\<lparr>e_Net := (e_Net e0)\<lparr>n_Lanes := map (\<lambda>(l, t). l\<lparr>l_ttEMA := fst t\<rparr>) (zip (e_Lanes e0) (lane_times e))\<rparr>,
       e_ttSnap := map snd (lane_times e)\<rparr> else ?e3"
  let ?e5 = "?e4\<lparr>e_dirQueue := ?ds\<rparr>"
  let ?lanes = "if ?a then put_u32 (word_of_nat (length (e_Lanes e))) @ concat (map put_lane_times (lane_times e)) else []"
  let ?queue = "if keyframeQueueVersion \<le> ?v then put_u32 (word_of_nat (length ?ds)) @ concat (map (put_directive ?v) ?ds) else []"
  let ?ovs = "if keyframeSignalVersion \<le> ?v then put_u32 (word_of_nat (length ?rows)) @ concat (map put_override ?rows) else []"
  note w = fresh_same_world [OF fr]
  have len: "length (e_Lanes e0) = length (e_Lanes e)" by (rule same_world_lanes [OF w])
  have w4: "same_world e ?e4"
    using w len by (auto simp: same_world_def static_lane_def list_eq_iff_nth_eq)
  have veh: "restore_vehicles ?v ?a (e_Tick e) (length (e_order e)) ?e1
      (good (concat (map (put_vehicle ?v ?a) (e_order e)) @ r)) = Inr (?e2, good r)" for r
  proof -
    have "same_world e ?e1" using w by (simp add: same_world_def)
    from same_world_ok(1) [OF this, of ?v] have "list_all (veh_ok ?v ?e1) (e_order e)"
      using wf by (simp only: kf_wf_def)
    from restore_vehicles_put [OF this, of ?a "e_Tick e" r] show ?thesis by simp
  qed
  have sp: "restore_spawner ?nx ?e2 (good (concat (map put_origin (spawnerOrigins e)) @ r)) = Inr (?e3, good r)" for r
  proof -
    have "map o_lane (spawnerOrigins ?e2) = map o_lane (spawnerOrigins e)"
      using fr by (simp add: fresh_for_def spawnerOrigins_def)
    from restore_spawner_put [OF this, of ?nx r] show ?thesis using wf len by (simp add: kf_wf_def)
  qed
  have ln: "restore_lanes ?a ?e3 (good (?lanes @ r)) = Inr (?e4, good r)" for r
  proof (cases ?a)
    case True
    then show ?thesis
      using restore_lanes_put [of ?e3 "lane_times e" r] wf len by (simp add: kf_wf_def)
  next
    case False
    then show ?thesis by (simp add: restore_lanes_def)
  qed
  have e4q: "e_dirQueue ?e4 = []" "e_sigOv ?e4 = []" "e_Signals ?e4 = e_Signals e"
    using fr by (simp_all add: fresh_for_def)
  have qu: "restore_queue ?v ?e4 (good (?queue @ r)) = Inr (?e5, good r)" for r
  proof (cases "keyframeQueueVersion \<le> ?v")
    case True
    have "list_all (directive_ok ?v ?e4) ?ds"
      using wf same_world_ok(2) [OF w4] by (simp add: kf_wf_def list_all_iff)
    from restore_queue_put [OF this _ True] show ?thesis
      using True wf e4q by (simp add: kf_wf_def)
  next
    case False
    then have "?ds = []"
      using kf_version_ge3 [of e] kf_version_cases(5) [of e] by (simp add: kf_version_defs)
    moreover have "?e4\<lparr>e_dirQueue := []\<rparr> = ?e4" using e4q(1) by simp
    ultimately show ?thesis using False by (simp add: restore_queue_def)
  qed
  have ov: "restore_overrides ?v ?e5 (good (?ovs @ r))
      = Inr (?e5\<lparr>e_sigOv := foldl (add_override (e_Signals e)) [] ?rows\<rparr>, good r)" for r
  proof (cases "keyframeSignalVersion \<le> ?v")
    case True
    have w5: "same_world e ?e5" using w4 by (simp add: same_world_def)
    have "list_all (override_ok ?e5) ?rows"
      using wf same_world_ok(3) [OF w5] by (simp add: kf_wf_def)
    from restore_overrides_put [OF this _ True] show ?thesis
      using True wf e4q by (simp add: kf_wf_def)
  next
    case False
    then have "e_sigOv e = []" using kf_version_ge7 [of e] by (simp add: kf_version_defs)
    then have "?rows = []" by (simp add: override_rows_def ov_hist_def)
    moreover have "?e5\<lparr>e_sigOv := []\<rparr> = ?e5" using e4q(2) by simp
    ultimately show ?thesis using False by (simp add: restore_overrides_def)
  qed
  have final: "?e5\<lparr>e_sigOv := foldl (add_override (e_Signals e)) [] ?rows\<rparr> = rebuilt e0 e"
    using wf by (cases "e_spawner e")
      (simp_all add: rebuilt_def kf_wf_def Let_def unat_of_nat_u32)
  have nv: "unat (word_of_nat (length (e_order e)) :: u32) = length (e_order e)"
    "unat (word_of_nat (length (spawnerOrigins e)) :: u32) = length (spawnerOrigins e)"
    using wf by (simp_all add: kf_wf_def unat_of_nat_u32)
  have no: "length (spawnerOrigins e0) = length (spawnerOrigins e)"
    using fr by (auto simp: fresh_for_def dest: map_eq_imp_length_eq)
  have ad: "p_AdaptiveRouting (e_Params e0) = ?a"
    using fr by (simp add: fresh_for_def kf_adaptive_iff)
  have M: "MarshalState e @ rest = put_u32 keyframeMagic @ put_u16 ?v @ put_u16 (kf_flags e) @
      put_u64 (e_Tick e) @ put_u64 (e_crc e) @ put_u64 (e_nextID e) @
      put_u32 (word_of_nat (length (e_order e))) @ put_u32 (word_of_nat (length (spawnerOrigins e))) @
      put_u32 ?nx @ put_u32 0 @ concat (map (put_vehicle ?v ?a) (e_order e)) @
      concat (map put_origin (spawnerOrigins e)) @ ?lanes @ ?queue @ ?ovs @ rest"
    by (simp add: MarshalState_def put_header_def cong: option.case_cong)
  show ?thesis
    unfolding M restoreState_def Let_def
    by (simp only: rd_put split_conv kf_version_range kf_hasLanes ad good_sel nv no chk veh sp ln qu ov
        bindE.simps final sum.case option.case if_False not_True_eq_False simp_thms Inr_Inl_False split: if_split) simp
qed


subsection \<open>Held commands\<close>

lemma ov_hist_foldl:
  "ov_hist (foldl (add_override sigs) t rows) k
   = ov_hist t k @ map snd (filter (\<lambda>io. pg_ID (sigs ! fst io) = k) rows)"
  by (induction rows arbitrary: t) (auto simp: add_override_def ov_hist_update Let_def)

lemma filter_rows:
  assumes "inj_on f (set js)" and "distinct js" and "i \<in> set js"
  shows "filter (\<lambda>io. f (fst io) = f i) (concat (map (\<lambda>j. map (Pair j) (h j)) js)) = map (Pair i) (h i)"
proof -
  have row: "filter (\<lambda>io. f (fst io) = f i) (map (Pair j) (h j)) = (if j = i then map (Pair i) (h i) else [])"
    if "j \<in> set js" for j
  proof (cases "j = i")
    case False
    then have "f j \<noteq> f i" using assms(1,3) that by (auto dest: inj_onD)
    then show ?thesis using False by (simp add: filter_map comp_def)
  qed (simp add: filter_map comp_def)
  have "filter (\<lambda>io. f (fst io) = f i) (concat (map (\<lambda>j. map (Pair j) (h j)) js))
      = concat (map (\<lambda>j. if j = i then map (Pair i) (h i) else []) js)"
    by (simp add: filter_concat comp_def row cong: map_cong)
  also have "\<dots> = map (Pair i) (h i)"
    using assms(2,3)
  proof (induction js)
    case (Cons k js)
    have none: "concat (map (\<lambda>j. if j = i then map (Pair i) (h i) else []) js) = []" if "i \<notin> set js"
      using that by (induction js) auto
    show ?case using Cons none by (cases "k = i") auto
  qed simp
  finally show ?thesis .
qed

lemma rebuilt_hist:
  assumes "kf_wf e" and "i < length (e_Signals e)"
  shows "ov_hist (e_sigOv (rebuilt e0 e)) (pg_ID (e_Signals e ! i)) = ov_hist (e_sigOv e) (pg_ID (e_Signals e ! i))"
proof -
  have "inj_on (\<lambda>i. pg_ID (e_Signals e ! i)) (set [0..<length (e_Signals e)])"
  proof (rule inj_onI)
    fix x y assume "x \<in> set [0..<length (e_Signals e)]" "y \<in> set [0..<length (e_Signals e)]"
      "pg_ID (e_Signals e ! x) = pg_ID (e_Signals e ! y)"
    moreover have "distinct (map pg_ID (e_Signals e))" using assms(1) by (simp add: kf_wf_def)
    ultimately show "x = y" using nth_eq_iff_index_eq [of "map pg_ID (e_Signals e)" x y] by simp
  qed
  from filter_rows [OF this, of i "\<lambda>i. ov_hist (e_sigOv e) (pg_ID (e_Signals e ! i))"]
  have "map snd (filter (\<lambda>io. pg_ID (e_Signals e ! fst io) = pg_ID (e_Signals e ! i)) (override_rows e))
      = ov_hist (e_sigOv e) (pg_ID (e_Signals e ! i))"
    using assms(2) by (simp add: override_rows_def comp_def)
  moreover have "ov_hist [] k = []" for k by (simp add: ov_hist_def)
  ultimately show ?thesis by (simp add: rebuilt_def ov_hist_foldl Let_def)
qed

lemma rebuilt_sel:
  assumes "fresh_for e0 e"
  shows "e_Params (rebuilt e0 e) = e_Params e" "e_Types (rebuilt e0 e) = e_Types e"
    "e_Signals (rebuilt e0 e) = e_Signals e" "e_dirQueue (rebuilt e0 e) = e_dirQueue e"
    "e_Tick (rebuilt e0 e) = e_Tick e" "e_crc (rebuilt e0 e) = e_crc e" "e_nextID (rebuilt e0 e) = e_nextID e"
    "e_order (rebuilt e0 e) = map (settled (kf_adaptive e) (e_Tick e)) (e_order e)"
    "spawnerOrigins (rebuilt e0 e) = spawnerOrigins e"
    "map_option sp_next (e_spawner (rebuilt e0 e)) = map_option sp_next (e_spawner e)"
proof -
  have par: "e_Params e0 = e_Params e" and ty: "e_Types e0 = e_Types e" and sg: "e_Signals e0 = e_Signals e"
    and sp: "e_spawner e0 = None \<longleftrightarrow> e_spawner e = None"
    using assms by (simp_all only: fresh_for_def)
  show "e_Params (rebuilt e0 e) = e_Params e" "e_Types (rebuilt e0 e) = e_Types e"
    "e_Signals (rebuilt e0 e) = e_Signals e"
    by (simp_all add: rebuilt_def Let_def par ty sg)
  show "e_dirQueue (rebuilt e0 e) = e_dirQueue e" "e_Tick (rebuilt e0 e) = e_Tick e"
    "e_crc (rebuilt e0 e) = e_crc e" "e_nextID (rebuilt e0 e) = e_nextID e"
    "e_order (rebuilt e0 e) = map (settled (kf_adaptive e) (e_Tick e)) (e_order e)"
    by (simp_all add: rebuilt_def Let_def)
  show "spawnerOrigins (rebuilt e0 e) = spawnerOrigins e"
    "map_option sp_next (e_spawner (rebuilt e0 e)) = map_option sp_next (e_spawner e)"
    using sp by (cases "e_spawner e0"; cases "e_spawner e"; simp add: rebuilt_def Let_def spawnerOrigins_def)+
qed

lemma zip_times:
  "length ls = length ts \<Longrightarrow>
   map static_lane (map (\<lambda>(l, t). l\<lparr>l_ttEMA := fst t\<rparr>) (zip ls ts)) = map static_lane ls"
  "length ls = length ts \<Longrightarrow> map l_ttEMA (map (\<lambda>(l, t). l\<lparr>l_ttEMA := fst t\<rparr>) (zip ls ts)) = map fst ts"
  by (induction ls ts rule: list_induct2) (auto simp: static_lane_def)

lemma lane_times_zip: "length (e_ttSnap e) = length (e_Lanes e) \<Longrightarrow>
    lane_times e = zip (map l_ttEMA (e_Lanes e)) (e_ttSnap e)"
  by (rule nth_equalityI) (simp_all add: lane_times_def)

lemma rebuilt_lanes:
  assumes "kf_wf e" "fresh_for e0 e"
  shows "map static_lane (e_Lanes (rebuilt e0 e)) = map static_lane (e_Lanes e)"
    and "kf_adaptive e \<Longrightarrow> lane_times (rebuilt e0 e) = lane_times e"
    and "length (e_Lanes (rebuilt e0 e)) = length (e_Lanes e)"
proof -
  have w: "map static_lane (e_Lanes e0) = map static_lane (e_Lanes e)"
    using assms(2) by (simp only: fresh_for_def)
  have len: "length (e_Lanes e0) = length (lane_times e)"
    using map_eq_imp_length_eq [OF w] by (simp only: length_lane_times)
  show s: "map static_lane (e_Lanes (rebuilt e0 e)) = map static_lane (e_Lanes e)"
    using w zip_times(1) [OF len] by (simp add: rebuilt_def Let_def)
  show l: "length (e_Lanes (rebuilt e0 e)) = length (e_Lanes e)"
    using s by (rule map_eq_imp_length_eq)
  assume a: "kf_adaptive e"
  then have "length (e_ttSnap (rebuilt e0 e)) = length (e_Lanes (rebuilt e0 e))"
    using l by (simp add: rebuilt_def Let_def)
  from lane_times_zip [OF this] have "lane_times (rebuilt e0 e) = zip (map fst (lane_times e)) (map snd (lane_times e))"
    using zip_times(2) [OF len] a by (simp add: rebuilt_def Let_def)
  then show "lane_times (rebuilt e0 e) = lane_times e" by (simp add: zip_map_fst_snd)
qed

lemma rebuilt_no_holds:
  assumes "kf_wf e"
  shows "e_sigOv (rebuilt e0 e) = [] \<longleftrightarrow> e_sigOv e = []"
proof
  assume "e_sigOv e = []"
  then have "override_rows e = []" by (simp add: override_rows_def ov_hist_def)
  then show "e_sigOv (rebuilt e0 e) = []" by (simp add: rebuilt_def Let_def)
next
  assume nil: "e_sigOv (rebuilt e0 e) = []"
  show "e_sigOv e = []"
  proof (rule ccontr)
    assume "e_sigOv e \<noteq> []"
    then obtain k h where kh: "(k, h) \<in> set (e_sigOv e)" by (cases "e_sigOv e") auto
    then have "h \<noteq> []" "k \<in> set (map pg_ID (e_Signals e))" "distinct (map fst (e_sigOv e))"
      using assms by (auto simp: kf_wf_def list_all_iff)
    then obtain i where i: "i < length (e_Signals e)" "k = pg_ID (e_Signals e ! i)"
      by (auto simp: in_set_conv_nth)
    have "ov_hist (e_sigOv e) k = h"
      using kh \<open>distinct (map fst (e_sigOv e))\<close> by (simp add: ov_hist_def)
    then show False
      using rebuilt_hist [OF assms i(1), of e0] nil \<open>h \<noteq> []\<close> i(2) by (simp add: ov_hist_def)
  qed
qed

lemma settled_sel [simp]:
  "v_stuckTicks (settled a t v) = v_stuckTicks v" "v_stopDone (settled a t v) = v_stopDone v"
  by (simp_all add: settled_def)

lemma put_vehicle_settled [simp]: "put_vehicle ver a (settled a t v) = put_vehicle ver a v"
  by (simp add: put_vehicle_def put_controller_def settled_def)

lemma rebuilt_version:
  assumes "kf_wf e" "fresh_for e0 e"
  shows "kf_version (rebuilt e0 e) = kf_version e" "kf_adaptive (rebuilt e0 e) = kf_adaptive e"
    "kf_flags (rebuilt e0 e) = kf_flags e"
proof -
  show "kf_version (rebuilt e0 e) = kf_version e"
    by (simp add: kf_version_def rebuilt_sel [OF assms(2)] rebuilt_no_holds [OF assms(1)])
  then show "kf_adaptive (rebuilt e0 e) = kf_adaptive e" "kf_flags (rebuilt e0 e) = kf_flags e"
    by (simp_all add: kf_adaptive_iff kf_flags_def rebuilt_sel [OF assms(2)])
qed

lemma rebuilt_rows:
  assumes "kf_wf e" "fresh_for e0 e"
  shows "override_rows (rebuilt e0 e) = override_rows e"
  unfolding override_rows_def rebuilt_sel [OF assms(2)]
  by (rule arg_cong [where f = concat]) (simp add: rebuilt_hist [OF assms(1)])

lemma remarshal_core:
  assumes "kf_wf e" "fresh_for e0 e"
  shows "MarshalState (rebuilt e0 e) = MarshalState e"
proof -
  have nx: "(case e_spawner (rebuilt e0 e) of None \<Rightarrow> 0 | Some s \<Rightarrow> word_of_nat (sp_next s))
      = (case e_spawner e of None \<Rightarrow> 0 | Some s \<Rightarrow> (word_of_nat (sp_next s) :: u32))"
    using rebuilt_sel(10) [OF assms(2)] by (auto split: option.splits)
  show ?thesis
    by (simp add: MarshalState_def put_header_def nx rebuilt_sel [OF assms(2)] rebuilt_version [OF assms]
        rebuilt_rows [OF assms] rebuilt_lanes [OF assms] comp_def)
qed


subsection \<open>What is accepted is in range\<close>

lemma rd_each_all:
  assumes "rd_each get i n r = Inr (xs, r')" and "\<And>j r x r'. get j r = Inr (x, r') \<Longrightarrow> P x"
  shows "list_all P xs"
  using assms(1)
proof (induction n arbitrary: i r xs)
  case (Suc n)
  then show ?case using assms(2) by (auto split: sum.splits)
qed simp

definition veh_in :: "Engine \<Rightarrow> Vehicle \<Rightarrow> bool" where
  "veh_in e v \<longleftrightarrow> v_Lane v < length (e_Lanes e) \<and> v_TypeIdx v < length (e_Types e)"

definition directive_in :: "Engine \<Rightarrow> TickedSpawn \<Rightarrow> bool" where
  "directive_in e d \<longleftrightarrow> ts_LaneIdx d < length (e_Lanes e) \<and> ts_TypeIdx d < length (e_Types e) \<and>
     sd_Origin (ts_Dir d) = l_ID (e_Lanes e ! ts_LaneIdx d) \<and>
     sd_TypeName (ts_Dir d) = vt_Name (e_Types e ! ts_TypeIdx d)"

definition override_in :: "Engine \<Rightarrow> nat \<times> sigOverride \<Rightarrow> bool" where
  "override_in e io \<longleftrightarrow> fst io < length (e_Signals e) \<and> 0 \<le> ov_phase (snd io) \<and>
     ov_phase (snd io) < int (length (pg_Phases (e_Signals e ! fst io))) \<and>
     ov_since (snd io) < ov_until (snd io) \<and> ov_chainStart (snd io) \<le> ov_since (snd io)"

lemma rd_controller_keeps:
  "rd_controller ver h t v r = (v', r') \<Longrightarrow> v_Lane v' = v_Lane v \<and> v_TypeIdx v' = v_TypeIdx v"
  by (auto simp: rd_controller_def Let_def split: prod.splits)

lemma rd_vehicle_in: "rd_vehicle ver h t e i r = Inr (v, r') \<Longrightarrow> veh_in e v"
  by (auto simp: rd_vehicle_def Let_def veh_in_def split: prod.splits option.splits if_splits
      dest!: rd_controller_keeps)

lemma rd_directive_in: "rd_directive ver e i r = Inr (d, r') \<Longrightarrow> directive_in e d"
  by (auto simp: rd_directive_def Let_def directive_in_def split: prod.splits option.splits if_splits)

lemma unat_phase: "unat (w :: u32) < n \<Longrightarrow> uint w < int n"
  by (metis nat_int_comparison(2) uint_nat)

lemma rd_override_in: "rd_override e i r = Inr (io, r') \<Longrightarrow> override_in e io"
  unfolding rd_override_def Let_def split_beta override_in_def
  by (auto split: option.splits if_splits simp: not_le intro: unat_phase)


lemma restore_vehicles_in:
  "restore_vehicles ver h t n e r = Inr (e', r') \<Longrightarrow>
   list_all (veh_in e) (e_order e') \<and> (\<exists>vs. e' = e\<lparr>e_order := vs\<rparr>)"
  by (auto simp: restore_vehicles_def bindE_Inr_iff elim!: rd_each_all intro: rd_vehicle_in)

lemma restore_spawner_frame:
  "restore_spawner nx e r = Inr (e', r') \<Longrightarrow> \<exists>sp. e' = e\<lparr>e_spawner := sp\<rparr>"
proof (cases "e_spawner e")
  case None
  moreover assume "restore_spawner nx e r = Inr (e', r')"
  ultimately have "e' = e\<lparr>e_spawner := e_spawner e\<rparr>" by (simp add: restore_spawner_def)
  then show ?thesis by (rule exI)
qed (auto simp: restore_spawner_def bindE_Inr_iff)

lemma restore_lanes_frame:
  assumes "restore_lanes h e r = Inr (e', r')"
  shows "e_order e' = e_order e" "e_Types e' = e_Types e" "e_Signals e' = e_Signals e"
    "e_dirQueue e' = e_dirQueue e" "e_sigOv e' = e_sigOv e" "map static_lane (e_Lanes e') = map static_lane (e_Lanes e)"
proof -
  have len: "length (fst (read_many n rd_lane_times r)) = n" for n r
    by (induction n arbitrary: r) (auto simp: Let_def split_beta)
  have st: "map static_lane (map (\<lambda>(l, t). l\<lparr>l_ttEMA := fst t\<rparr>) (zip (e_Lanes e) ts)) = map static_lane (e_Lanes e)"
    if "length ts = length (e_Lanes e)" for ts using zip_times(1) that by metis
  show "e_order e' = e_order e" "e_Types e' = e_Types e" "e_Signals e' = e_Signals e"
    "e_dirQueue e' = e_dirQueue e" "e_sigOv e' = e_sigOv e" "map static_lane (e_Lanes e') = map static_lane (e_Lanes e)"
    using assms st [OF len] unfolding restore_lanes_def Let_def split_beta
    by (auto split: option.splits if_splits)
qed

lemma restore_queue_in:
  assumes "restore_queue ver e r = Inr (e', r')"
  shows "\<exists>ds. list_all (directive_in e) ds \<and> e' = e\<lparr>e_dirQueue := e_dirQueue e @ ds\<rparr>"
proof (cases "keyframeQueueVersion \<le> ver")
  case True
  with assms show ?thesis
    unfolding restore_queue_def Let_def split_beta
    by (auto simp: bindE_Inr_iff split: option.splits if_splits dest!: rd_each_all [OF _ rd_directive_in])
next
  case False
  with assms show ?thesis by (intro exI [of _ "[]"]) (auto simp: restore_queue_def)
qed

lemma restore_overrides_in:
  assumes "restore_overrides ver e r = Inr (e', r')"
  shows "\<exists>rows. list_all (override_in e) rows \<and>
    e' = e\<lparr>e_sigOv := foldl (add_override (e_Signals e)) (e_sigOv e) rows\<rparr>"
proof (cases "keyframeSignalVersion \<le> ver")
  case True
  with assms show ?thesis
    unfolding restore_overrides_def Let_def split_beta
    by (auto simp: bindE_Inr_iff split: option.splits if_splits dest!: rd_each_all [OF _ rd_override_in])
next
  case False
  with assms show ?thesis by (intro exI [of _ "[]"]) (auto simp: restore_overrides_def)
qed


definition held_in :: "Engine \<Rightarrow> string \<Rightarrow> sigOverride \<Rightarrow> bool" where
  "held_in e k ov \<longleftrightarrow> list_ex (\<lambda>p. pg_ID p = k \<and> 0 \<le> ov_phase ov \<and>
     ov_phase ov < int (length (pg_Phases p))) (e_Signals e) \<and>
     ov_since ov < ov_until ov \<and> ov_chainStart ov \<le> ov_since ov"

lemma override_held: "override_in e io \<Longrightarrow> held_in e (pg_ID (e_Signals e ! fst io)) (snd io)"
  unfolding override_in_def held_in_def list_ex_iff using nth_mem by blast

lemma held_in_sig: "e_Signals e = e_Signals e' \<Longrightarrow> held_in e = held_in e'"
  by (simp add: fun_eq_iff held_in_def)

lemma restoreState_stages:
  assumes "restoreState (Inr e0) checkNet data = Inr (e', n)"
  obtains ver h t m nx s1 s2 s3 s4 s5 s6 tick crc nid e1 e2 e3 e4
  where "restore_vehicles ver h t m (e0\<lparr>e_Tick := tick, e_crc := crc, e_nextID := nid\<rparr>) s1 = Inr (e1, s2)"
    and "restore_spawner nx e1 s2 = Inr (e2, s3)" and "restore_lanes h e2 s3 = Inr (e3, s4)"
    and "restore_queue ver e3 s4 = Inr (e4, s5)" and "restore_overrides ver e4 s5 = Inr (e', s6)"
  using assms unfolding restoreState_def Let_def split_beta
  by (auto split: if_splits option.splits simp: bindE_Inr_iff)

lemma restore_range_core:
  assumes "restoreState (Inr e0) checkNet data = Inr (e', n)" and "e_dirQueue e0 = []" and "e_sigOv e0 = []"
  shows "list_all (veh_in e') (e_order e')" and "list_all (directive_in e') (e_dirQueue e')"
    and "list_all (held_in e' k) (ov_hist (e_sigOv e') k)" and "same_world e0 e'"
proof -
  obtain ver h t m nx s1 s2 s3 s4 s5 s6 tick crc nid e1 e2 e3 e4
    where v: "restore_vehicles ver h t m (e0\<lparr>e_Tick := tick, e_crc := crc, e_nextID := nid\<rparr>) s1 = Inr (e1, s2)"
    and s: "restore_spawner nx e1 s2 = Inr (e2, s3)" and l: "restore_lanes h e2 s3 = Inr (e3, s4)"
    and q: "restore_queue ver e3 s4 = Inr (e4, s5)" and o: "restore_overrides ver e4 s5 = Inr (e', s6)"
    using assms(1) by (rule restoreState_stages)
  obtain vs where e1: "e1 = e0\<lparr>e_Tick := tick, e_crc := crc, e_nextID := nid, e_order := vs\<rparr>"
    and vin: "list_all (veh_in (e0\<lparr>e_Tick := tick, e_crc := crc, e_nextID := nid\<rparr>)) (e_order e1)"
    using restore_vehicles_in [OF v] by auto
  obtain sp where e2: "e2 = e1\<lparr>e_spawner := sp\<rparr>" using restore_spawner_frame [OF s] by auto
  note e3 = restore_lanes_frame [OF l]
  obtain ds where e4: "e4 = e3\<lparr>e_dirQueue := e_dirQueue e3 @ ds\<rparr>" and din: "list_all (directive_in e3) ds"
    using restore_queue_in [OF q] by auto
  obtain rows where e5: "e' = e4\<lparr>e_sigOv := foldl (add_override (e_Signals e4)) (e_sigOv e4) rows\<rparr>"
    and rin: "list_all (override_in e4) rows"
    using restore_overrides_in [OF o] by auto
  show w: "same_world e0 e'"
    unfolding same_world_def e5 e4 by (simp add: e3 e2 e1)
  have len: "length (e_Lanes e') = length (e_Lanes e0)" by (rule same_world_lanes [OF w])
  have "e_order e' = e_order e1" "e_Types e' = e_Types e0"
    by (simp_all add: e5 e4 e3 e2 e1)
  then show "list_all (veh_in e') (e_order e')"
    using vin len by (simp add: veh_in_def list_all_iff)
  have "e_dirQueue e' = ds" using assms(2) by (simp add: e5 e4 e3 e2 e1)
  moreover have "directive_in e' = directive_in e3" by (simp add: fun_eq_iff directive_in_def e5 e4)
  ultimately show "list_all (directive_in e') (e_dirQueue e')" using din by simp
  have "e_sigOv e4 = []" using assms(3) by (simp add: e4 e3 e2 e1)
  then have h: "ov_hist (e_sigOv e') k = map snd (filter (\<lambda>io. pg_ID (e_Signals e' ! fst io) = k) rows)"
    by (simp add: e5 ov_hist_foldl) (simp add: ov_hist_def)
  have sg: "e_Signals e' = e_Signals e4" by (simp add: e5)
  show "list_all (held_in e' k) (ov_hist (e_sigOv e') k)"
    using rin override_held unfolding h sg held_in_sig [OF sg] by (auto simp: list_all_iff)
qed

subsection \<open>Properties\<close>

text \<open>
  C12: A snapshot restores: for every state the format can hold, \<open>RestoreState\<close> on a fresh engine
  of the same spec accepts what \<open>MarshalState\<close> wrote and gives back the tick, the determinism
  checksum, the next vehicle id, every vehicle in population order (its per-tick fields reset,
  its lane-entry clock kept exactly when the run routes adaptively), every origin with its
  random stream, the schedule cursor, the learned travel times, the director's queue in order
  and every signal program's whole hold history.
\<close>

theorem keyframe_roundtrip:
  assumes "kf_wf e" and "fresh_for e0 e"
  shows "\<exists>e'. RestoreState (Inr e0) (MarshalState e) = Inr (e', False) \<and>
    e_Tick e' = e_Tick e \<and> e_crc e' = e_crc e \<and> e_nextID e' = e_nextID e \<and>
    e_order e' = map (settled (p_AdaptiveRouting (e_Params e)) (e_Tick e)) (e_order e) \<and>
    spawnerOrigins e' = spawnerOrigins e \<and>
    map_option sp_next (e_spawner e') = map_option sp_next (e_spawner e) \<and>
    (p_AdaptiveRouting (e_Params e) \<longrightarrow> lane_times e' = lane_times e) \<and>
    e_dirQueue e' = e_dirQueue e \<and>
    list_all (\<lambda>p. ov_hist (e_sigOv e') (pg_ID p) = ov_hist (e_sigOv e) (pg_ID p)) (e_Signals e)"
proof -
  have "RestoreState (Inr e0) (MarshalState e) = Inr (rebuilt e0 e, False)"
    using restoreState_core [OF assms, of "\<lambda>_. None" "[]"] by (simp add: RestoreState_def)
  moreover have "list_all (\<lambda>p. ov_hist (e_sigOv (rebuilt e0 e)) (pg_ID p) = ov_hist (e_sigOv e) (pg_ID p)) (e_Signals e)"
    using rebuilt_hist [OF assms(1)] by (auto simp: list_all_iff in_set_conv_nth)
  ultimately show ?thesis
    using rebuilt_sel [OF assms(2)] rebuilt_lanes(2) [OF assms] by (auto simp: kf_adaptive_iff)
qed

text \<open>
  The snapshot is a fixed point: a state restored from a snapshot marshals to the very same
  bytes, so a chain of save and resume never drifts.
\<close>

theorem keyframe_fixpoint:
  assumes "kf_wf e" and "fresh_for e0 e"
    and "RestoreState (Inr e0) (MarshalState e) = Inr (e', notice)"
  shows "MarshalState e' = MarshalState e"
proof -
  have "e' = rebuilt e0 e"
    using restoreState_core [OF assms(1,2), of "\<lambda>_. None" "[]"] assms(3) by (simp add: RestoreState_def)
  then show ?thesis by (simp add: remarshal_core [OF assms(1,2)])
qed

text \<open>
  A snapshot with anything behind it is refused, and the error counts the bytes left over.
\<close>

theorem keyframe_trailing:
  assumes "kf_wf e" and "fresh_for e0 e" and "checkNet (e_Net e0) = None" and "rest \<noteq> []"
  shows "restoreState (Inr e0) checkNet (MarshalState e @ rest) = Inl (Kf_trailing (length rest))"
  using restoreState_core [where checkNet = checkNet, OF assms(1-3), of rest] assms(4) by simp

text \<open>
  Whatever bytes \<open>restoreState\<close> accepts, the engine it hands out is well-formed: every
  vehicle stands on a lane and has a type of the network it was built with, every queued
  directive is resolved to an existing lane and type, and every retained hold commands a phase
  its program has, over a non-empty interval that starts inside its chain.
\<close>

theorem restore_range:
  assumes "restoreState (Inr e0) checkNet data = Inr (e', notice)"
    and "e_dirQueue e0 = []" and "e_sigOv e0 = []"
  shows "list_all (veh_in e') (e_order e') \<and> list_all (directive_in e') (e_dirQueue e') \<and>
    list_all (held_in e' k) (ov_hist (e_sigOv e') k)"
  using restore_range_core [OF assms] by blast


subsection \<open>Witnesses\<close>

text \<open>An adaptive run with two vehicles, one origin, a queued directive and one retained hold.\<close>

definition kf_demo0 :: Engine where
  "kf_demo0 = demo_engine\<lparr>e_Params := demo_params\<lparr>p_AdaptiveRouting := True\<rparr>, e_sigOv := [], e_ttSnap := [0],
     e_spawner := Some \<lparr>sp_target = 0, sp_sched = [], sp_next = 0, sp_origins = [\<lparr>o_lane = 0, o_rate = 0, o_pendID = 0,
       o_pendRng = \<lparr>st_hi = 0, st_lo = 0, st_n = 0\<rparr>, o_tick = 0\<rparr>]\<rparr>\<rparr>"

definition kf_demo :: Engine where
  "kf_demo = kf_demo0\<lparr>e_sigOv := [(''j1'', [demo_hold])],
     e_spawner := Some \<lparr>sp_target = 0, sp_sched = [], sp_next = 1, sp_origins = [\<lparr>o_lane = 0, o_rate = f64_lit 1 1, o_pendID = 3,
       o_pendRng = \<lparr>st_hi = 7, st_lo = 9, st_n = 2\<rparr>, o_tick = 11\<rparr>]\<rparr>,
     e_dirQueue := [\<lparr>ts_Tick = 20, ts_TypeIdx = 0, ts_LaneIdx = 0,
       ts_Dir = \<lparr>sd_RequestID = ''r'', sd_Origin = ''a'', sd_TypeName = ''car'', sd_EarliestTick = 30,
         sd_Destination = [], sd_OffsetM = 0\<rparr>\<rparr>]\<rparr>"

lemmas kf_demo_defs = kf_demo_def kf_demo0_def demo_engine_def demo_net_def demo_lane_def demo_params_def
  demo_compiled_def demo_program_def demo_phases_def demo_hold_def demo_vehicle_def demo_type_def

lemma kf_demo_ok: "kf_wf kf_demo" "fresh_for kf_demo0 kf_demo"
proof -
  have "override_rows kf_demo = [(0, demo_hold)]"
    by (simp add: override_rows_def ov_hist_def kf_demo_defs)
  then show "kf_wf kf_demo"
    by (simp add: kf_wf_def veh_ok_def directive_ok_def override_ok_def spawnerOrigins_def i32_range_def
        kf_demo_defs)
  show "fresh_for kf_demo0 kf_demo"
    by (simp add: fresh_for_def spawnerOrigins_def kf_demo_defs)
qed

lemma keyframe_roundtrip_witness:
  "\<exists>e'. RestoreState (Inr kf_demo0) (MarshalState kf_demo) = Inr (e', False) \<and> e_Tick e' = 25 \<and>
     e_dirQueue e' = e_dirQueue kf_demo"
  using keyframe_roundtrip [OF kf_demo_ok] by (auto simp: kf_demo_def kf_demo0_def demo_engine_def)

lemma kf_demo_restores: "RestoreState (Inr kf_demo0) (MarshalState kf_demo) = Inr (rebuilt kf_demo0 kf_demo, False)"
  using restoreState_core [OF kf_demo_ok, of "\<lambda>_. None" "[]"] by (simp add: RestoreState_def)

lemma keyframe_fixpoint_witness: "MarshalState (rebuilt kf_demo0 kf_demo) = MarshalState kf_demo"
  by (rule keyframe_fixpoint [OF kf_demo_ok kf_demo_restores])

lemma keyframe_trailing_witness:
  "restoreState (Inr kf_demo0) (\<lambda>_. None) (MarshalState kf_demo @ [0, 0]) = Inl (Kf_trailing 2)"
  using keyframe_trailing [OF kf_demo_ok, of "\<lambda>_. None" "[0, 0]"] by simp

lemma restore_range_witness:
  "list_all (veh_in (rebuilt kf_demo0 kf_demo)) (e_order (rebuilt kf_demo0 kf_demo))"
proof -
  have "restoreState (Inr kf_demo0) (\<lambda>_. None) (MarshalState kf_demo) = Inr (rebuilt kf_demo0 kf_demo, False)"
    using kf_demo_restores by (simp add: RestoreState_def)
  then show ?thesis
    using restore_range [of kf_demo0 "\<lambda>_. None"] by (simp add: kf_demo0_def demo_engine_def)
qed

end
