(* ===== verification/Crc.thy ===== *)
theory Crc
  imports Keyframe
begin

text \<open>
  \<open>engine/engine.go\<close>, \<open>computeCRC\<close>: the rolling determinism checksum. The canonical byte stream
  of a tick is separated from the FNV-1a 64 fold over it, so that what the checksum can tell
  apart is a statement about the stream.
\<close>

definition crc_vehicle :: "Vehicle \<Rightarrow> bytes" where
  "crc_vehicle v = put_u64 (v_ID v) @ put_u64 (word_of_nat (v_Lane v)) @ put_u64 (word_of_nat (v_TypeIdx v)) @
     put_u64 (v_S v) @ put_u64 (v_V v) @ put_u64 (v_F v) @ put_u64 (v_Cooldown v) @ put_u64 (Draws (v_rng v))"

definition crc_origin :: "originState \<Rightarrow> bytes" where
  "crc_origin st = put_u64 (o_pendID st) @ put_u64 (o_tick st)"

definition crc_directive :: "TickedSpawn \<Rightarrow> bytes" where
  "crc_directive d = put_u64 (ts_Tick d) @ put_u64 (word_of_nat (ts_LaneIdx d)) @
     put_u64 (word_of_nat (ts_TypeIdx d)) @ put_u64 (sd_EarliestTick (ts_Dir d)) @
     bytes_of (sd_RequestID (ts_Dir d))"

definition crc_override :: "nat \<times> sigOverride \<Rightarrow> bytes" where
  "crc_override io = put_u64 (word_of_nat (fst io)) @ put_u64 (word_of_int (ov_phase (snd io))) @
     put_u64 (ov_since (snd io)) @ put_u64 (ov_until (snd io)) @ put_u64 (ov_chainStart (snd io))"

definition crc_bytes :: "Engine \<Rightarrow> bytes" where
  "crc_bytes e =
     put_u64 (e_crc e) @ put_u64 (e_Tick e) @ concat (map crc_vehicle (e_order e)) @
     concat (map crc_origin (spawnerOrigins e)) @
     (if e_dirQueue e = [] then []
      else put_u64 (word_of_nat (length (e_dirQueue e))) @ concat (map crc_directive (e_dirQueue e))) @
     (if p_AdaptiveRouting (e_Params e)
      then concat (map put_lane_times (lane_times e)) @ concat (map (\<lambda>v. put_u64 (v_laneEntryTick v)) (e_order e))
      else []) @
     (if e_sigOv e = [] then []
      else put_u64 (word_of_nat (length (override_rows e))) @ concat (map crc_override (override_rows e)))"

definition computeCRC :: "Engine \<Rightarrow> u64" where
  "computeCRC e = fnv_write fnv_offset (crc_bytes e)"

subsection \<open>A restored state has the checksum of the saved one\<close>

lemma crc_settled: "crc_vehicle (settled a t v) = crc_vehicle v"
  by (simp add: crc_vehicle_def settled_def)

lemma settled_entry: "v_laneEntryTick (settled True t v) = v_laneEntryTick v"
  by (simp add: settled_def)

lemma crc_rebuilt:
  assumes "kf_wf e" "fresh_for e0 e"
  shows "crc_bytes (rebuilt e0 e) = crc_bytes e"
proof (cases "kf_adaptive e")
  case True
  then have "p_AdaptiveRouting (e_Params e)" by (simp add: kf_adaptive_iff)
  then show ?thesis
    using True by (simp add: crc_bytes_def rebuilt_sel [OF assms(2)] rebuilt_rows [OF assms]
        rebuilt_lanes(2) [OF assms] rebuilt_no_holds [OF assms(1)] comp_def crc_settled settled_entry)
next
  case False
  then have "\<not> p_AdaptiveRouting (e_Params e)" by (simp add: kf_adaptive_iff)
  then show ?thesis
    by (simp add: crc_bytes_def rebuilt_sel [OF assms(2)] rebuilt_rows [OF assms]
        rebuilt_no_holds [OF assms(1)] comp_def crc_settled)
qed

text \<open>
  Seeking keeps the determinism oracle. The checksum of an engine restored from a snapshot
  equals the checksum of the engine that was saved, whatever the queue of directives, the held
  signal commands and the adaptive routing state were, so a replay that starts from a keyframe
  verifies against the recorded chain.
\<close>

theorem restored_crc:
  assumes "kf_wf e" and "fresh_for e0 e"
    and "RestoreState (Inr e0) (MarshalState e) = Inr (e', notice)"
  shows "computeCRC e' = computeCRC e"
proof -
  have "e' = rebuilt e0 e"
    using restoreState_core [OF assms(1,2), of "\<lambda>_. None" "[]"] assms(3) by (simp add: RestoreState_def)
  then show ?thesis by (simp add: computeCRC_def crc_rebuilt [OF assms(1,2)])
qed

lemma restored_crc_witness: "computeCRC (rebuilt kf_demo0 kf_demo) = computeCRC kf_demo"
  by (rule restored_crc [OF kf_demo_ok kf_demo_restores])

subsection \<open>What the stream tells apart\<close>

text \<open>Fields of equal width: the concatenation determines each of them.\<close>

locale fixed_width =
  fixes put :: "'a \<Rightarrow> bytes" and w :: nat and key :: "'a \<Rightarrow> 'k"
  assumes width: "length (put x) = w" and positive: "0 < w" and inj: "put x = put y \<Longrightarrow> key x = key y"
begin

lemma length_concat_put: "length (concat (map put xs)) = w * length xs"
  by (induction xs) (simp_all add: width)

lemma concat_put_inj:
  "length xs = length ys \<Longrightarrow> concat (map put xs) @ r = concat (map put ys) @ s \<Longrightarrow>
   map key xs = map key ys \<and> r = s"
proof (induction xs ys rule: list_induct2)
  case (Cons x xs y ys)
  have e: "put x @ (concat (map put xs) @ r) = put y @ (concat (map put ys) @ s)"
    using Cons.prems by simp
  have "length (put x) = length (put y)" by (simp only: width)
  with e have p: "put x = put y" and c: "concat (map put xs) @ r = concat (map put ys) @ s"
    using append_eq_append_conv [of "put x" "put y"] by blast+
  show ?case using Cons.IH [OF c] inj [OF p] by simp
qed simp

end

lemma put_u64_append: "put_u64 a @ r = put_u64 b @ s \<longleftrightarrow> a = b \<and> r = s"
  using u64_field.put_prefix_free [where x = a and y = b and r = r and s = s] by auto

definition veh_key :: "Vehicle \<Rightarrow> u64 \<times> u64 \<times> u64 \<times> f64 \<times> f64 \<times> f64 \<times> u64 \<times> u64" where
  "veh_key v = (v_ID v, word_of_nat (v_Lane v), word_of_nat (v_TypeIdx v), v_S v, v_V v, v_F v, v_Cooldown v,
     Draws (v_rng v))"

definition origin_key :: "originState \<Rightarrow> u64 \<times> u64" where
  "origin_key st = (o_pendID st, o_tick st)"

interpretation crcv: fixed_width crc_vehicle 64 veh_key
proof
  show "crc_vehicle x = crc_vehicle y \<Longrightarrow> veh_key x = veh_key y" for x y
    by (simp add: crc_vehicle_def veh_key_def put_u64_append)
qed (simp_all add: crc_vehicle_def)

interpretation crco: fixed_width crc_origin 16 origin_key
  by unfold_locales (simp_all add: crc_origin_def origin_key_def put_u64_append)

interpretation crcl: fixed_width put_lane_times 16 "\<lambda>t. t"
  by unfold_locales (auto simp: put_lane_times_def put_u64_append prod_eq_iff)

interpretation crct: fixed_width "\<lambda>v. put_u64 (v_laneEntryTick v)" 8 v_laneEntryTick
  by unfold_locales simp_all

text \<open>
  The checksum stream is faithful. For two states of one run spec with no queued directive and
  no held signal, equal canonical streams mean equal everything that is folded in: the previous
  checksum, the tick, the population in order with id, lane, type, position, speed, desired-speed
  factor, cooldown and draw count, the pending spawns, and under adaptive routing every travel
  time and dwell clock. A divergence in any of them reaches the hash.
\<close>

theorem crc_faithful:
  assumes "crc_bytes e = crc_bytes e'"
    and "e_dirQueue e = []" "e_dirQueue e' = []" "e_sigOv e = []" "e_sigOv e' = []"
    and "e_Params e' = e_Params e" "length (e_Lanes e') = length (e_Lanes e)"
    and "length (spawnerOrigins e') = length (spawnerOrigins e)"
  shows "e_crc e = e_crc e' \<and> e_Tick e = e_Tick e' \<and>
    map veh_key (e_order e) = map veh_key (e_order e') \<and>
    map origin_key (spawnerOrigins e) = map origin_key (spawnerOrigins e') \<and>
    (p_AdaptiveRouting (e_Params e) \<longrightarrow> lane_times e = lane_times e' \<and>
       map v_laneEntryTick (e_order e) = map v_laneEntryTick (e_order e'))"
proof -
  let ?tail = "\<lambda>e. if p_AdaptiveRouting (e_Params e)
      then concat (map put_lane_times (lane_times e)) @ concat (map (\<lambda>v. put_u64 (v_laneEntryTick v)) (e_order e))
      else []"
  have stream: "crc_bytes x = put_u64 (e_crc x) @ put_u64 (e_Tick x) @ concat (map crc_vehicle (e_order x)) @
      concat (map crc_origin (spawnerOrigins x)) @ ?tail x" if "e_dirQueue x = []" "e_sigOv x = []" for x
    using that by (simp add: crc_bytes_def)
  have len: "length (crc_bytes x) = 16 + 64 * length (e_order x) + 16 * length (spawnerOrigins x) +
      (if p_AdaptiveRouting (e_Params x) then 16 * length (e_Lanes x) + 8 * length (e_order x) else 0)"
    if "e_dirQueue x = []" "e_sigOv x = []" for x
    by (simp add: stream [OF that] crcv.length_concat_put crco.length_concat_put crcl.length_concat_put
        crct.length_concat_put)
  have "length (crc_bytes e) = length (crc_bytes e')" by (simp only: assms(1))
  then have n: "length (e_order e) = length (e_order e')"
    unfolding len [OF assms(2,4)] len [OF assms(3,5)] assms(6-8) by (simp split: if_splits)
  have eq: "put_u64 (e_crc e) @ put_u64 (e_Tick e) @ concat (map crc_vehicle (e_order e)) @
      concat (map crc_origin (spawnerOrigins e)) @ ?tail e
    = put_u64 (e_crc e') @ put_u64 (e_Tick e') @ concat (map crc_vehicle (e_order e')) @
      concat (map crc_origin (spawnerOrigins e')) @ ?tail e'"
    using assms(1) by (simp only: stream [OF assms(2,4)] stream [OF assms(3,5)])
  then have hd: "e_crc e = e_crc e'" "e_Tick e = e_Tick e'"
    and "concat (map crc_vehicle (e_order e)) @ (concat (map crc_origin (spawnerOrigins e)) @ ?tail e)
      = concat (map crc_vehicle (e_order e')) @ (concat (map crc_origin (spawnerOrigins e')) @ ?tail e')"
    by (simp_all only: put_u64_append)
  from crcv.concat_put_inj [OF n this(3)]
  have v: "map veh_key (e_order e) = map veh_key (e_order e')"
    and "concat (map crc_origin (spawnerOrigins e)) @ ?tail e = concat (map crc_origin (spawnerOrigins e')) @ ?tail e'"
    by blast+
  from crco.concat_put_inj [OF assms(8) [symmetric] this(2)]
  have o: "map origin_key (spawnerOrigins e) = map origin_key (spawnerOrigins e')" and t: "?tail e = ?tail e'"
    by blast+
  have "lane_times e = lane_times e' \<and> map v_laneEntryTick (e_order e) = map v_laneEntryTick (e_order e')"
    if a: "p_AdaptiveRouting (e_Params e)"
  proof -
    have "concat (map put_lane_times (lane_times e)) @ concat (map (\<lambda>v. put_u64 (v_laneEntryTick v)) (e_order e))
        = concat (map put_lane_times (lane_times e')) @ concat (map (\<lambda>v. put_u64 (v_laneEntryTick v)) (e_order e'))"
      using t a assms(6) by simp
    from crcl.concat_put_inj [OF _ this]
    have l: "map (\<lambda>t. t) (lane_times e) = map (\<lambda>t. t) (lane_times e')"
      and c: "concat (map (\<lambda>v. put_u64 (v_laneEntryTick v)) (e_order e)) = concat (map (\<lambda>v. put_u64 (v_laneEntryTick v)) (e_order e'))"
      using assms(7) by simp_all
    show ?thesis using l crct.concat_put_inj [OF n, of "[]" "[]"] c by simp
  qed
  then show ?thesis using hd v o by blast
qed

lemma crc_faithful_witness:
  "map veh_key (e_order (demo_engine\<lparr>e_sigOv := []\<rparr>)) = map veh_key (e_order (demo_engine\<lparr>e_sigOv := [], e_nextID := 9\<rparr>))"
proof -
  let ?a = "demo_engine\<lparr>e_sigOv := []\<rparr>" and ?b = "demo_engine\<lparr>e_sigOv := [], e_nextID := 9\<rparr>"
  have "crc_bytes ?a = crc_bytes ?b" by (simp add: crc_bytes_def spawnerOrigins_def lane_times_def)
  from crc_faithful [OF this] show ?thesis by (simp add: demo_engine_def spawnerOrigins_def)
qed

end
