(* ===== verification/Routing.thy ===== *)
theory Routing
  imports Director
begin

text \<open>
  \<open>engine/routing.go\<close> and the adaptive weights of \<open>engine/engine.go\<close>: next-hop tables by a
  reverse Dijkstra, the hysteretic adaptive table, the memo cache with its epoch stamps, the
  successor choice at a junction, and the travel-time estimates that feed the weights. A lane is
  its index; a table entry is the successor's index or -1. \<open>container/heap\<close> pops a least item;
  items that compare equal have one index, and only the index of a popped item is used.
\<close>

subsection \<open>Weights\<close>

definition f64_inf :: f64 where "f64_inf = 9218868437227405312"

definition freeFlowTime :: "Lane \<Rightarrow> f64" where
  "freeFlowTime l = (if fle (l_SpeedLimit l) 0 then l_Length l else fdiv (l_Length l) (l_SpeedLimit l))"

definition free_weight :: "Engine \<Rightarrow> nat \<Rightarrow> f64" where
  "free_weight e k = freeFlowTime (e_Lanes e ! k)"

definition routeWeight :: "Engine \<Rightarrow> nat \<Rightarrow> f64" where
  "routeWeight e k = (if p_AdaptiveRouting (e_Params e) then e_ttSnap e ! k else free_weight e k)"

definition routePreds :: "Network \<Rightarrow> nat list list" where
  "routePreds net = map (\<lambda>u. concat (map (\<lambda>i. map (\<lambda>_. i) (filter (\<lambda>s. s = u) (l_Successors (n_Lanes net ! i))))
     [0..<length (n_Lanes net)])) [0..<length (n_Lanes net)]"

subsection \<open>Travel-time estimates\<close>

definition routing_dt :: "Engine \<Rightarrow> f64" where
  "routing_dt e = (if fle (p_Dt (e_Params e)) 0 then f64_lit 1 10 else p_Dt (e_Params e))"

definition routeEpochTicks :: "Engine \<Rightarrow> u64" where
  "routeEpochTicks e = max 1 (to_ticks (f64_lit 60 1) (routing_dt e))"

definition ttRelaxTicks :: "Engine \<Rightarrow> f64" where
  "ttRelaxTicks e =
     (let r = f64_round (fdiv (f64_lit 600 1) (routing_dt e)) in if fle r (f64_lit 1 1) then f64_lit 1 1 else r)"

definition set_times :: "(Lane \<Rightarrow> f64) \<Rightarrow> Engine \<Rightarrow> Engine" where
  "set_times f e = e\<lparr>e_Net := (e_Net e)\<lparr>n_Lanes := map (\<lambda>l. l\<lparr>l_ttEMA := f l\<rparr>) (e_Lanes e)\<rparr>\<rparr>"

definition freeze_times :: "Engine \<Rightarrow> Engine" where
  "freeze_times e = e\<lparr>e_ttSnap := map l_ttEMA (e_Lanes e)\<rparr>"

definition initAdaptiveRouting :: "Engine \<Rightarrow> Engine" where
  "initAdaptiveRouting e = freeze_times (set_times freeFlowTime e)"

definition relaxTravelTimes :: "Engine \<Rightarrow> Engine" where
  "relaxTravelTimes e =
     set_times (\<lambda>l. fadd (l_ttEMA l) (fdiv (fsub (freeFlowTime l) (l_ttEMA l)) (ttRelaxTicks e))) e"

text \<open>The head of \<open>Step\<close>: the tick advances, the estimates relax, an epoch rollover freezes them.\<close>

definition step_routing :: "Engine \<Rightarrow> Engine" where
  "step_routing e =
     (let e1 = e\<lparr>e_Tick := e_Tick e + 1\<rparr> in
      if \<not> p_AdaptiveRouting (e_Params e) then e1
      else let e2 = relaxTravelTimes e1 in
        if e_Tick e2 mod routeEpochTicks e2 = 0 then freeze_times e2 else e2)"

definition lane_dwell :: "Engine \<Rightarrow> Vehicle \<Rightarrow> f64" where
  "lane_dwell e v =
     (let l = e_Lanes e ! v_Lane v;
          d0 = fmul (f64_of_nat (unat (e_Tick e - v_laneEntryTick v))) (p_Dt (e_Params e));
          cap = p_StrandAfterS (e_Params e);
          d1 = (if flt 0 cap \<and> flt cap d0 then cap else d0) in
      if flt d1 (freeFlowTime l) then freeFlowTime l else d1)"

text \<open>The vehicle is the \<open>k\<close>-th of the population.\<close>

definition noteLaneLeave :: "nat \<Rightarrow> Engine \<Rightarrow> Engine" where
  "noteLaneLeave k e =
     (if \<not> p_AdaptiveRouting (e_Params e) then e
      else let v = e_order e ! k; i = v_Lane v; l = e_Lanes e ! i;
               ema = fadd (l_ttEMA l) (fdiv (fsub (lane_dwell e v) (l_ttEMA l)) (f64_lit 8 1)) in
        e\<lparr>e_Net := (e_Net e)\<lparr>n_Lanes := (e_Lanes e)[i := l\<lparr>l_ttEMA := ema\<rparr>]\<rparr>,
          e_order := (e_order e)[k := v\<lparr>v_laneEntryTick := e_Tick e\<rparr>]\<rparr>)"

subsection \<open>Dijkstra\<close>

record dij =
  dj_dist :: "f64 list"
  dj_next :: "int list"
  dj_done :: "bool list"
  dj_heap :: "(nat \<times> f64) list"

definition item_less :: "nat \<times> f64 \<Rightarrow> nat \<times> f64 \<Rightarrow> bool" where
  "item_less a b = (if \<not> feq (snd a) (snd b) then flt (snd a) (snd b) else fst a < fst b)"

fun heap_min :: "nat \<times> f64 \<Rightarrow> (nat \<times> f64) list \<Rightarrow> nat \<times> f64" where
  "heap_min x [] = x"
| "heap_min x (y # ys) = heap_min (if item_less y x then y else x) ys"

definition relax_pred :: "nat \<Rightarrow> f64 \<Rightarrow> dij \<Rightarrow> nat \<Rightarrow> dij" where
  "relax_pred u w st p =
     (if \<not> dj_done st ! p \<and> flt w (dj_dist st ! p)
      then st\<lparr>dj_dist := (dj_dist st)[p := w], dj_next := (dj_next st)[p := int u],
              dj_heap := dj_heap st @ [(p, w)]\<rparr>
      else st)"

lemma relax_done [simp]: "dj_done (foldl (relax_pred u w) st ps) = dj_done st"
  by (induction ps arbitrary: st) (simp_all add: relax_pred_def)

lemma heap_min_in: "heap_min x xs \<in> set (x # xs)"
proof (induction xs arbitrary: x)
  case (Cons y ys)
  show ?case using Cons.IH [of "if item_less y x then y else x"] by (auto split: if_splits)
qed simp

lemma fewer_open: "u < length bs \<Longrightarrow> \<not> bs ! u \<Longrightarrow> length (filter Not (bs[u := True])) < length (filter Not bs)"
proof (induction bs arbitrary: u)
  case (Cons b bs)
  then show ?case by (cases u) auto
qed simp

lemma pop_shorter: "length (remove1 (heap_min x xs) (x # xs)) = length xs"
  using heap_min_in [of x xs] by (simp only: length_remove1) simp

function dijkstra_loop :: "(nat \<Rightarrow> f64) \<Rightarrow> nat list list \<Rightarrow> dij \<Rightarrow> dij" where
  "dijkstra_loop wt preds st =
     (case dj_heap st of
        [] \<Rightarrow> st
      | x # xs \<Rightarrow>
          (let u = fst (heap_min x xs); st1 = st\<lparr>dj_heap := remove1 (heap_min x xs) (x # xs)\<rparr> in
           if length (dj_done st) \<le> u \<or> dj_done st ! u then dijkstra_loop wt preds st1
           else dijkstra_loop wt preds (foldl (relax_pred u (fadd (dj_dist st ! u) (wt u)))
             (st1\<lparr>dj_done := (dj_done st)[u := True]\<rparr>) (preds ! u))))"
  by pat_completeness auto

termination
proof (relation "measures [\<lambda>(wt, preds, st). length (filter Not (dj_done st)), \<lambda>(wt, preds, st). length (dj_heap st)]",
    goal_cases)
  case 1
  show ?case by simp
next
  case (2 wt preds st x xs u st1)
  then show ?case by (simp add: pop_shorter del: remove1.simps)
next
  case (3 wt preds st x xs u st1)
  then show ?case using fewer_open [of u "dj_done st"] by simp
qed

declare dijkstra_loop.simps [simp del]

definition routeDijkstra :: "Network \<Rightarrow> nat \<Rightarrow> (nat \<Rightarrow> f64) \<Rightarrow> int list \<times> f64 list" where
  "routeDijkstra net dest wt =
     (let n = length (n_Lanes net);
          st = dijkstra_loop wt (routePreds net) \<lparr>dj_dist = (replicate n f64_inf)[dest := 0],
            dj_next = replicate n (- 1), dj_done = replicate n False, dj_heap = [(dest, 0)]\<rparr> in
      (dj_next st, dj_dist st))"

subsection \<open>The adaptive table\<close>

text \<open>Following the table from \<open>j\<close>: the summed weights when the destination is met within the
  given number of lanes.\<close>

fun chain_cost :: "(nat \<Rightarrow> f64) \<Rightarrow> int list \<Rightarrow> nat \<Rightarrow> nat \<Rightarrow> int \<Rightarrow> f64 \<Rightarrow> f64 option" where
  "chain_cost wt tab dest 0 j cost = None"
| "chain_cost wt tab dest (Suc k) j cost =
     (let cost' = fadd cost (wt (nat j)) in
      if nat j = dest then Some cost'
      else if tab ! nat j < 0 then None
      else chain_cost wt tab dest k (tab ! nat j) cost')"

definition clearly_better :: "f64 \<Rightarrow> f64 \<Rightarrow> bool" where
  "clearly_better oldCost mixedCost =
     (if oldCost = f64_inf then True
      else let m = fmul (f64_lit 15 100) oldCost;
               margin = (if flt (f64_lit 30 1) m then m else f64_lit 30 1) in
        \<not> fle (fsub oldCost margin) mixedCost)"

definition splice :: "(nat \<Rightarrow> f64) \<Rightarrow> int list \<Rightarrow> int list \<Rightarrow> nat \<Rightarrow> int list \<Rightarrow> nat \<Rightarrow> int list" where
  "splice wt fresh next dest mixed i =
     (if fresh ! i = next ! i \<or> fresh ! i < 0 then mixed
      else let hops = Suc (length next);
               oldCost = (if 0 \<le> next ! i
                 then (case chain_cost wt next dest hops (next ! i) 0 of None \<Rightarrow> f64_inf | Some c \<Rightarrow> c)
                 else f64_inf);
               trial = mixed[i := fresh ! i] in
        case chain_cost wt trial dest hops (fresh ! i) 0 of
          None \<Rightarrow> mixed[i := next ! i]
        | Some mixedCost \<Rightarrow> if clearly_better oldCost mixedCost then trial else mixed[i := next ! i])"

definition static_table :: "Engine \<Rightarrow> nat \<Rightarrow> int list" where
  "static_table e dest = fst (routeDijkstra (e_Net e) dest (free_weight e))"

definition rerouteTable :: "Engine \<Rightarrow> int list \<Rightarrow> nat \<Rightarrow> int list" where
  "rerouteTable e next dest =
     (let fresh = fst (routeDijkstra (e_Net e) dest (routeWeight e)) in
      foldl (splice (routeWeight e) fresh next dest) next [0..<length fresh])"

subsection \<open>The memo cache\<close>

record RouteCache =
  rc_tabs :: "nat \<Rightarrow> int list option"
  rc_epochs :: "nat \<Rightarrow> u64"
  rc_static :: "nat \<Rightarrow> int list option"

definition cold :: RouteCache where
  "cold = \<lparr>rc_tabs = (\<lambda>_. None), rc_epochs = (\<lambda>_. 0), rc_static = (\<lambda>_. None)\<rparr>"

definition staticRouteTable :: "Engine \<Rightarrow> RouteCache \<Rightarrow> nat \<Rightarrow> int list \<times> RouteCache" where
  "staticRouteTable e rc dest =
     (case rc_static rc dest of
        Some t \<Rightarrow> (t, rc)
      | None \<Rightarrow> (let t = static_table e dest in (t, rc\<lparr>rc_static := (rc_static rc)(dest := Some t)\<rparr>)))"

definition routeTable :: "Engine \<Rightarrow> RouteCache \<Rightarrow> nat \<Rightarrow> int list \<times> RouteCache" where
  "routeTable e rc dest =
     (let epoch = e_Tick e div routeEpochTicks e;
          rebuild = (\<lambda>_ :: unit. let (s, rc1) = staticRouteTable e rc dest; t = rerouteTable e s dest in
            (t, rc1\<lparr>rc_tabs := (rc_tabs rc1)(dest := Some t), rc_epochs := (rc_epochs rc1)(dest := epoch)\<rparr>)) in
      case rc_tabs rc dest of
        Some t \<Rightarrow>
          if \<not> p_AdaptiveRouting (e_Params e) then (t, rc)
          else if epoch \<le> rc_epochs rc dest then (t, rc)
          else rebuild ()
      | None \<Rightarrow>
          if p_AdaptiveRouting (e_Params e) then rebuild ()
          else (let t = fst (routeDijkstra (e_Net e) dest (routeWeight e)) in
            (t, rc\<lparr>rc_tabs := (rc_tabs rc)(dest := Some t)\<rparr>)))"

definition routeNextHop :: "Engine \<Rightarrow> RouteCache \<Rightarrow> nat \<Rightarrow> string \<Rightarrow> nat option \<times> RouteCache" where
  "routeNextHop e rc lane destID =
     (case LaneByID (e_Net e) destID of
        None \<Rightarrow> (None, rc)
      | Some dest \<Rightarrow>
          if dest = lane then (None, rc)
          else let (tab, rc') = routeTable e rc dest; hop = tab ! lane in
            if hop < 0 \<or> hop = int lane then (None, rc')
            else if nat hop \<in> set (l_Successors (e_Lanes e ! lane)) then (Some (nat hop), rc')
            else (None, rc'))"

text \<open>\<open>None\<close> is Go's index panic on a lane without successors; callers exclude it.\<close>

definition pickSuccessor :: "Engine \<Rightarrow> RouteCache \<Rightarrow> nat \<Rightarrow> Vehicle \<Rightarrow> nat option \<times> RouteCache" where
  "pickSuccessor e rc lane v =
     (case l_Successors (e_Lanes e ! lane) of
        [] \<Rightarrow> (None, rc)
      | s # ss \<Rightarrow>
          if 0 < v_HeldTurn v then (Some s, rc)
          else if v_HeldTurn v < 0 then (Some (last (s # ss)), rc)
          else if ss \<noteq> [] \<and> v_Route v \<noteq> [] then
            (let (hop, rc') = routeNextHop e rc lane (v_Route v) in
             (case hop of Some k \<Rightarrow> (Some k, rc') | None \<Rightarrow> (Some s, rc')))
          else (Some s, rc))"

section \<open>Correctness of the tables\<close>

text \<open>Following the table from \<open>j\<close> ends at the destination.\<close>

inductive leads :: "int list \<Rightarrow> nat \<Rightarrow> nat \<Rightarrow> bool" for tab dest where
  here: "leads tab dest dest"
| hop: "0 \<le> tab ! j \<Longrightarrow> leads tab dest (nat (tab ! j)) \<Longrightarrow> leads tab dest j"

definition road :: "Network \<Rightarrow> nat \<Rightarrow> int \<Rightarrow> bool" where
  "road net i h \<longleftrightarrow> nat h < length (n_Lanes net) \<and> nat h \<in> set (l_Successors (n_Lanes net ! i))"

definition good_table :: "Network \<Rightarrow> nat \<Rightarrow> int list \<Rightarrow> bool" where
  "good_table net dest tab \<longleftrightarrow> length tab = length (n_Lanes net) \<and>
     (\<forall>i < length tab. 0 \<le> tab ! i \<longrightarrow> road net i (tab ! i) \<and> leads tab dest i)"

text \<open>A table keeps leading when it changes only outside a set closed under its hops.\<close>

lemma leads_agree:
  assumes "leads tab dest j" and "j \<in> D"
    and closed: "\<And>i. i \<in> D \<Longrightarrow> i = dest \<or> 0 \<le> tab ! i \<and> nat (tab ! i) \<in> D"
    and agree: "\<And>i. i \<in> D \<Longrightarrow> tab' ! i = tab ! i"
  shows "leads tab' dest j"
  using assms(1,2)
proof induction
  case here
  show ?case by (rule leads.here)
next
  case (hop j)
  show ?case
  proof (cases "j = dest")
    case False
    then have "nat (tab ! j) \<in> D" using closed [OF hop.prems] by simp
    then show ?thesis using hop agree [OF hop.prems] by (auto intro: leads.hop)
  qed (auto intro: leads.here)
qed

subsection \<open>Dijkstra\<close>

definition dij_ok :: "Network \<Rightarrow> nat \<Rightarrow> dij \<Rightarrow> bool" where
  "dij_ok net dest st \<longleftrightarrow>
     (let n = length (n_Lanes net) in
      length (dj_next st) = n \<and> length (dj_done st) = n \<and>
      (\<forall>x \<in> set (dj_heap st). fst x = dest \<or> 0 \<le> dj_next st ! fst x) \<and>
      (\<forall>i < n. 0 \<le> dj_next st ! i \<longrightarrow> road net i (dj_next st ! i) \<and> dj_done st ! nat (dj_next st ! i)) \<and>
      (\<forall>i < n. dj_done st ! i \<longrightarrow> leads (dj_next st) dest i \<and> (i = dest \<or> 0 \<le> dj_next st ! i)))"

lemma relax_pred_ok:
  assumes ok: "dij_ok net dest st" and u: "u < length (n_Lanes net)" "dj_done st ! u"
    and p: "p < length (n_Lanes net)" "u \<in> set (l_Successors (n_Lanes net ! p))"
  shows "dij_ok net dest (relax_pred u w st p)"
proof (cases "\<not> dj_done st ! p \<and> flt w (dj_dist st ! p)")
  case True
  let ?n = "length (n_Lanes net)" and ?next = "(dj_next st)[p := int u]"
  have "leads ?next dest i" if i: "i < ?n" "dj_done st ! i" for i
  proof (rule leads_agree [where tab = "dj_next st" and D = "{i. i < ?n \<and> dj_done st ! i}"])
    show "leads (dj_next st) dest i" using ok i by (simp add: dij_ok_def Let_def)
    show "i \<in> {i. i < ?n \<and> dj_done st ! i}" using i by simp
    show "i = dest \<or> 0 \<le> dj_next st ! i \<and> nat (dj_next st ! i) \<in> {i. i < ?n \<and> dj_done st ! i}"
      if "i \<in> {i. i < ?n \<and> dj_done st ! i}" for i
      using that ok by (auto simp: dij_ok_def Let_def road_def)
    show "?next ! i = dj_next st ! i" if "i \<in> {i. i < ?n \<and> dj_done st ! i}" for i
      using that True by (cases "i = p") auto
  qed
  then show ?thesis
    using True ok u p by (auto simp: dij_ok_def Let_def relax_pred_def nth_list_update road_def)
qed (use ok in \<open>auto simp: relax_pred_def\<close>)

lemma relax_preds_ok:
  assumes "dij_ok net dest st" and "u < length (n_Lanes net)" and "dj_done st ! u"
    and "\<forall>p \<in> set ps. p < length (n_Lanes net) \<and> u \<in> set (l_Successors (n_Lanes net ! p))"
  shows "dij_ok net dest (foldl (relax_pred u w) st ps)"
  using assms
proof (induction ps arbitrary: st)
  case (Cons p ps)
  have "dj_done (relax_pred u w st p) ! u" using Cons.prems(3) by (simp add: relax_pred_def)
  then show ?case using Cons relax_pred_ok by simp
qed simp

lemma settle_ok:
  assumes ok: "dij_ok net dest st" and u: "u < length (n_Lanes net)"
    and x: "x \<in> set (dj_heap st)" "u = fst x"
  shows "dij_ok net dest (st\<lparr>dj_heap := remove1 x (dj_heap st), dj_done := (dj_done st)[u := True]\<rparr>)"
proof -
  have fin: "u = dest \<or> 0 \<le> dj_next st ! u" using ok x by (auto simp: dij_ok_def Let_def)
  moreover have "leads (dj_next st) dest u"
  proof (cases "u = dest")
    case False
    then have r: "0 \<le> dj_next st ! u" using fin by simp
    then have "nat (dj_next st ! u) < length (n_Lanes net) \<and> dj_done st ! nat (dj_next st ! u)"
      using ok u by (auto simp: dij_ok_def Let_def road_def)
    then have "leads (dj_next st) dest (nat (dj_next st ! u))" using ok by (simp add: dij_ok_def Let_def)
    then show ?thesis using r by (rule leads.hop [rotated])
  qed (auto intro: leads.here)
  ultimately show ?thesis
    using ok u by (auto simp: dij_ok_def Let_def nth_list_update road_def dest: set_remove1_subset [THEN subsetD])
qed

lemma preds_road:
  "u < length (n_Lanes net) \<Longrightarrow> p \<in> set (routePreds net ! u) \<Longrightarrow>
     p < length (n_Lanes net) \<and> u \<in> set (l_Successors (n_Lanes net ! p))"
  by (auto simp: routePreds_def)

lemma dijkstra_loop_ok:
  "dij_ok net dest st \<Longrightarrow> dij_ok net dest (dijkstra_loop wt (routePreds net) st) \<and>
     dj_heap (dijkstra_loop wt (routePreds net) st) = []"
proof (induction wt "routePreds net" st rule: dijkstra_loop.induct)
  case (1 wt st)
  show ?case
  proof (cases "dj_heap st")
    case Nil
    then show ?thesis using "1.prems" by (simp add: dijkstra_loop.simps [of wt "routePreds net" st])
  next
    case (Cons x xs)
    let ?it = "heap_min x xs"
    let ?st1 = "st\<lparr>dj_heap := remove1 ?it (x # xs)\<rparr>"
    have n: "length (dj_done st) = length (n_Lanes net)" using "1.prems" by (simp add: dij_ok_def Let_def)
    show ?thesis
    proof (cases "length (dj_done st) \<le> fst ?it \<or> dj_done st ! fst ?it")
      case True
      have "dij_ok net dest ?st1"
        using "1.prems" Cons by (auto simp: dij_ok_def Let_def simp del: remove1.simps dest!: set_remove1_subset [THEN subsetD])
      then show ?thesis
        using "1.hyps"(1) [OF Cons refl refl True] Cons True
        by (simp add: dijkstra_loop.simps [of wt "routePreds net" st] Let_def del: remove1.simps)
    next
      case False
      then have u: "fst ?it < length (n_Lanes net)" using n by simp
      have "dij_ok net dest (?st1\<lparr>dj_done := (dj_done st)[fst ?it := True]\<rparr>)"
        using settle_ok [OF "1.prems" u, of ?it] heap_min_in [of x xs] Cons by (simp del: remove1.simps)
      then have "dij_ok net dest (foldl (relax_pred (fst ?it) (fadd (dj_dist st ! fst ?it) (wt (fst ?it))))
          (?st1\<lparr>dj_done := (dj_done st)[fst ?it := True]\<rparr>) (routePreds net ! fst ?it))"
        using relax_preds_ok [OF _ u] preds_road [OF u] u n by simp
      then show ?thesis
        using "1.hyps"(2) [OF Cons refl refl False] Cons False
        by (simp add: dijkstra_loop.simps [of wt "routePreds net" st] Let_def del: remove1.simps)
    qed
  qed
qed

lemma routeDijkstra_good: "dest < length (n_Lanes net) \<Longrightarrow> good_table net dest (fst (routeDijkstra net dest wt))"
proof -
  assume "dest < length (n_Lanes net)"
  let ?n = "length (n_Lanes net)"
  let ?st = "\<lparr>dj_dist = (replicate ?n f64_inf)[dest := 0], dj_next = replicate ?n (- 1),
      dj_done = replicate ?n False, dj_heap = [(dest, 0)]\<rparr>"
  let ?r = "dijkstra_loop wt (routePreds net) ?st"
  have "dij_ok net dest ?st" by (simp add: dij_ok_def)
  then have "dij_ok net dest ?r" using dijkstra_loop_ok by blast
  then show ?thesis
    by (auto simp: routeDijkstra_def good_table_def dij_ok_def Let_def road_def intro: leads.hop)
qed

subsection \<open>The adaptive table\<close>

lemma chain_leads: "chain_cost wt tab dest k j c = Some d \<Longrightarrow> leads tab dest (nat j)"
proof (induction wt tab dest k j c rule: chain_cost.induct)
  case (2 wt tab dest k j cost)
  then show ?case by (auto simp: Let_def split: if_splits intro: leads.intros)
qed simp

lemma leads_install:
  assumes "leads tab dest j" and "leads (tab[i := f]) dest (nat f)" and "0 \<le> f" and "i < length tab"
  shows "leads (tab[i := f]) dest j"
  using assms(1)
proof induction
  case (hop j)
  show ?case
  proof (cases "j = i")
    case True
    then show ?thesis using assms(2-4) by (auto intro: leads.hop)
  next
    case False
    then show ?thesis using hop by (auto intro: leads.hop)
  qed
qed (rule leads.here)

text \<open>The rows from \<open>i\<close> on are still those of the static table.\<close>

definition splice_ok :: "Network \<Rightarrow> int list \<Rightarrow> nat \<Rightarrow> nat \<Rightarrow> int list \<Rightarrow> bool" where
  "splice_ok net next dest i mixed \<longleftrightarrow> good_table net dest mixed \<and> (\<forall>j \<ge> i. j < length next \<longrightarrow> mixed ! j = next ! j)"

lemma splice_step:
  assumes ok: "splice_ok net next dest i mixed" and fresh: "good_table net dest fresh"
    and nxt: "good_table net dest next" and i: "i < length fresh"
  shows "splice_ok net next dest (Suc i) (splice wt fresh next dest mixed i)"
proof -
  have len: "length mixed = length fresh" "length next = length fresh" "length fresh = length (n_Lanes net)"
    using ok fresh nxt by (auto simp: splice_ok_def good_table_def)
  have keep: "mixed[i := next ! i] = mixed"
    using ok i len by (metis list_update_id order.refl splice_ok_def)
  have same: "splice_ok net next dest (Suc i) mixed" using ok by (auto simp: splice_ok_def)
  have install: "splice_ok net next dest (Suc i) (mixed[i := fresh ! i])"
    if c: "chain_cost wt (mixed[i := fresh ! i]) dest k (fresh ! i) 0 = Some c" and f: "0 \<le> fresh ! i" for k c
  proof -
    have l: "leads (mixed[i := fresh ! i]) dest (nat (fresh ! i))" by (rule chain_leads [OF c])
    have "leads (mixed[i := fresh ! i]) dest j" if "leads mixed dest j" for j
      using leads_install [OF that l f] i len by simp
    moreover have "leads (mixed[i := fresh ! i]) dest i" using l f i len by (auto intro: leads.hop)
    moreover have "road net i (fresh ! i)" using fresh i f by (simp add: good_table_def)
    ultimately show ?thesis
      using ok i len by (auto simp: splice_ok_def good_table_def nth_list_update)
  qed
  show ?thesis
  proof (cases "fresh ! i = next ! i \<or> fresh ! i < 0")
    case True
    then show ?thesis using same by (simp add: splice_def)
  next
    case False
    show ?thesis
    proof (cases "chain_cost wt (mixed[i := fresh ! i]) dest (Suc (length next)) (fresh ! i) 0")
      case None
      then show ?thesis using same False by (simp only: splice_def Let_def keep option.case if_False)
    next
      case (Some c)
      then show ?thesis using same install [OF Some] False by (simp only: splice_def Let_def keep option.case) simp
    qed
  qed
qed

lemma splices_ok:
  assumes "good_table net dest fresh" and "good_table net dest next" and "m \<le> length fresh"
  shows "splice_ok net next dest m (foldl (splice wt fresh next dest) next [0..<m])"
  using assms(3)
proof (induction m)
  case 0
  then show ?case using assms(2) by (simp add: splice_ok_def)
next
  case (Suc m)
  then show ?case using splice_step [OF _ assms(1,2)] by simp
qed

lemma rerouteTable_good:
  "dest < length (e_Lanes e) \<Longrightarrow> good_table (e_Net e) dest next \<Longrightarrow> good_table (e_Net e) dest (rerouteTable e next dest)"
  using splices_ok [OF routeDijkstra_good, of dest "e_Net e" "next" "length (fst (routeDijkstra (e_Net e) dest (routeWeight e)))"]
  by (simp add: rerouteTable_def splice_ok_def Let_def)

lemma static_table_good: "dest < length (e_Lanes e) \<Longrightarrow> good_table (e_Net e) dest (static_table e dest)"
  by (simp add: static_table_def routeDijkstra_good)

subsection \<open>Hops to the destination\<close>

fun within :: "int list \<Rightarrow> nat \<Rightarrow> nat \<Rightarrow> nat \<Rightarrow> bool" where
  "within tab dest 0 j \<longleftrightarrow> j = dest"
| "within tab dest (Suc k) j \<longleftrightarrow> j = dest \<or> 0 \<le> tab ! j \<and> within tab dest k (nat (tab ! j))"

lemma within_mono: "within tab dest k j \<Longrightarrow> k \<le> m \<Longrightarrow> within tab dest m j"
proof (induction k arbitrary: j m)
  case 0
  then show ?case by (cases m) auto
next
  case (Suc k)
  then obtain m' where "m = Suc m'" by (cases m) auto
  then show ?case using Suc by auto
qed

lemma leads_within: "leads tab dest j \<Longrightarrow> \<exists>k. within tab dest k j"
proof (induction rule: leads.induct)
  case (hop j)
  then obtain k where "within tab dest k (nat (tab ! j))" by blast
  then show ?case using hop by (intro exI [of _ "Suc k"]) simp
qed (auto intro: exI [of _ 0])

text \<open>The lanes of a shortest drive are distinct, so it crosses fewer lanes than there are.\<close>

definition hops_left :: "int list \<Rightarrow> nat \<Rightarrow> nat \<Rightarrow> nat" where
  "hops_left tab dest j = (LEAST k. within tab dest k j)"

lemma ranks_distinct:
  assumes closed: "\<And>i. i < n \<Longrightarrow> 0 \<le> tab ! i \<Longrightarrow> nat (tab ! i) < n" and "j < n"
    and "within tab dest k j" and "hops_left tab dest j = k"
  shows "{0..k} \<subseteq> hops_left tab dest ` {..<n}"
  using assms(2-4)
proof (induction k arbitrary: j)
  case 0
  then show ?case by force
next
  case (Suc k)
  let ?i = "nat (tab ! j)"
  have j: "j \<noteq> dest"
  proof
    assume "j = dest"
    then have "within tab dest 0 j" by simp
    then show False using Suc.prems(3) not_less_Least [of 0 "\<lambda>k. within tab dest k j"] by (simp add: hops_left_def)
  qed
  then have t: "0 \<le> tab ! j" "within tab dest k ?i" using Suc.prems(2) by auto
  have "hops_left tab dest ?i = k" unfolding hops_left_def
  proof (rule Least_equality)
    show "within tab dest k ?i" by (rule t(2))
  next
    fix m assume "within tab dest m ?i"
    then have "within tab dest (Suc m) j" using t by simp
    then have "hops_left tab dest j \<le> Suc m" unfolding hops_left_def by (rule Least_le)
    then show "k \<le> m" using Suc.prems(3) by simp
  qed
  then have "{0..k} \<subseteq> hops_left tab dest ` {..<n}"
    using Suc.IH [OF closed [OF Suc.prems(1) t(1)] t(2)] by simp
  moreover have "Suc k \<in> hops_left tab dest ` {..<n}" using Suc.prems(1,3) by force
  ultimately show ?case by (auto simp: atLeastAtMostSuc_conv)
qed

lemma leads_bound:
  assumes "\<And>i. i < n \<Longrightarrow> 0 \<le> tab ! i \<Longrightarrow> nat (tab ! i) < n" and "j < n" and "leads tab dest j"
  shows "within tab dest n j"
proof -
  let ?k = "hops_left tab dest j"
  have w: "within tab dest ?k j" using leads_within [OF assms(3)] unfolding hops_left_def by (rule LeastI_ex)
  have "card {0..?k} \<le> card (hops_left tab dest ` {..<n})"
    using ranks_distinct [OF assms(1,2) w refl] by (intro card_mono) auto
  also have "\<dots> \<le> n" using card_image_le [of "{..<n}" "hops_left tab dest"] by simp
  finally show ?thesis using w within_mono by simp
qed

section \<open>The cache over a run\<close>

definition same_roads :: "Network \<Rightarrow> Network \<Rightarrow> bool" where
  "same_roads net net' \<longleftrightarrow>
     map (\<lambda>l. l\<lparr>l_ttEMA := 0\<rparr>) (n_Lanes net) = map (\<lambda>l. l\<lparr>l_ttEMA := 0\<rparr>) (n_Lanes net')"

text \<open>
  A run of the routing layer: it starts with every cache empty, at the construction of the engine
  or at a restore; tables are served, ticks begin, and the rest of the tick touches neither the
  tick, the frozen weights nor the roads.
\<close>

inductive live :: "Engine \<Rightarrow> RouteCache \<Rightarrow> bool" where
  start: "live e cold"
| serve: "live e rc \<Longrightarrow> d < length (e_Lanes e) \<Longrightarrow> live e (snd (routeTable e rc d))"
| tick: "live e rc \<Longrightarrow> e_Tick e + 1 \<noteq> 0 \<Longrightarrow> live (step_routing e) rc"
| rest: "live e rc \<Longrightarrow> same_roads (e_Net e) (e_Net e') \<Longrightarrow> e_Params e' = e_Params e \<Longrightarrow>
    e_Tick e' = e_Tick e \<Longrightarrow> e_ttSnap e' = e_ttSnap e \<Longrightarrow> live e' rc"

definition epoch :: "Engine \<Rightarrow> u64" where "epoch e = e_Tick e div routeEpochTicks e"

definition table_now :: "Engine \<Rightarrow> nat \<Rightarrow> int list" where
  "table_now e d = (if p_AdaptiveRouting (e_Params e) then rerouteTable e (static_table e d) d else static_table e d)"

lemma table_now_good: "d < length (e_Lanes e) \<Longrightarrow> good_table (e_Net e) d (table_now e d)"
  by (simp add: table_now_def rerouteTable_good static_table_good)

subsection \<open>Roads do not move\<close>

lemma same_roads_nth:
  assumes "same_roads net net'"
  shows "length (n_Lanes net') = length (n_Lanes net)"
    and "i < length (n_Lanes net) \<Longrightarrow>
      (n_Lanes net' ! i)\<lparr>l_ttEMA := 0\<rparr> = (n_Lanes net ! i)\<lparr>l_ttEMA := 0\<rparr>"
proof -
  show len: "length (n_Lanes net') = length (n_Lanes net)"
    using assms unfolding same_roads_def by (metis length_map)
  show "(n_Lanes net' ! i)\<lparr>l_ttEMA := 0\<rparr> = (n_Lanes net ! i)\<lparr>l_ttEMA := 0\<rparr>" if "i < length (n_Lanes net)"
    using assms that len unfolding same_roads_def by (metis nth_map)
qed

lemma same_roads_fields:
  assumes "same_roads net net'" and "i < length (n_Lanes net)"
  shows "l_Successors (n_Lanes net' ! i) = l_Successors (n_Lanes net ! i)"
    and "freeFlowTime (n_Lanes net' ! i) = freeFlowTime (n_Lanes net ! i)"
proof -
  note r = same_roads_nth(2) [OF assms]
  show "l_Successors (n_Lanes net' ! i) = l_Successors (n_Lanes net ! i)"
    using arg_cong [OF r, of l_Successors] by simp
  show "freeFlowTime (n_Lanes net' ! i) = freeFlowTime (n_Lanes net ! i)"
    using arg_cong [OF r, of l_Length] arg_cong [OF r, of l_SpeedLimit] by (simp add: freeFlowTime_def)
qed

lemma routePreds_same:
  assumes "same_roads net net'"
  shows "routePreds net' = routePreds net"
proof -
  have "map (\<lambda>i. map (\<lambda>_. i) (filter (\<lambda>s. s = u) (l_Successors (n_Lanes net' ! i)))) [0..<length (n_Lanes net)] =
      map (\<lambda>i. map (\<lambda>_. i) (filter (\<lambda>s. s = u) (l_Successors (n_Lanes net ! i)))) [0..<length (n_Lanes net)]" for u
    by (rule map_cong) (simp_all add: same_roads_fields [OF assms])
  then show ?thesis unfolding routePreds_def same_roads_nth(1) [OF assms] by (intro map_cong refl) (simp only:)
qed

lemma dijkstra_loop_cong:
  "(\<And>u. u < length (dj_done st) \<Longrightarrow> wt u = wt' u) \<Longrightarrow> dijkstra_loop wt preds st = dijkstra_loop wt' preds st"
proof (induction wt preds st rule: dijkstra_loop.induct)
  case (1 wt preds st)
  show ?case
  proof (cases "dj_heap st")
    case Nil
    then show ?thesis
      by (simp add: dijkstra_loop.simps [of wt preds st] dijkstra_loop.simps [of wt' preds st])
  next
    case (Cons x xs)
    let ?u = "fst (heap_min x xs)"
    show ?thesis
    proof (cases "length (dj_done st) \<le> ?u \<or> dj_done st ! ?u")
      case True
      then show ?thesis
        using "1.IH"(1) [OF Cons refl refl True] "1.prems" Cons
        by (simp add: dijkstra_loop.simps [of wt preds st] dijkstra_loop.simps [of wt' preds st] Let_def del: remove1.simps)
    next
      case False
      then have "wt ?u = wt' ?u" using "1.prems" by simp
      then show ?thesis
        using "1.IH"(2) [OF Cons refl refl False] "1.prems" Cons False
        by (simp add: dijkstra_loop.simps [of wt preds st] dijkstra_loop.simps [of wt' preds st] Let_def del: remove1.simps)
    qed
  qed
qed

lemma routeDijkstra_same:
  assumes "same_roads net net'" and "\<And>u. u < length (n_Lanes net) \<Longrightarrow> wt' u = wt u"
  shows "routeDijkstra net' d wt' = routeDijkstra net d wt"
proof -
  have "dijkstra_loop wt' p st = dijkstra_loop wt p st" if "length (dj_done st) = length (n_Lanes net)" for p st
    using that assms(2) by (intro dijkstra_loop_cong) simp
  then show ?thesis by (simp add: routeDijkstra_def Let_def routePreds_same [OF assms(1)] same_roads_nth(1) [OF assms(1)])
qed

lemma static_table_same: "same_roads (e_Net e) (e_Net e') \<Longrightarrow> static_table e' d = static_table e d"
  unfolding static_table_def
  by (subst routeDijkstra_same [where net = "e_Net e" and wt = "free_weight e"])
    (simp_all add: free_weight_def same_roads_fields)

lemma table_now_same:
  assumes "same_roads (e_Net e) (e_Net e')" and "e_Params e' = e_Params e" and "e_ttSnap e' = e_ttSnap e"
  shows "table_now e' d = table_now e d"
proof (cases "p_AdaptiveRouting (e_Params e)")
  case True
  then have "routeWeight e' = routeWeight e" using assms by (intro ext) (simp add: routeWeight_def)
  then show ?thesis
    using True assms
    by (simp add: table_now_def rerouteTable_def static_table_same [OF assms(1)]
        routeDijkstra_same [OF assms(1), of "routeWeight e" "routeWeight e"] Let_def)
qed (use assms in \<open>simp add: table_now_def static_table_same [OF assms(1)]\<close>)

lemma same_roads_times: "same_roads (e_Net e) (e_Net (set_times f e))"
  by (simp add: same_roads_def set_times_def)

lemma epochTicks_params: "e_Params e' = e_Params e \<Longrightarrow> routeEpochTicks e' = routeEpochTicks e"
  by (simp add: routeEpochTicks_def routing_dt_def)

lemma relax_keeps:
  "e_Params (relaxTravelTimes e) = e_Params e" "e_Tick (relaxTravelTimes e) = e_Tick e"
  "e_ttSnap (relaxTravelTimes e) = e_ttSnap e"
  by (simp_all add: relaxTravelTimes_def set_times_def)

lemma step_routing_net:
  "same_roads (e_Net e) (e_Net (step_routing e))" "e_Params (step_routing e) = e_Params e"
  "e_Tick (step_routing e) = e_Tick e + 1" "routeEpochTicks (step_routing e) = routeEpochTicks e"
  by (simp_all add: same_roads_def step_routing_def relaxTravelTimes_def set_times_def freeze_times_def Let_def
      routeEpochTicks_def routing_dt_def)

lemma step_routing_snap:
  "p_AdaptiveRouting (e_Params e) \<Longrightarrow> (e_Tick e + 1) mod routeEpochTicks e \<noteq> 0 \<Longrightarrow>
     e_ttSnap (step_routing e) = e_ttSnap e"
  using relax_keeps [of "e\<lparr>e_Tick := e_Tick e + 1\<rparr>"]
    epochTicks_params [of "relaxTravelTimes (e\<lparr>e_Tick := e_Tick e + 1\<rparr>)" e]
  by (simp add: step_routing_def Let_def)

subsection \<open>Epochs\<close>

lemma epoch_next:
  fixes t k :: u64
  assumes "t + 1 \<noteq> 0" and "0 < k"
  shows "(t + 1) mod k \<noteq> 0 \<Longrightarrow> (t + 1) div k = t div k" and "(t + 1) mod k = 0 \<Longrightarrow> t div k < (t + 1) div k"
proof -
  have s: "unat (t + 1) = Suc (unat t)" using assms(1) by (simp add: unatSuc add.commute)
  show "(t + 1) div k = t div k" if "(t + 1) mod k \<noteq> 0"
    using that s by (simp add: word_unat_eq_iff unat_div unat_mod div_Suc)
  show "t div k < (t + 1) div k" if "(t + 1) mod k = 0"
    using that s by (simp add: word_unat_eq_iff word_less_nat_alt unat_div unat_mod div_Suc)
qed

lemma epochTicks_pos: "0 < routeEpochTicks e"
  by (simp add: routeEpochTicks_def less_max_iff_disj)

subsection \<open>The warm cache is a cold cache\<close>

definition cache_ok :: "Engine \<Rightarrow> RouteCache \<Rightarrow> bool" where
  "cache_ok e rc \<longleftrightarrow> (\<forall>d < length (e_Lanes e).
     (\<forall>t. rc_static rc d = Some t \<longrightarrow> t = static_table e d) \<and>
     (\<forall>t. rc_tabs rc d = Some t \<longrightarrow>
        (if p_AdaptiveRouting (e_Params e)
         then rc_epochs rc d \<le> epoch e \<and> (rc_epochs rc d = epoch e \<longrightarrow> t = table_now e d)
         else t = table_now e d)))"

lemma static_serve:
  "cache_ok e rc \<Longrightarrow> d < length (e_Lanes e) \<Longrightarrow>
     fst (staticRouteTable e rc d) = static_table e d \<and>
     snd (staticRouteTable e rc d) = rc\<lparr>rc_static := (rc_static rc)(d \<mapsto> static_table e d)\<rparr>"
  by (cases "rc_static rc d") (auto simp: staticRouteTable_def cache_ok_def Let_def fun_upd_idem)

lemma routeTable_serve:
  assumes ok: "cache_ok e rc" and d: "d < length (e_Lanes e)"
  shows "fst (routeTable e rc d) = table_now e d" and "cache_ok e (snd (routeTable e rc d))"
    and "rc_tabs (snd (routeTable e rc d)) d = Some (table_now e d)"
proof -
  have off: "fst (routeDijkstra (e_Net e) d (routeWeight e)) = table_now e d" if "\<not> p_AdaptiveRouting (e_Params e)"
  proof -
    have "routeWeight e = free_weight e" using that by (intro ext) (simp add: routeWeight_def)
    then show ?thesis using that by (simp add: table_now_def static_table_def)
  qed
  note s = static_serve [OF ok d]
  have "fst (routeTable e rc d) = table_now e d \<and> cache_ok e (snd (routeTable e rc d)) \<and>
      rc_tabs (snd (routeTable e rc d)) d = Some (table_now e d)"
  proof (cases "p_AdaptiveRouting (e_Params e)")
    case True
    show ?thesis
    proof (cases "rc_tabs rc d")
      case None
      then show ?thesis using s True ok
        by (auto simp: routeTable_def Let_def table_now_def epoch_def cache_ok_def split: prod.split)
    next
      case (Some t)
      then show ?thesis using s True ok d
        by (auto simp: routeTable_def Let_def table_now_def epoch_def cache_ok_def split: prod.split)
    qed
  next
    case False
    then show ?thesis using off ok d
      by (cases "rc_tabs rc d") (auto simp: routeTable_def Let_def cache_ok_def)
  qed
  then show "fst (routeTable e rc d) = table_now e d" "cache_ok e (snd (routeTable e rc d))"
    "rc_tabs (snd (routeTable e rc d)) d = Some (table_now e d)" by blast+
qed

lemma cache_ok_rest:
  assumes "cache_ok e rc" and "same_roads (e_Net e) (e_Net e')" and "e_Params e' = e_Params e"
    and "e_Tick e' = e_Tick e" and "e_ttSnap e' = e_ttSnap e"
  shows "cache_ok e' rc"
proof -
  have "epoch e' = epoch e" using assms(3,4) by (simp add: epoch_def routeEpochTicks_def routing_dt_def)
  then show ?thesis
    using assms by (simp add: cache_ok_def static_table_same table_now_same same_roads_nth(1) [OF assms(2)])
qed

lemma cache_ok_tick:
  assumes ok: "cache_ok e rc" and t: "e_Tick e + 1 \<noteq> 0"
  shows "cache_ok (step_routing e) rc"
proof -
  note n = step_routing_net [of e] and len = same_roads_nth(1) [OF step_routing_net(1) [of e]]
  note ep = epoch_next [OF t epochTicks_pos [of e]]
  show ?thesis
  proof (cases "p_AdaptiveRouting (e_Params e) \<and> (e_Tick e + 1) mod routeEpochTicks e = 0")
    case True
    have "epoch e < epoch (step_routing e)" using ep(2) True n by (simp add: epoch_def)
    then have "rc_epochs rc d < epoch (step_routing e)"
      if "d < length (e_Lanes e)" "rc_tabs rc d = Some t" for d t
      using ok that True by (auto simp: cache_ok_def intro: le_less_trans)
    then show ?thesis
      using ok True n len static_table_same [OF n(1)] by (fastforce simp: cache_ok_def)
  next
    case False
    have "table_now (step_routing e) d = table_now e d" for d
    proof (cases "p_AdaptiveRouting (e_Params e)")
      case True
      then show ?thesis using False table_now_same [OF n(1,2) step_routing_snap] by simp
    qed (use n static_table_same [OF n(1)] in \<open>simp add: table_now_def\<close>)
    moreover have "p_AdaptiveRouting (e_Params e) \<longrightarrow> epoch (step_routing e) = epoch e"
      using ep(1) False n by (simp add: epoch_def)
    ultimately show ?thesis
      using ok n len static_table_same [OF n(1)] by (auto simp: cache_ok_def)
  qed
qed

lemma live_ok: "live e rc \<Longrightarrow> cache_ok e rc"
proof (induction rule: live.induct)
  case (start e)
  show ?case by (simp add: cache_ok_def cold_def)
next
  case (serve e rc d)
  then show ?case by (blast intro: routeTable_serve)
next
  case (tick e rc)
  then show ?case by (blast intro: cache_ok_tick)
next
  case (rest e rc e')
  then show ?case by (blast intro: cache_ok_rest)
qed

end
