(* ===== verification/RouteClaims.thy ===== *)
theory RouteClaims
  imports Routing Demo
begin

text \<open>
  What a routed vehicle may rely on: whatever tables the cache holds, following them ends at the
  destination (the acyclicity that \<open>rerouteTable\<close> constructs), and the cache never shows: a
  restored engine, whose cache is cold, takes every branch the uninterrupted one takes (ADR-0036).
\<close>

lemma hop_moves: "leads tab dest j \<Longrightarrow> j \<noteq> dest \<Longrightarrow> tab ! j \<noteq> int j"
  by (induction rule: leads.induct) auto

lemma routeNextHop_char:
  assumes ok: "cache_ok e rc" and d: "LaneByID (e_Net e) dest = Some d" and j: "j < length (e_Lanes e)"
  shows "fst (routeNextHop e rc j dest) =
      (if d = j \<or> table_now e d ! j < 0 then None else Some (nat (table_now e d ! j)))"
    and "cache_ok e (snd (routeNextHop e rc j dest))"
proof -
  have dn: "d < length (e_Lanes e)" using d by (simp add: LaneByID_def find_index_bound)
  note s = routeTable_serve [OF ok dn]
  have g: "good_table (e_Net e) d (table_now e d)" by (rule table_now_good [OF dn])
  have "table_now e d ! j < 0 \<or> nat (table_now e d ! j) \<in> set (l_Successors (e_Lanes e ! j))"
    using g j by (force simp: good_table_def road_def)
  moreover have "j \<noteq> d \<Longrightarrow> 0 \<le> table_now e d ! j \<Longrightarrow> table_now e d ! j \<noteq> int j"
    using g j hop_moves [of "table_now e d" d j] by (auto simp: good_table_def)
  ultimately show "fst (routeNextHop e rc j dest) =
      (if d = j \<or> table_now e d ! j < 0 then None else Some (nat (table_now e d ! j)))"
    using s(1) d by (auto simp: routeNextHop_def Let_def split: prod.split)
  show "cache_ok e (snd (routeNextHop e rc j dest))"
    using s(2) d ok by (auto simp: routeNextHop_def Let_def split: prod.split)
qed

text \<open>The lane a vehicle stands on after at most \<open>k\<close> crossings towards its destination.\<close>

fun drive_route :: "Engine \<Rightarrow> RouteCache \<Rightarrow> string \<Rightarrow> nat \<Rightarrow> nat \<Rightarrow> nat" where
  "drive_route e rc dest 0 j = j"
| "drive_route e rc dest (Suc k) j =
     (case fst (routeNextHop e rc j dest) of
        None \<Rightarrow> j
      | Some i \<Rightarrow> drive_route e (snd (routeNextHop e rc j dest)) dest k i)"

lemma drive_within:
  assumes "LaneByID (e_Net e) dest = Some d"
  shows "cache_ok e rc \<Longrightarrow> j < length (e_Lanes e) \<Longrightarrow> within (table_now e d) d k j \<Longrightarrow>
     drive_route e rc dest k j = d"
proof (induction k arbitrary: rc j)
  case (Suc k)
  have dn: "d < length (e_Lanes e)" using assms by (simp add: LaneByID_def find_index_bound)
  note h = routeNextHop_char [OF Suc.prems(1) assms Suc.prems(2)]
  show ?case
  proof (cases "j = d")
    case False
    then have t: "0 \<le> table_now e d ! j" "within (table_now e d) d k (nat (table_now e d ! j))"
      using Suc.prems(3) by auto
    then have "nat (table_now e d ! j) < length (e_Lanes e)"
      using table_now_good [OF dn] Suc.prems(2) by (simp add: good_table_def road_def)
    then show ?thesis using Suc.IH [OF h(2) _ t(2)] h(1) False t(1) by simp
  qed (use h(1) in simp)
qed simp

lemma routed_arrives_core:
  assumes live: "live e rc" and d: "LaneByID (e_Net e) dest = Some d" and j: "j < length (e_Lanes e)"
    and h: "fst (routeNextHop e rc j dest) = Some i"
  shows "drive_route e rc dest (length (e_Lanes e)) j = d"
proof -
  have ok: "cache_ok e rc" by (rule live_ok [OF live])
  have dn: "d < length (e_Lanes e)" using d by (simp add: LaneByID_def find_index_bound)
  have g: "good_table (e_Net e) d (table_now e d)" by (rule table_now_good [OF dn])
  have "0 \<le> table_now e d ! j" using h routeNextHop_char(1) [OF ok d j] by (auto split: if_splits)
  then have "leads (table_now e d) d j" using g j by (simp add: good_table_def)
  then have "within (table_now e d) d (length (e_Lanes e)) j"
    using g j by (intro leads_bound) (auto simp: good_table_def road_def)
  then show ?thesis by (rule drive_within [OF d ok j])
qed

lemma pick_cache_free:
  assumes "cache_ok e rc" and "cache_ok e rc'" and "lane < length (e_Lanes e)"
  shows "fst (pickSuccessor e rc lane v) = fst (pickSuccessor e rc' lane v)"
proof -
  have "fst (routeNextHop e rc lane r) = fst (routeNextHop e rc' lane r)" for r
  proof (cases "LaneByID (e_Net e) r")
    case None
    then show ?thesis by (simp add: routeNextHop_def)
  next
    case (Some d)
    then show ?thesis using routeNextHop_char(1) assms by metis
  qed
  then have h: "fst (routeNextHop e rc lane (v_Route v)) = fst (routeNextHop e rc' lane (v_Route v))" .
  have pick: "fst (pickSuccessor e c lane v) =
      (case l_Successors (e_Lanes e ! lane) of [] \<Rightarrow> None
       | s # ss \<Rightarrow> if 0 < v_HeldTurn v then Some s else if v_HeldTurn v < 0 then Some (last (s # ss))
           else if ss \<noteq> [] \<and> v_Route v \<noteq> [] then
             (case fst (routeNextHop e c lane (v_Route v)) of Some k \<Rightarrow> Some k | None \<Rightarrow> Some s)
           else Some s)" for c
    by (simp add: pickSuccessor_def Let_def split: list.split prod.split option.split)
  show ?thesis unfolding pick h ..
qed

subsection \<open>The first epoch\<close>

lemma initAdaptive_fields:
  "e_Params (initAdaptiveRouting e) = e_Params e" "same_roads (e_Net e) (e_Net (initAdaptiveRouting e))"
  "u < length (e_Lanes e) \<Longrightarrow> e_ttSnap (initAdaptiveRouting e) ! u = free_weight e u"
  by (simp_all add: initAdaptiveRouting_def freeze_times_def set_times_def same_roads_def free_weight_def)

lemma splices_idle: "foldl (splice wt t t d) m is = m"
  by (induction "is") (simp_all add: splice_def)

lemma adaptive_start_core:
  assumes a: "p_AdaptiveRouting (e_Params e)"
  shows "fst (routeTable (initAdaptiveRouting e) cold d) = static_table e d"
proof -
  let ?e = "initAdaptiveRouting e"
  note f = initAdaptive_fields(1,2) [of e] initAdaptive_fields(3) [of _ e]
  have "fst (routeDijkstra (e_Net ?e) d (routeWeight ?e)) = static_table e d"
    unfolding static_table_def
    by (subst routeDijkstra_same [OF f(2), where wt = "free_weight e"]) (simp_all add: routeWeight_def f a)
  then have "rerouteTable ?e (static_table ?e d) d = static_table e d"
    by (simp add: rerouteTable_def static_table_same [OF f(2)] splices_idle Let_def)
  then show ?thesis
    by (simp add: routeTable_def cold_def staticRouteTable_def Let_def f(1) a)
qed

subsection \<open>A diamond of roads\<close>

definition road_lane :: "string \<Rightarrow> f64 \<Rightarrow> nat list \<Rightarrow> Lane" where
  "road_lane lid len succs = demo_lane\<lparr>l_ID := lid, l_Length := len, l_Successors := succs\<rparr>"

text \<open>
  Lane 0 forks into a long lane 1 and a short lane 2, which join in lane 3. The frozen weights hold
  a jam of 500 s on the short one, so the adaptive table diverts lane 0 to lane 1.
\<close>

definition diamond :: Network where
  "diamond = \<lparr>n_Lanes = [road_lane ''a'' (f64_lit 100 1) [2, 1], road_lane ''b'' (f64_lit 1000 1) [3],
     road_lane ''c'' (f64_lit 100 1) [3], road_lane ''d'' (f64_lit 100 1) []], n_Origins = [0], n_Signals = []\<rparr>"

definition jam_engine :: Engine where
  "jam_engine = demo_engine\<lparr>e_Net := diamond, e_Params := demo_params\<lparr>p_AdaptiveRouting := True\<rparr>,
     e_ttSnap := [f64_lit 7 1, f64_lit 71 1, f64_lit 500 1, f64_lit 7 1]\<rparr>"

lemma jam_static: "static_table jam_engine 3 = [2, 3, 3, - 1]"
  by code_simp

lemma jam_dest: "LaneByID (e_Net jam_engine) ''d'' = Some 3" and jam_lanes: "length (e_Lanes jam_engine) = 4"
  by (simp_all add: jam_engine_def diamond_def LaneByID_def road_lane_def)

lemma jam_adaptive: "p_AdaptiveRouting (e_Params jam_engine)"
  by (simp add: jam_engine_def)

lemma jam_fresh: "fst (routeDijkstra (e_Net jam_engine) 3 (routeWeight jam_engine)) = [1, 3, 3, - 1]"
  by code_simp
lemma jam_old: "chain_cost (routeWeight jam_engine) [2, 3, 3, - 1] 3 (Suc (Suc (Suc (Suc (Suc 0))))) 2 0 = Some (f64_lit 507 1)"
  by code_simp
lemma jam_mixed: "chain_cost (routeWeight jam_engine) [1, 3, 3, - 1] 3 (Suc (Suc (Suc (Suc (Suc 0))))) 1 0 = Some (f64_lit 78 1)"
  by code_simp
lemma jam_margin: "clearly_better (f64_lit 507 1) (f64_lit 78 1)"
  by code_simp
lemma jam_table: "table_now jam_engine 3 = [1, 3, 3, - 1]"
proof -
  have n: "[0..<4] = [0, 1, 2, 3 :: nat]" by (simp add: upt_rec)
  show ?thesis using jam_adaptive by (simp add: table_now_def jam_static rerouteTable_def jam_fresh n splice_def Let_def jam_old jam_mixed jam_margin
        del: chain_cost.simps)
qed

lemma jam_hop: "fst (routeNextHop jam_engine cold 0 ''d'') = Some 1"
  using routeNextHop_char(1) [OF live_ok [OF live.start] jam_dest, of 0] by (simp add: jam_table jam_lanes)

section \<open>Properties\<close>

text \<open>
  C15: (termination) Whatever the cache of a run holds, a vehicle that the routing layer gives a hop
  towards its destination reaches it: repeated crossings, each served through the cache, end on
  the destination lane after at most as many crossings as there are lanes. No served table, static
  or spliced by hysteresis, strands a vehicle or drives it round a cycle.
\<close>

theorem routed_arrives:
  assumes "live e rc" and "LaneByID (e_Net e) dest = Some d" and "j < length (e_Lanes e)"
    and "fst (routeNextHop e rc j dest) = Some i"
  shows "drive_route e rc dest (length (e_Lanes e)) j = d"
  using assms by (rule routed_arrives_core)

theorem routed_arrives_witness: "drive_route jam_engine cold ''d'' 4 0 = 3"
  using routed_arrives [OF live.start jam_dest _ jam_hop] by (simp add: jam_lanes)

text \<open>
  C21: (equivalence) The route cache is invisible: in every state a run can reach, tables and
  branch choices served from the warm cache equal those of an empty cache, so an engine restored
  from a keyframe, whose cache is cold, routes every vehicle as the uninterrupted run does.
\<close>

theorem route_cache_invisible:
  assumes "live e rc" and "d < length (e_Lanes e)" and "lane < length (e_Lanes e)"
  shows "fst (routeTable e rc d) = fst (routeTable e cold d) \<and>
    fst (pickSuccessor e rc lane v) = fst (pickSuccessor e cold lane v)"
  using routeTable_serve(1) [OF live_ok [OF assms(1)] assms(2)] routeTable_serve(1) [OF live_ok [OF live.start] assms(2)]
    pick_cache_free [OF live_ok [OF assms(1)] live_ok [OF live.start] assms(3), of v] by simp

theorem route_cache_invisible_witness:
  "fst (routeTable jam_engine (snd (routeTable jam_engine cold 3)) 3) = fst (routeTable jam_engine cold 3) \<and>
   fst (pickSuccessor jam_engine (snd (routeTable jam_engine cold 3)) 0 (demo_vehicle 1\<lparr>v_Route := ''d''\<rparr>)) =
   fst (pickSuccessor jam_engine cold 0 (demo_vehicle 1\<lparr>v_Route := ''d''\<rparr>))"
  using route_cache_invisible [OF live.serve [OF live.start, of 3 jam_engine], of 3 0] by (simp add: jam_lanes)

text \<open>
  (equivalence) When the travel-time estimates are initialised, every adaptive table is the
  static free-flow table: the mechanism changes nothing until dwell evidence says otherwise.
\<close>

theorem adaptive_starts_static:
  assumes "p_AdaptiveRouting (e_Params e)"
  shows "fst (routeTable (initAdaptiveRouting e) cold d) = static_table e d"
  by (rule adaptive_start_core [OF assms])

theorem adaptive_starts_static_witness: "fst (routeTable (initAdaptiveRouting jam_engine) cold 3) = [2, 3, 3, - 1]"
  using adaptive_starts_static [OF jam_adaptive, of 3] by (simp add: jam_static)

end
