(* ===== verification/LatDepth.thy ===== *)
theory LatDepth
  imports Routing Demo
begin

text \<open>
  \<open>engine/routing.go\<close>, the lateral half of route following (ADR-0021): \<open>routeLatDepth\<close>, a layered
  0-1 breadth-first search over the reversed lane graph, and its specification: the least number
  of lane changes that still separate a lane from the destination. The memo table \<open>latTabs\<close> holds
  results of this function for an immutable network, so it is not part of the model. An index out
  of range, which panics in Go and which no well-formed network has, marks nothing here.
\<close>

definition lat_mark :: "nat \<Rightarrow> int list \<times> nat list \<Rightarrow> nat \<Rightarrow> int list \<times> nat list" where
  "lat_mark d t p =
     (if p < length (fst t) \<and> fst t ! p < 0 then ((fst t)[p := int d], snd t @ [p]) else t)"

definition unmarked :: "int list \<Rightarrow> nat" where "unmarked D = length (filter (\<lambda>x. x < 0) D)"

lemma unmarked_update:
  assumes "p < length D" "D ! p < 0"
  shows "Suc (unmarked (D[p := int d])) = unmarked D"
proof -
  have "D = take p D @ D ! p # drop (Suc p) D" using assms(1) by (rule id_take_nth_drop)
  then have "unmarked D = unmarked (take p D @ D ! p # drop (Suc p) D)" by simp
  then show ?thesis using assms by (simp add: unmarked_def upd_conv_take_nth_drop)
qed

text \<open>What a run of marks does.\<close>

definition marks :: "nat \<Rightarrow> nat set \<Rightarrow> int list \<times> nat list \<Rightarrow> int list \<times> nat list \<Rightarrow> bool" where
  "marks d P s t \<longleftrightarrow> length (fst t) = length (fst s) \<and>
     unmarked (fst t) + length (snd t) = unmarked (fst s) + length (snd s) \<and>
     (\<forall>i < length (fst s).
        (if 0 \<le> fst s ! i then fst t ! i = fst s ! i
         else if i \<in> P then fst t ! i = int d \<and> i \<in> set (snd t) else fst t ! i = fst s ! i)) \<and>
     set (snd t) \<subseteq> set (snd s) \<union> {i. i < length (fst s) \<and> fst s ! i < 0 \<and> i \<in> P} \<and>
     set (snd s) \<subseteq> set (snd t)"

lemma lat_mark_run: "marks d (set ps) s (foldl (lat_mark d) s ps)"
proof (induction ps rule: rev_induct)
  case Nil
  show ?case by (simp add: marks_def)
next
  case (snoc p ps)
  let ?t = "foldl (lat_mark d) s ps"
  show ?case
  proof (cases "p < length (fst ?t) \<and> fst ?t ! p < 0")
    case True
    then have "Suc (unmarked ((fst ?t)[p := int d])) = unmarked (fst ?t)" by (intro unmarked_update) auto
    moreover have "fst s ! p < 0 \<and> p \<notin> set ps"
      using snoc True unfolding marks_def by (metis not_le of_nat_0_le_iff)
    moreover have "lat_mark d ?t p = ((fst ?t)[p := int d], snd ?t @ [p])" using True by (simp add: lat_mark_def)
    ultimately show ?thesis
      using snoc True by (auto simp: marks_def nth_list_update split: if_splits)
  next
    case False
    then have "lat_mark d ?t p = ?t" by (auto simp: lat_mark_def)
    moreover have "p < length (fst s) \<Longrightarrow> fst s ! p < 0 \<Longrightarrow> p \<in> set ps"
      using snoc False unfolding marks_def by (metis not_le)
    ultimately show ?thesis using snoc by (auto simp: marks_def not_less not_le)
  qed
qed

lemma marks_sel:
  assumes "marks d P s t"
  shows "length (fst t) = length (fst s)"
    and "unmarked (fst t) + length (snd t) = unmarked (fst s) + length (snd s)"
    and "i < length (fst s) \<Longrightarrow> 0 \<le> fst s ! i \<Longrightarrow> fst t ! i = fst s ! i"
    and "i < length (fst s) \<Longrightarrow> fst s ! i < 0 \<Longrightarrow> i \<in> P \<Longrightarrow> fst t ! i = int d \<and> i \<in> set (snd t)"
    and "i < length (fst s) \<Longrightarrow> fst s ! i < 0 \<Longrightarrow> i \<notin> P \<Longrightarrow> fst t ! i = fst s ! i"
    and "set (snd t) \<subseteq> set (snd s) \<union> {i. i < length (fst s) \<and> fst s ! i < 0 \<and> i \<in> P}"
    and "set (snd s) \<subseteq> set (snd t)"
  using assms by (auto simp: marks_def not_le)

subsection \<open>The search\<close>

text \<open>The 0-cost closure of a layer: everything that can drive to it.\<close>

function lat_close :: "nat list list \<Rightarrow> nat \<Rightarrow> int list \<Rightarrow> nat list \<Rightarrow> nat list \<Rightarrow> int list \<times> nat list" where
  "lat_close preds d D layer [] = (D, layer)"
| "lat_close preds d D layer (u # us) =
     (let t = foldl (lat_mark d) (D, []) (preds ! u) in lat_close preds d (fst t) (layer @ [u]) (us @ snd t))"
  by pat_completeness auto

termination
proof (relation "measure (\<lambda>(preds, d, D, layer, us). unmarked D + length us)", goal_cases)
  case (2 preds d D layer u us t)
  then show ?case using marks_sel(2) [OF lat_mark_run, of d "(D, [])" "preds ! u"] by simp
qed simp

definition laterals :: "Network \<Rightarrow> nat \<Rightarrow> nat list" where
  "laterals net u = (let l = n_Lanes net ! u in
     (case l_Left l of Some k \<Rightarrow> [k] | None \<Rightarrow> []) @ (case l_Right l of Some k \<Rightarrow> [k] | None \<Rightarrow> []))"

text \<open>The 1-cost step: the lateral neighbours of the whole layer seed the next one.\<close>

definition lat_step :: "Network \<Rightarrow> nat \<Rightarrow> int list \<times> nat list \<Rightarrow> int list \<times> nat list" where
  "lat_step net d s = foldl (lat_mark (Suc d)) (fst s, []) (concat (map (laterals net) (snd s)))"

lemma close_unmarked: "unmarked (fst (lat_close preds d D layer us)) \<le> unmarked D"
proof (induction preds d D layer us rule: lat_close.induct)
  case (2 preds d D layer u us)
  then show ?case using marks_sel(2) [OF lat_mark_run, of d "(D, [])" "preds ! u"] by (simp add: Let_def)
qed simp

lemma step_unmarked: "unmarked (fst (lat_step net d s)) + length (snd (lat_step net d s)) = unmarked (fst s)"
  using marks_sel(2) [OF lat_mark_run, of "Suc d" "(fst s, [])"] by (simp add: lat_step_def)

function lat_layers :: "Network \<Rightarrow> nat \<Rightarrow> int list \<Rightarrow> nat list \<Rightarrow> int list" where
  "lat_layers net d D frontier =
     (if frontier = [] then D
      else let t = lat_step net d (lat_close (routePreds net) d D [] frontier) in
        lat_layers net (Suc d) (fst t) (snd t))"
  by pat_completeness auto

termination
proof (relation "measures [\<lambda>(net, d, D, frontier). unmarked D, \<lambda>(net, d, D, frontier). length frontier]", goal_cases)
  case (2 net d D frontier t)
  have "unmarked (fst t) + length (snd t) \<le> unmarked D"
    using step_unmarked [of net d "lat_close (routePreds net) d D [] frontier"]
      close_unmarked [of "routePreds net" d D "[]" frontier] 2(2) by simp
  then show ?case using 2(1) by (cases "snd t") auto
qed simp

declare lat_layers.simps [simp del]

definition routeLatDepth :: "Network \<Rightarrow> nat \<Rightarrow> int list" where
  "routeLatDepth net dest = lat_layers net 0 ((replicate (length (n_Lanes net)) (- 1))[dest := 0]) [dest]"

definition routeLatDist :: "Network \<Rightarrow> nat \<Rightarrow> string \<Rightarrow> int" where
  "routeLatDist net lane destID =
     (case LaneByID net destID of None \<Rightarrow> 0 | Some dest \<Rightarrow> routeLatDepth net dest ! lane)"

section \<open>The least number of lane changes\<close>

text \<open>\<open>drives net dest k i\<close>: from lane \<open>i\<close> the destination is reached with \<open>k\<close> lane changes.\<close>

inductive drives_with :: "Network \<Rightarrow> nat \<Rightarrow> nat \<Rightarrow> nat \<Rightarrow> bool" for net dest where
  arrived: "drives_with net dest 0 dest"
| ahead: "drives_with net dest k u \<Longrightarrow> i < length (n_Lanes net) \<Longrightarrow> u \<in> set (l_Successors (n_Lanes net ! i)) \<Longrightarrow>
    drives_with net dest k i"
| across: "drives_with net dest k u \<Longrightarrow> i < length (n_Lanes net) \<Longrightarrow> u \<in> set (laterals net i) \<Longrightarrow>
    drives_with net dest (Suc k) i"

definition lanes_ok :: "Network \<Rightarrow> bool" where
  "lanes_ok net \<longleftrightarrow> (\<forall>i < length (n_Lanes net).
     (\<forall>u \<in> set (l_Successors (n_Lanes net ! i)). u < length (n_Lanes net)) \<and>
     (\<forall>u \<in> set (laterals net i). u < length (n_Lanes net) \<and> i \<in> set (laterals net u)))"

text \<open>
  The state before layer \<open>d\<close> is expanded: labels are sound, the label \<open>d\<close> is on the frontier \<open>F\<close>,
  and what lies below is closed under driving and changing lanes.
\<close>

definition lat_ok :: "Network \<Rightarrow> nat \<Rightarrow> nat \<Rightarrow> int list \<Rightarrow> nat set \<Rightarrow> bool" where
  "lat_ok net dest d D F \<longleftrightarrow> length D = length (n_Lanes net) \<and> D ! dest = 0 \<and>
     (\<forall>i < length (n_Lanes net). D ! i \<le> int d \<and> (D ! i = int d \<longleftrightarrow> i \<in> F) \<and> (0 \<le> D ! i \<longrightarrow> drives_with net dest (nat (D ! i)) i)) \<and>
     (\<forall>i < length (n_Lanes net). 0 \<le> D ! i \<and> D ! i < int d \<longrightarrow>
        (\<forall>p \<in> set (routePreds net ! i). 0 \<le> D ! p \<and> D ! p \<le> D ! i) \<and>
        (\<forall>p \<in> set (laterals net i). 0 \<le> D ! p \<and> D ! p \<le> D ! i + 1)) \<and>
     F \<subseteq> {..<length (n_Lanes net)}"

lemma lat_okD:
  assumes "lat_ok net dest d D F"
  shows "length D = length (n_Lanes net)" and "D ! dest = 0" and "F \<subseteq> {..<length (n_Lanes net)}"
    and "i < length (n_Lanes net) \<Longrightarrow> D ! i \<le> int d"
    and "i < length (n_Lanes net) \<Longrightarrow> D ! i = int d \<longleftrightarrow> i \<in> F"
    and "i < length (n_Lanes net) \<Longrightarrow> 0 \<le> D ! i \<Longrightarrow> drives_with net dest (nat (D ! i)) i"
    and "i < length (n_Lanes net) \<Longrightarrow> 0 \<le> D ! i \<Longrightarrow> D ! i < int d \<Longrightarrow> p \<in> set (routePreds net ! i) \<Longrightarrow>
      0 \<le> D ! p \<and> D ! p \<le> D ! i"
    and "i < length (n_Lanes net) \<Longrightarrow> 0 \<le> D ! i \<Longrightarrow> D ! i < int d \<Longrightarrow> p \<in> set (laterals net i) \<Longrightarrow>
      0 \<le> D ! p \<and> D ! p \<le> D ! i + 1"
  using assms unfolding lat_ok_def by blast+

lemma lanes_okD:
  assumes "lanes_ok net" and "i < length (n_Lanes net)" and "u \<in> set (laterals net i)"
  shows "u < length (n_Lanes net)" and "i \<in> set (laterals net u)"
  using assms unfolding lanes_ok_def by blast+

lemma preds_mem:
  "u < length (n_Lanes net) \<Longrightarrow> p < length (n_Lanes net) \<Longrightarrow> u \<in> set (l_Successors (n_Lanes net ! p)) \<Longrightarrow>
     p \<in> set (routePreds net ! u)"
  by (simp add: routePreds_def) (rule bexI [of _ p], simp_all add: image_iff)

lemma close_step_ok:
  assumes ok: "lat_ok net dest d D F" and net: "lanes_ok net" and dest: "dest < length (n_Lanes net)" and u: "u \<in> F" and new: "marks d (set (routePreds net ! u)) (D, []) t"
  shows "lat_ok net dest d (fst t) (F \<union> set (snd t))" and "\<forall>p \<in> set (routePreds net ! u). 0 \<le> fst t ! p"
    and "\<And>p. p < length D \<Longrightarrow> 0 \<le> D ! p \<Longrightarrow> fst t ! p = D ! p"
proof -
  note o = lat_okD [OF ok] and m = marks_sel [OF new, simplified]
  have un: "u < length (n_Lanes net)" using o(3) u by auto
  then have du: "drives_with net dest d u" using o(5,6) [of u] u by auto
  show keep: "\<And>p. p < length D \<Longrightarrow> 0 \<le> D ! p \<Longrightarrow> fst t ! p = D ! p" by (rule m(3))
  show "\<forall>p \<in> set (routePreds net ! u). 0 \<le> fst t ! p"
    using preds_road [OF un] m(3,4) o(1) by (metis not_le of_nat_0_le_iff)
  have lab: "fst t ! i \<le> int d \<and> (fst t ! i = int d \<longleftrightarrow> i \<in> F \<union> set (snd t)) \<and>
      (0 \<le> fst t ! i \<longrightarrow> drives_with net dest (nat (fst t ! i)) i)" if i: "i < length (n_Lanes net)" for i
  proof (cases "0 \<le> D ! i")
    case True
    then have "fst t ! i = D ! i" "i \<notin> set (snd t)" using m(3,6) i o(1) by auto
    then show ?thesis using o(4-6) [OF i] True by auto
  next
    case False
    then have nF: "i \<notin> F" using o(5) [OF i] by auto
    show ?thesis
    proof (cases "i \<in> set (routePreds net ! u)")
      case True
      then have "drives_with net dest d i" using preds_road [OF un] du by (blast intro: drives_with.ahead)
      then show ?thesis using m(4) [of i] True False i o(1) by auto
    next
      case out: False
      then have "fst t ! i = D ! i" "i \<notin> set (snd t)" using m(5,6) False i o(1) by auto
      then show ?thesis using False nF by auto
    qed
  qed
  have below: "0 \<le> D ! i \<and> fst t ! i = D ! i" if "i < length (n_Lanes net)" "0 \<le> fst t ! i" "fst t ! i < int d" for i
    using that m(3-5) [of i] o(1) by (metis not_le order.irrefl)
  have low: "(\<forall>p \<in> set (routePreds net ! i). 0 \<le> fst t ! p \<and> fst t ! p \<le> fst t ! i) \<and>
      (\<forall>p \<in> set (laterals net i). 0 \<le> fst t ! p \<and> fst t ! p \<le> fst t ! i + 1)"
    if i: "i < length (n_Lanes net)" "0 \<le> fst t ! i" "fst t ! i < int d" for i
  proof -
    note b = below [OF i]
    have "0 \<le> fst t ! p \<and> fst t ! p \<le> fst t ! i" if "p \<in> set (routePreds net ! i)" for p
      using o(7) [OF i(1) _ _ that] m(3) [of p] b i preds_road [OF i(1) that] o(1) by simp
    moreover have "0 \<le> fst t ! p \<and> fst t ! p \<le> fst t ! i + 1" if "p \<in> set (laterals net i)" for p
      using o(8) [OF i(1) _ _ that] m(3) [of p] b i lanes_okD(1) [OF net i(1) that] o(1) by simp
    ultimately show ?thesis by blast
  qed
  have "fst t ! dest = 0" using m(3) [of dest] o(1,2) dest by simp
  moreover have "F \<union> set (snd t) \<subseteq> {..<length (n_Lanes net)}" using o(1,3) m(6) by auto
  moreover have "length (fst t) = length (n_Lanes net)" using o(1) m(1) by simp
  ultimately show "lat_ok net dest d (fst t) (F \<union> set (snd t))"
    using lab low unfolding lat_ok_def by blast
qed

lemma lat_close_ok:
  "lat_ok net dest d D (set layer \<union> set us) \<Longrightarrow> lanes_ok net \<Longrightarrow> dest < length (n_Lanes net) \<Longrightarrow>
   \<forall>u \<in> set layer. \<forall>p \<in> set (routePreds net ! u). 0 \<le> D ! p \<Longrightarrow> t = lat_close (routePreds net) d D layer us \<Longrightarrow>
   lat_ok net dest d (fst t) (set (snd t)) \<and> (\<forall>u \<in> set (snd t). \<forall>p \<in> set (routePreds net ! u). 0 \<le> fst t ! p)"
proof (induction "routePreds net" d D layer us rule: lat_close.induct)
  case (1 d D layer)
  then show ?case by simp
next
  case (2 d D layer u us)
  let ?t = "foldl (lat_mark d) (D, []) (routePreds net ! u)"
  have u: "u \<in> set layer \<union> set (u # us)" by simp
  note c = close_step_ok [OF 2(2-4) u lat_mark_run]
  have "lat_ok net dest d (fst ?t) (set (layer @ [u]) \<union> set (us @ snd ?t))"
    using c(1) by (simp add: Un_assoc Un_commute insert_commute)
  moreover have "0 \<le> fst ?t ! p" if "v \<in> set (layer @ [u])" "p \<in> set (routePreds net ! v)" for v p
  proof (cases "v = u")
    case False
    then have "v \<in> set layer" using that(1) by simp
    then have "v < length (n_Lanes net)" "0 \<le> D ! p" using lat_okD(3) [OF 2(2)] 2(5) that(2) by auto
    then show ?thesis using c(3) [of p] preds_road [OF _ that(2)] lat_okD(1) [OF 2(2)] by simp
  qed (use c(2) that in blast)
  ultimately show ?case using 2(1) [OF refl _ 2(3,4)] 2(6) by (simp add: Let_def)
qed

lemma lat_step_ok:
  assumes ok: "lat_ok net dest d (fst s) (set (snd s))" and net: "lanes_ok net" and dest: "dest < length (n_Lanes net)"
    and closed: "\<forall>u \<in> set (snd s). \<forall>p \<in> set (routePreds net ! u). 0 \<le> fst s ! p"
  shows "lat_ok net dest (Suc d) (fst (lat_step net d s)) (set (snd (lat_step net d s)))"
proof -
  let ?t = "lat_step net d s" and ?P = "\<Union>u \<in> set (snd s). set (laterals net u)" and ?n = "length (n_Lanes net)"
  have mk: "marks (Suc d) ?P (fst s, []) ?t"
    using lat_mark_run [of "Suc d" "concat (map (laterals net) (snd s))" "(fst s, [])"] by (simp add: lat_step_def)
  note o = lat_okD [OF ok] and m = marks_sel [OF mk, simplified]
  have lab: "fst ?t ! i \<le> int (Suc d) \<and> (fst ?t ! i = int (Suc d) \<longleftrightarrow> i \<in> set (snd ?t)) \<and>
      (0 \<le> fst ?t ! i \<longrightarrow> drives_with net dest (nat (fst ?t ! i)) i)" if i: "i < ?n" for i
  proof (cases "0 \<le> fst s ! i")
    case True
    then have "fst ?t ! i = fst s ! i" "i \<notin> set (snd ?t)" using m(3,6) i o(1) by auto
    then show ?thesis using o(4,6) [OF i] True by auto
  next
    case False
    show ?thesis
    proof (cases "i \<in> ?P")
      case True
      then obtain u where u: "u \<in> set (snd s)" "i \<in> set (laterals net u)" by blast
      then have un: "u < ?n" using o(3) by auto
      then have "u \<in> set (laterals net i)" using lanes_okD(2) [OF net _ u(2)] by simp
      moreover have "drives_with net dest d u" using o(5,6) [OF un] u(1) by auto
      ultimately have "drives_with net dest (Suc d) i" using i by (blast intro: drives_with.across)
      moreover have "nat (1 + int d) = Suc d" by simp
      ultimately show ?thesis using m(4) [of i] True False i o(1) by auto
    next
      case out: False
      then have "fst ?t ! i = fst s ! i" "i \<notin> set (snd ?t)" using m(5,6) False i o(1) by auto
      then show ?thesis using False by auto
    qed
  qed
  have low: "(\<forall>p \<in> set (routePreds net ! i). 0 \<le> fst ?t ! p \<and> fst ?t ! p \<le> fst ?t ! i) \<and>
      (\<forall>p \<in> set (laterals net i). 0 \<le> fst ?t ! p \<and> fst ?t ! p \<le> fst ?t ! i + 1)"
    if i: "i < ?n" "0 \<le> fst ?t ! i" "fst ?t ! i < int (Suc d)" for i
  proof -
    have b0: "0 \<le> fst s ! i"
    proof (rule ccontr)
      assume neg: "\<not> 0 \<le> fst s ! i"
      then show False using i m(4,5) [of i] o(1) by (cases "\<exists>x \<in> set (snd s). i \<in> set (laterals net x)") auto
    qed
    moreover have "fst ?t ! i = fst s ! i" using m(3) i(1) b0 o(1) by simp
    ultimately have b: "0 \<le> fst s ! i" "fst ?t ! i = fst s ! i" by simp_all
    have keep: "fst ?t ! p = fst s ! p" if "p < ?n" "0 \<le> fst s ! p" for p using m(3) that o(1) by simp
    have pn: "p < ?n" if "p \<in> set (routePreds net ! i)" for p using preds_road [OF i(1) that] by simp
    have ln: "p < ?n" if "p \<in> set (laterals net i)" for p using lanes_okD(1) [OF net i(1) that] .
    show ?thesis
    proof (cases "fst s ! i < int d")
      case True
      then show ?thesis using o(7,8) [OF i(1) b(1)] keep pn ln b(2) by simp
    next
      case False
      then have top: "fst s ! i = int d" "i \<in> set (snd s)" using o(4,5) [OF i(1)] by auto
      have "0 \<le> fst ?t ! p \<and> fst ?t ! p \<le> int d" if "p \<in> set (routePreds net ! i)" for p
        using closed top(2) that keep [OF pn [OF that]] o(4) [OF pn [OF that]] by auto
      moreover have "0 \<le> fst ?t ! p \<and> fst ?t ! p \<le> int d + 1" if "p \<in> set (laterals net i)" for p
      proof (cases "0 \<le> fst s ! p")
        case True
        then show ?thesis using keep [OF ln [OF that]] o(4) [OF ln [OF that]] by simp
      next
        case False
        have "\<exists>x \<in> set (snd s). p \<in> set (laterals net x)" using top(2) that by blast
        then show ?thesis using m(4) [of p] False ln [OF that] o(1) by simp
      qed
      ultimately show ?thesis using b(2) top(1) by simp
    qed
  qed
  have "fst ?t ! dest = 0" using m(3) [of dest] o(1,2) dest by simp
  moreover have "set (snd ?t) \<subseteq> {..<?n}" using o(1) m(6) by auto
  moreover have "length (fst ?t) = ?n" using o(1) m(1) by simp
  ultimately show ?thesis using lab low unfolding lat_ok_def by blast
qed

lemma lat_layers_ok:
  "lat_ok net dest d D (set frontier) \<Longrightarrow> lanes_ok net \<Longrightarrow> dest < length (n_Lanes net) \<Longrightarrow>
   \<exists>d'. lat_ok net dest d' (lat_layers net d D frontier) {}"
proof (induction net d D frontier rule: lat_layers.induct)
  case (1 net d D frontier)
  show ?case
  proof (cases "frontier = []")
    case True
    then show ?thesis using "1.prems" by (auto simp: lat_layers.simps [of net d D "[]"])
  next
    case False
    let ?c = "lat_close (routePreds net) d D [] frontier"
    have "lat_ok net dest d (fst ?c) (set (snd ?c)) \<and> (\<forall>u \<in> set (snd ?c). \<forall>p \<in> set (routePreds net ! u). 0 \<le> fst ?c ! p)"
      using "1.prems" by (intro lat_close_ok) auto
    then show ?thesis
      using "1.IH" [OF False refl lat_step_ok] "1.prems" False by (simp add: lat_layers.simps [of net d D frontier] Let_def)
  qed
qed

lemma routeLatDepth_ok:
  assumes "lanes_ok net" and "dest < length (n_Lanes net)"
  obtains d where "lat_ok net dest d (routeLatDepth net dest) {}"
proof -
  have "lat_ok net dest 0 ((replicate (length (n_Lanes net)) (- 1))[dest := 0]) (set [dest])"
    using assms(2) by (auto simp: lat_ok_def nth_list_update intro: drives_with.arrived)
  from lat_layers_ok [OF this assms] show ?thesis using that by (auto simp: routeLatDepth_def)
qed

lemma drives_labelled:
  assumes net: "lanes_ok net" and ok: "lat_ok net dest d D {}" and "drives_with net dest k i" and dest: "dest < length (n_Lanes net)"
  shows "i < length (n_Lanes net) \<and> 0 \<le> D ! i \<and> D ! i \<le> int k"
  using assms(3)
proof -
  note o = lat_okD [OF ok]
  have settled: "D ! u < int d" if "u < length (n_Lanes net)" for u using o(4,5) [OF that] by simp
  show ?thesis using assms(3)
  proof induction
    case arrived
    then show ?case using o(2) dest by simp
  next
    case (ahead k u i)
    then have "i \<in> set (routePreds net ! u)" by (intro preds_mem) simp_all
    then show ?case using o(7) [of u i] settled [of u] ahead by fastforce
  next
    case (across k u i)
    then have "i \<in> set (laterals net u)" using lanes_okD [OF net] by blast
    then show ?case using o(8) [of u i] settled [of u] across by fastforce
  qed
qed

section \<open>Property\<close>

text \<open>
  C16: (equivalence) The lateral depth table is the least number of lane changes: on a network whose
  lateral links are mutual, the entry of a lane is the smallest number of lane changes with which
  the destination can be driven to, and it is negative exactly when no number suffices.
\<close>

theorem lat_depth_minimal:
  assumes "lanes_ok net" and "dest < length (n_Lanes net)" and "i < length (n_Lanes net)"
  shows "(routeLatDepth net dest ! i = int k \<longleftrightarrow>
      drives_with net dest k i \<and> \<not> (\<exists>j < k. drives_with net dest j i)) \<and>
    (routeLatDepth net dest ! i < 0 \<longleftrightarrow> \<not> (\<exists>j. drives_with net dest j i))"
proof -
  obtain d where ok: "lat_ok net dest d (routeLatDepth net dest) {}" by (rule routeLatDepth_ok [OF assms(1,2)])
  let ?x = "routeLatDepth net dest ! i"
  have low: "0 \<le> ?x \<and> ?x \<le> int j" if "drives_with net dest j i" for j
    using drives_labelled [OF assms(1) ok that assms(2)] by simp
  have hit: "drives_with net dest (nat ?x) i" if "0 \<le> ?x" using lat_okD(6) [OF ok assms(3) that] .
  show ?thesis
  proof (cases "0 \<le> ?x")
    case True
    then have x: "?x = int (nat ?x)" by simp
    have "?x = int k \<longleftrightarrow> drives_with net dest k i \<and> \<not> (\<exists>j < k. drives_with net dest j i)"
    proof
      assume k: "?x = int k"
      then show "drives_with net dest k i \<and> \<not> (\<exists>j < k. drives_with net dest j i)"
        using hit [OF True] low by force
    next
      assume "drives_with net dest k i \<and> \<not> (\<exists>j < k. drives_with net dest j i)"
      then have "?x \<le> int k" "\<not> nat ?x < k" using low hit [OF True] by blast+
      then show "?x = int k" using True by linarith
    qed
    then show ?thesis using True hit by auto
  next
    case False
    then show ?thesis using low by (metis not_le of_nat_0_le_iff)
  qed
qed

text \<open>Lane 0 ends; its right neighbour 1 leads into lane 2.\<close>

definition merge_net :: Network where
  "merge_net = \<lparr>n_Lanes = [demo_lane\<lparr>l_Right := Some 1\<rparr>, demo_lane\<lparr>l_Left := Some 0, l_Successors := [2]\<rparr>, demo_lane],
     n_Origins = [0, 1], n_Signals = []\<rparr>"

lemma merge_depth: "routeLatDepth merge_net 2 = [1, 0, 0]"
  by code_simp

lemma merge_ok: "lanes_ok merge_net"
  by (simp add: lanes_ok_def merge_net_def demo_lane_def laterals_def less_Suc_eq numeral_3_eq_3)

theorem lat_depth_minimal_witness:
  "drives_with merge_net 2 1 0 \<and> \<not> (\<exists>j < (1 :: nat). drives_with merge_net 2 j 0)"
  using lat_depth_minimal [OF merge_ok, of 2 0 1] by (simp add: merge_depth) (simp add: merge_net_def)

end
