(* ===== verification/Motion.thy ===== *)
theory Motion
  imports RouteClaims Demo
begin

text \<open>
  \<open>engine/engine.go\<close>: the motion phases of a tick. \<open>integrate\<close> is the ballistic update with the
  stopping override, \<open>boundaries\<close> the hand-off at the end of a lane: vehicles past their lane end
  are bucketed by lane and swept by descending lane index; they leave at an exit or at their
  destination, cross to the successor \<open>pickSuccessor\<close> names, or stop at a wall. A vehicle is its
  position in \<open>e_order\<close>; Go's nil lane of a despawned vehicle is membership in \<open>b_gone\<close>. The
  lane occupancy (\<open>lane.vehs\<close>, positions sorted by the last rebuild) only feeds the overlap
  counter. Products and sums are rounded one by one, as the compiler does on amd64.
\<close>

subsection \<open>The ballistic update\<close>

definition integrate_one :: "f64 \<Rightarrow> Vehicle \<Rightarrow> Vehicle" where
  "integrate_one dt v =
     (let a = v_Acc v in
      if flt (fadd (v_V v) (fmul a dt)) 0
      then (let v1 = (if flt a 0
              then v\<lparr>v_S := fadd (v_S v) (fdiv (fmul (fmul (f64_lit (- 1) 2) (v_V v)) (v_V v)) a)\<rparr> else v) in
            v1\<lparr>v_V := 0\<rparr>)
      else v\<lparr>v_S := fadd (v_S v) (fadd (fmul (v_V v) dt) (fmul (fmul (fmul (f64_lit 1 2) a) dt) dt)),
             v_V := fadd (v_V v) (fmul a dt)\<rparr>)"

definition integrate :: "Engine \<Rightarrow> Engine" where
  "integrate e = e\<lparr>e_order := map (integrate_one (p_Dt (e_Params e))) (e_order e)\<rparr>"

subsection \<open>Lane ends\<close>

text \<open>\<open>sort.Search\<close>: the bisection of the standard library, whatever the predicate.\<close>

function sort_search :: "(nat \<Rightarrow> bool) \<Rightarrow> nat \<Rightarrow> nat \<Rightarrow> nat" where
  "sort_search P i j =
     (if j \<le> i then i
      else let h = (i + j) div 2 in if P h then sort_search P i h else sort_search P (Suc h) j)"
  by pat_completeness auto

termination
  by (relation "measure (\<lambda>(P, i, j). j - i)") auto

declare sort_search.simps [simp del]

record boundary_run =
  b_eng :: Engine
  b_cache :: RouteCache
  b_past :: "nat \<Rightarrow> nat list"
  b_gone :: "nat list"
  b_Despawned :: nat
  b_Arrived :: nat
  b_WallHits :: nat
  b_CrossOverlaps :: nat

definition past_end :: "Engine \<Rightarrow> Vehicle \<Rightarrow> bool" where
  "past_end e v = flt (l_Length (e_Lanes e ! v_Lane v)) (v_S v)"

definition set_vehicle :: "nat \<Rightarrow> Vehicle \<Rightarrow> Engine \<Rightarrow> Engine" where
  "set_vehicle k v e = e\<lparr>e_order := (e_order e)[k := v]\<rparr>"

definition lands_on :: "Engine \<Rightarrow> nat list \<Rightarrow> Vehicle \<Rightarrow> bool" where
  "lands_on e occ v =
     (let S = (\<lambda>i. v_S (e_order e ! (occ ! i))); len = (\<lambda>w. vt_Length (e_Types e ! v_TypeIdx w));
          i = sort_search (\<lambda>i. flt (fsub (v_S v) (len v)) (S i)) 0 (length occ) in
      i < length occ \<and> flt (fsub (S i) (len (e_order e ! (occ ! i)))) (v_S v))"

definition enter_lane :: "Engine \<Rightarrow> nat \<Rightarrow> Vehicle \<Rightarrow> Vehicle" where
  "enter_lane e i v =
     (let v1 = v\<lparr>v_Lane := i, v_HeldTurn := 0\<rparr> in if l_Internal (e_Lanes e ! i) then v1\<lparr>v_stopDone := False\<rparr> else v1)"

definition depart :: "nat \<Rightarrow> boundary_run \<Rightarrow> boundary_run" where
  "depart k b = b\<lparr>b_eng := noteLaneLeave k (b_eng b), b_gone := b_gone b @ [k], b_Despawned := Suc (b_Despawned b)\<rparr>"

definition cross :: "(nat \<Rightarrow> nat list) \<Rightarrow> nat \<Rightarrow> nat \<Rightarrow> boundary_run \<Rightarrow> boundary_run" where
  "cross occ i k b =
     (let e = b_eng b; v = e_order e ! k; v1 = v\<lparr>v_S := fsub (v_S v) (l_Length (e_Lanes e ! i))\<rparr>;
          e1 = set_vehicle k v1 e in
      case pickSuccessor e1 (b_cache b) i v1 of
        (None, rc) \<Rightarrow> b
      | (Some j, rc) \<Rightarrow>
          let e2 = noteLaneLeave k e1; v2 = enter_lane e2 j (e_order e2 ! k); e3 = set_vehicle k v2 e2 in
          b\<lparr>b_eng := e3, b_cache := rc,
            b_CrossOverlaps := b_CrossOverlaps b + (if lands_on e1 (occ j) v1 then 1 else 0),
            b_past := (if j < i \<and> past_end e3 v2 then (b_past b)(j := b_past b j @ [k]) else b_past b)\<rparr>)"

definition boundary_one :: "(nat \<Rightarrow> nat list) \<Rightarrow> nat \<Rightarrow> boundary_run \<Rightarrow> nat \<Rightarrow> boundary_run" where
  "boundary_one occ i b k =
     (let e = b_eng b; v = e_order e ! k; l = e_Lanes e ! i in
      if k \<in> set (b_gone b) \<or> v_Lane v \<noteq> i \<or> fle (v_S v) (l_Length l) then b
      else if l_Exit l then depart k b
      else if v_Route v \<noteq> [] \<and> v_Route v = l_ID l then (depart k b)\<lparr>b_Arrived := Suc (b_Arrived b)\<rparr>
      else if l_Successors l \<noteq> [] then cross occ i k b
      else if l_EndWall l
      then b\<lparr>b_eng := set_vehicle k (v\<lparr>v_S := l_Length l, v_V := 0\<rparr>) e, b_WallHits := Suc (b_WallHits b)\<rparr>
      else b)"

definition boundary_lane :: "(nat \<Rightarrow> nat list) \<Rightarrow> boundary_run \<Rightarrow> nat \<Rightarrow> boundary_run" where
  "boundary_lane occ b i = foldl (boundary_one occ i) (b\<lparr>b_past := (b_past b)(i := [])\<rparr>) (b_past b i)"

definition boundary_start :: "Engine \<Rightarrow> RouteCache \<Rightarrow> boundary_run" where
  "boundary_start e rc = \<lparr>b_eng = e, b_cache = rc,
     b_past = (\<lambda>i. filter (\<lambda>k. v_Lane (e_order e ! k) = i \<and> past_end e (e_order e ! k)) [0..<length (e_order e)]),
     b_gone = [], b_Despawned = 0, b_Arrived = 0, b_WallHits = 0, b_CrossOverlaps = 0\<rparr>"

definition dropDespawned :: "nat list \<Rightarrow> Engine \<Rightarrow> Engine" where
  "dropDespawned gone e = e\<lparr>e_order := map (\<lambda>k. e_order e ! k) (filter (\<lambda>k. k \<notin> set gone) [0..<length (e_order e)])\<rparr>"

definition boundaries :: "(nat \<Rightarrow> nat list) \<Rightarrow> Engine \<Rightarrow> RouteCache \<Rightarrow> boundary_run" where
  "boundaries occ e rc =
     (let b = foldl (boundary_lane occ) (boundary_start e rc) (rev [0..<length (e_Lanes e)]) in
      if b_gone b = [] then b else b\<lparr>b_eng := dropDespawned (b_gone b) (b_eng b)\<rparr>)"

section \<open>One vehicle at a time\<close>

text \<open>
  What the sweep does to a vehicle depends on this vehicle alone: \<open>None\<close> when it leaves the
  network, otherwise the vehicle after all its crossings of the tick.
\<close>

definition clocked :: "Engine \<Rightarrow> Vehicle \<Rightarrow> Vehicle" where
  "clocked e v = (if p_AdaptiveRouting (e_Params e) then v\<lparr>v_laneEntryTick := e_Tick e\<rparr> else v)"

lemma enter_lane_lane [simp]: "v_Lane (enter_lane e j v) = j"
  by (simp add: enter_lane_def Let_def)

function travel :: "Engine \<Rightarrow> Vehicle \<Rightarrow> Vehicle option" where
  "travel e v =
     (let l = e_Lanes e ! v_Lane v; v1 = v\<lparr>v_S := fsub (v_S v) (l_Length l)\<rparr> in
      if \<not> past_end e v then Some v
      else if l_Exit l \<or> v_Route v \<noteq> [] \<and> v_Route v = l_ID l then None
      else case fst (pickSuccessor e cold (v_Lane v) v1) of
          Some j \<Rightarrow> (let v2 = enter_lane e j (clocked e v1) in if j < v_Lane v then travel e v2 else Some v2)
        | None \<Rightarrow> if l_EndWall l then Some (v\<lparr>v_S := l_Length l, v_V := 0\<rparr>) else Some v)"
  by pat_completeness auto

termination
  by (relation "measure (\<lambda>(e, v). v_Lane v)") auto

declare travel.simps [simp del]

subsection \<open>The roads and the clock during the sweep\<close>

definition same_routing :: "Engine \<Rightarrow> Engine \<Rightarrow> bool" where
  "same_routing e e' \<longleftrightarrow> same_roads (e_Net e) (e_Net e') \<and> e_Params e' = e_Params e \<and>
     e_Tick e' = e_Tick e \<and> e_ttSnap e' = e_ttSnap e"

lemma same_routing_refl [simp]: "same_routing e e"
  by (simp add: same_routing_def same_roads_def)

lemma same_routing_trans: "same_routing a b \<Longrightarrow> same_routing b c \<Longrightarrow> same_routing a c"
  by (simp add: same_routing_def same_roads_def)

lemma same_routing_set [simp]: "same_routing e (set_vehicle k v e)"
  by (simp add: same_routing_def same_roads_def set_vehicle_def)

lemma same_routing_note [simp]: "same_routing e (noteLaneLeave k e)"
proof -
  have "map (\<lambda>l. l\<lparr>l_ttEMA := 0\<rparr>) (ls[i := (ls ! i)\<lparr>l_ttEMA := x\<rparr>]) = map (\<lambda>l. l\<lparr>l_ttEMA := 0\<rparr>) ls" for ls :: "Lane list" and i x
    by (cases "i < length ls") (simp_all add: map_update list_update_same_conv list_update_beyond)
  then show ?thesis
    by (simp add: same_routing_def same_roads_def noteLaneLeave_def Let_def)
qed

lemma same_routing_lanes:
  assumes "same_routing e e'"
  shows "length (e_Lanes e') = length (e_Lanes e)"
    and "i < length (e_Lanes e) \<Longrightarrow> l_Successors (e_Lanes e' ! i) = l_Successors (e_Lanes e ! i) \<and>
      l_Length (e_Lanes e' ! i) = l_Length (e_Lanes e ! i) \<and> l_ID (e_Lanes e' ! i) = l_ID (e_Lanes e ! i) \<and>
      l_Exit (e_Lanes e' ! i) = l_Exit (e_Lanes e ! i) \<and> l_EndWall (e_Lanes e' ! i) = l_EndWall (e_Lanes e ! i) \<and>
      l_Internal (e_Lanes e' ! i) = l_Internal (e_Lanes e ! i)"
proof -
  have s: "same_roads (e_Net e) (e_Net e')" using assms by (simp add: same_routing_def)
  show "length (e_Lanes e') = length (e_Lanes e)" by (rule same_roads_nth(1) [OF s])
  assume i: "i < length (e_Lanes e)"
  note r = same_roads_nth(2) [OF s i]
  show "l_Successors (e_Lanes e' ! i) = l_Successors (e_Lanes e ! i) \<and>
      l_Length (e_Lanes e' ! i) = l_Length (e_Lanes e ! i) \<and> l_ID (e_Lanes e' ! i) = l_ID (e_Lanes e ! i) \<and>
      l_Exit (e_Lanes e' ! i) = l_Exit (e_Lanes e ! i) \<and> l_EndWall (e_Lanes e' ! i) = l_EndWall (e_Lanes e ! i) \<and>
      l_Internal (e_Lanes e' ! i) = l_Internal (e_Lanes e ! i)"
    using arg_cong [OF r, of l_Successors] arg_cong [OF r, of l_Length] arg_cong [OF r, of l_ID]
      arg_cong [OF r, of l_Exit] arg_cong [OF r, of l_EndWall] arg_cong [OF r, of l_Internal] by simp
qed

lemma past_end_same: "same_routing e e' \<Longrightarrow> v_Lane v < length (e_Lanes e) \<Longrightarrow> past_end e' v = past_end e v"
  using same_routing_lanes(2) by (simp add: past_end_def)

lemma enter_lane_same: "same_routing e e' \<Longrightarrow> j < length (e_Lanes e) \<Longrightarrow> enter_lane e' j v = enter_lane e j v"
  using same_routing_lanes(2) by (simp add: enter_lane_def)

lemma clocked_same: "same_routing e e' \<Longrightarrow> clocked e' v = clocked e v"
  by (simp add: clocked_def same_routing_def)

lemma LaneByID_same: "same_routing e e' \<Longrightarrow> LaneByID (e_Net e') d = LaneByID (e_Net e) d"
proof -
  assume s: "same_routing e e'"
  have "map l_ID (e_Lanes e') = map l_ID (e_Lanes e)"
    using same_routing_lanes [OF s] by (simp add: list_eq_iff_nth_eq)
  moreover have "find_index (\<lambda>l. l_ID l = d) ls = find_index (\<lambda>x. x = d) (map l_ID ls)" for ls
    by (induction ls) auto
  ultimately show ?thesis unfolding LaneByID_def by metis
qed

lemma cache_ok_same: "same_routing e e' \<Longrightarrow> cache_ok e rc \<Longrightarrow> cache_ok e' rc"
  by (auto simp: same_routing_def intro: cache_ok_rest)

lemma cold_ok: "cache_ok e cold"
  by (rule live_ok [OF live.start])

lemma pick_unfold:
  "fst (pickSuccessor e rc i v) =
     (case l_Successors (e_Lanes e ! i) of [] \<Rightarrow> None
      | s # ss \<Rightarrow> if 0 < v_HeldTurn v then Some s else if v_HeldTurn v < 0 then Some (last (s # ss))
          else if ss \<noteq> [] \<and> v_Route v \<noteq> [] then
            (case fst (routeNextHop e rc i (v_Route v)) of Some k \<Rightarrow> Some k | None \<Rightarrow> Some s)
          else Some s)"
  "snd (pickSuccessor e rc i v) \<in> {rc, snd (routeNextHop e rc i (v_Route v))}"
  by (simp_all add: pickSuccessor_def Let_def split: list.split prod.split option.split)

lemma pick_same:
  assumes s: "same_routing e e'" and ok: "cache_ok e' rc" and i: "i < length (e_Lanes e)"
    and v: "v_HeldTurn v' = v_HeldTurn v" "v_Route v' = v_Route v"
  shows "fst (pickSuccessor e' rc i v') = fst (pickSuccessor e cold i v)"
proof -
  have i': "i < length (e_Lanes e')" using i same_routing_lanes(1) [OF s] by simp
  have t: "table_now e' d = table_now e d" for d using s by (auto simp: same_routing_def intro: table_now_same)
  have "fst (routeNextHop e' cold i r) = fst (routeNextHop e cold i r)" for r
  proof (cases "LaneByID (e_Net e) r")
    case None
    then show ?thesis using LaneByID_same [OF s, of r] by (simp add: routeNextHop_def)
  next
    case (Some d)
    then show ?thesis
      using routeNextHop_char(1) [OF cold_ok _ i', of r d] routeNextHop_char(1) [OF cold_ok Some i]
        LaneByID_same [OF s, of r] by (simp add: t)
  qed
  then have "fst (pickSuccessor e' cold i v') = fst (pickSuccessor e cold i v)"
    using same_routing_lanes(2) [OF s i] v by (simp only: pick_unfold(1))
  then show ?thesis using pick_cache_free [OF ok cold_ok i', of v'] by simp
qed

lemma pick_cache_ok:
  assumes ok: "cache_ok e rc" and i: "i < length (e_Lanes e)"
  shows "cache_ok e (snd (pickSuccessor e rc i v))"
proof -
  have "cache_ok e (snd (routeNextHop e rc i r))" for r
  proof (cases "LaneByID (e_Net e) r")
    case None
    then show ?thesis using ok by (simp add: routeNextHop_def)
  next
    case (Some d)
    then show ?thesis by (rule routeNextHop_char(2) [OF ok _ i])
  qed
  then show ?thesis using ok pick_unfold(2) [of e rc i v] by auto
qed

lemma pick_in: "fst (pickSuccessor e rc i v) = Some j \<Longrightarrow> j \<in> set (l_Successors (e_Lanes e ! i))"
  by (auto simp: pickSuccessor_def routeNextHop_def Let_def split: list.splits if_splits prod.splits option.splits)

lemma pick_None: "fst (pickSuccessor e rc i v) = None \<longleftrightarrow> l_Successors (e_Lanes e ! i) = []"
  by (simp add: pickSuccessor_def Let_def split: list.split prod.split option.split)

subsection \<open>The sweep\<close>

lemma flt_not_fle: "flt a b \<Longrightarrow> \<not> fle b a"
proof -
  assume l: "flt a b"
  then have "\<not> flt b a" by (rule flt_asym)
  moreover have "\<not> feq b a"
    using l by (auto simp: flt_def feq_def Let_def min.commute split: fval.splits)
  ultimately show ?thesis by (simp add: fle_def)
qed

lemma note_order: "e_order (noteLaneLeave k e) = (e_order e)[k := clocked e (e_order e ! k)]"
  by (simp add: noteLaneLeave_def clocked_def Let_def)

definition net_closed :: "Engine \<Rightarrow> bool" where
  "net_closed e \<longleftrightarrow> (\<forall>i < length (e_Lanes e). \<forall>j \<in> set (l_Successors (e_Lanes e ! i)). j < length (e_Lanes e)) \<and>
     (\<forall>v \<in> set (e_order e). v_Lane v < length (e_Lanes e))"

text \<open>
  The invariant of the sweep: lanes from \<open>i\<close> on are done except for the vehicles \<open>rs\<close> of lane \<open>i\<close>;
  a vehicle still waiting in a bucket has its whole journey before it, any other one has its result.
\<close>

definition waiting :: "nat \<Rightarrow> nat list \<Rightarrow> boundary_run \<Rightarrow> nat \<Rightarrow> bool" where
  "waiting i rs b k \<longleftrightarrow> k \<in> set rs \<or> (\<exists>j < i. k \<in> set (b_past b j))"

definition outcome :: "Engine \<Rightarrow> nat \<Rightarrow> nat list \<Rightarrow> boundary_run \<Rightarrow> nat \<Rightarrow> Vehicle option" where
  "outcome e0 i rs b k =
     (if k \<in> set (b_gone b) then None
      else if waiting i rs b k then travel e0 (e_order (b_eng b) ! k) else Some (e_order (b_eng b) ! k))"

definition bucket_ok :: "Engine \<Rightarrow> boundary_run \<Rightarrow> nat \<Rightarrow> nat list \<Rightarrow> bool" where
  "bucket_ok e0 b j ks \<longleftrightarrow> distinct ks \<and>
     (\<forall>k \<in> set ks. k < length (e_order e0) \<and> k \<notin> set (b_gone b) \<and> v_Lane (e_order (b_eng b) ! k) = j \<and>
        past_end e0 (e_order (b_eng b) ! k))"

definition swept :: "Engine \<Rightarrow> nat \<Rightarrow> nat list \<Rightarrow> boundary_run \<Rightarrow> bool" where
  "swept e0 i rs b \<longleftrightarrow>
     same_routing e0 (b_eng b) \<and> cache_ok (b_eng b) (b_cache b) \<and>
     length (e_order (b_eng b)) = length (e_order e0) \<and>
     distinct (b_gone b) \<and> set (b_gone b) \<subseteq> {..<length (e_order e0)} \<and> b_Despawned b = length (b_gone b) \<and>
     (\<forall>k < length (e_order e0). v_Lane (e_order (b_eng b) ! k) < length (e_Lanes e0) \<and>
        outcome e0 i rs b k = travel e0 (e_order e0 ! k)) \<and>
     bucket_ok e0 b i rs \<and> (\<forall>j < i. bucket_ok e0 b j (b_past b j))"

text \<open>One vehicle of the bucket is handled: it leaves, or it is put back one lane lower, or it is settled.\<close>

lemma swept_update:
  assumes sw: "swept e0 i (k # rs) b"
    and eng: "same_routing e0 (b_eng b')" "cache_ok (b_eng b') (b_cache b')"
    and ord: "e_order (b_eng b') = (e_order (b_eng b))[k := w]" "v_Lane w < length (e_Lanes e0)"
    and gone: "b_gone b' = (if g then b_gone b @ [k] else b_gone b)" "b_Despawned b' = length (b_gone b')"
    and past: "b_past b' = (if r then (b_past b)(v_Lane w := b_past b (v_Lane w) @ [k]) else b_past b)"
    and requeue: "r \<Longrightarrow> v_Lane w < i \<and> past_end e0 w \<and> \<not> g"
    and res: "travel e0 (e_order (b_eng b) ! k) = (if g then None else if r then travel e0 w else Some w)"
  shows "swept e0 i rs b'"
proof -
  let ?n = "length (e_order e0)"
  have k: "k < ?n" "k \<notin> set (b_gone b)" "v_Lane (e_order (b_eng b) ! k) = i" "k \<notin> set rs" "distinct rs"
    using sw by (auto simp: swept_def bucket_ok_def)
  have low: "k \<notin> set (b_past b j)" if "j < i" for j
    using sw that k(3) by (auto simp: swept_def bucket_ok_def)
  have len: "length (e_order (b_eng b)) = ?n" using sw by (simp add: swept_def)
  have nth: "e_order (b_eng b') ! m = (if m = k then w else e_order (b_eng b) ! m)" if "m < ?n" for m
    using that len ord(1) by (simp add: nth_list_update)
  have wait: "waiting i rs b' m \<longleftrightarrow> (if m = k then r else waiting i (k # rs) b m)" for m
  proof -
    have "m \<in> set (b_past b' j) \<longleftrightarrow> m \<in> set (b_past b j) \<or> r \<and> j = v_Lane w \<and> m = k" for j
      using past by auto
    then show ?thesis using requeue low k(4) unfolding waiting_def by (cases "m = k") auto
  qed
  have out: "outcome e0 i rs b' m = travel e0 (e_order e0 ! m)" if m: "m < ?n" for m
  proof (cases "m = k")
    case True
    have "outcome e0 i (k # rs) b k = travel e0 (e_order (b_eng b) ! k)" using k(2) by (simp add: outcome_def waiting_def)
    then have "travel e0 (e_order e0 ! k) = (if g then None else if r then travel e0 w else Some w)"
      using sw k(1) res by (simp add: swept_def)
    then show ?thesis using True nth [OF k(1)] wait k(2) gone(1) requeue by (simp add: outcome_def)
  next
    case False
    then have "outcome e0 i rs b' m = outcome e0 i (k # rs) b m"
      using nth [OF m] wait gone(1) by (simp add: outcome_def)
    then show ?thesis using sw m by (simp add: swept_def)
  qed
  have keep: "bucket_ok e0 b' j ks" if "bucket_ok e0 b j ks" "k \<notin> set ks" for j ks
    using that nth gone(1) by (auto simp: bucket_ok_def)
  have "bucket_ok e0 b' i rs" using sw k(4) by (intro keep) (auto simp: swept_def bucket_ok_def)
  moreover have "bucket_ok e0 b' j (b_past b' j)" if j: "j < i" for j
  proof (cases "r \<and> j = v_Lane w")
    case True
    then have "bucket_ok e0 b' j (b_past b j)" using sw j low by (intro keep) (auto simp: swept_def)
    then show ?thesis
      using True past requeue low [OF j] k(1,2) gone(1) nth [OF k(1)] by (auto simp: bucket_ok_def)
  next
    case False
    then have "b_past b' j = b_past b j" using past by auto
    then show ?thesis using sw j low by (auto intro!: keep simp: swept_def)
  qed
  moreover have "v_Lane (e_order (b_eng b') ! m) < length (e_Lanes e0)" if "m < ?n" for m
    using nth [OF that] ord(2) sw that by (auto simp: swept_def)
  moreover have "distinct (b_gone b')" "set (b_gone b') \<subseteq> {..<?n}" using sw k(1,2) gone(1) by (auto simp: swept_def)
  ultimately show ?thesis
    using eng ord(1) len gone(2) out by (simp add: swept_def)
qed

lemma swept_counters [simp]:
  "swept e0 i rs (b\<lparr>b_Arrived := x\<rparr>) = swept e0 i rs b"
  "swept e0 i rs (b\<lparr>b_WallHits := x\<rparr>) = swept e0 i rs b"
  "swept e0 i rs (b\<lparr>b_CrossOverlaps := x\<rparr>) = swept e0 i rs b"
  by (simp_all add: swept_def outcome_def waiting_def bucket_ok_def)

lemma swept_head:
  assumes "swept e0 i (k # rs) b"
  shows "k < length (e_order e0)" and "k \<notin> set (b_gone b)" and "v_Lane (e_order (b_eng b) ! k) = i"
    and "past_end e0 (e_order (b_eng b) ! k)" and "same_routing e0 (b_eng b)" and "cache_ok (b_eng b) (b_cache b)"
    and "length (e_order (b_eng b)) = length (e_order e0)" and "b_Despawned b = length (b_gone b)"
  using assms by (auto simp: swept_def bucket_ok_def)

lemma settle_swept:
  assumes "swept e0 i (k # rs) b" and "travel e0 (e_order (b_eng b) ! k) = Some w" and "v_Lane w < length (e_Lanes e0)"
  shows "swept e0 i rs (b\<lparr>b_eng := set_vehicle k w (b_eng b)\<rparr>)"
proof (rule swept_update [OF assms(1), where g = False and r = False and w = w])
  note h = swept_head [OF assms(1)]
  show "same_routing e0 (b_eng (b\<lparr>b_eng := set_vehicle k w (b_eng b)\<rparr>))"
    using same_routing_trans [OF h(5)] by simp
  show "cache_ok (b_eng (b\<lparr>b_eng := set_vehicle k w (b_eng b)\<rparr>)) (b_cache (b\<lparr>b_eng := set_vehicle k w (b_eng b)\<rparr>))"
    using cache_ok_same [OF _ h(6)] by simp
qed (use assms swept_head [OF assms(1)] in \<open>simp_all add: set_vehicle_def\<close>)

lemma depart_swept:
  assumes "swept e0 i (k # rs) b" and "travel e0 (e_order (b_eng b) ! k) = None" and "i < length (e_Lanes e0)"
  shows "swept e0 i rs (depart k b)"
proof (rule swept_update [OF assms(1), where g = True and r = False and w = "clocked (b_eng b) (e_order (b_eng b) ! k)"])
  note h = swept_head [OF assms(1)]
  show "same_routing e0 (b_eng (depart k b))" using same_routing_trans [OF h(5)] by (simp add: depart_def)
  show "cache_ok (b_eng (depart k b)) (b_cache (depart k b))" using cache_ok_same [OF _ h(6)] by (simp add: depart_def)
  show "v_Lane (clocked (b_eng b) (e_order (b_eng b) ! k)) < length (e_Lanes e0)"
    using h(3) assms(3) by (simp add: clocked_def)
qed (use assms swept_head [OF assms(1)] in \<open>simp_all add: depart_def note_order\<close>)

lemma cross_swept:
  assumes sw: "swept e0 i (k # rs) b" and i: "i < length (e_Lanes e0)" and net: "net_closed e0"
    and succ: "l_Successors (e_Lanes e0 ! i) \<noteq> []"
    and stay: "\<not> (l_Exit (e_Lanes e0 ! i) \<or> v_Route (e_order (b_eng b) ! k) \<noteq> [] \<and>
      v_Route (e_order (b_eng b) ! k) = l_ID (e_Lanes e0 ! i))"
  shows "swept e0 i rs (cross occ i k b)"
proof -
  note h = swept_head [OF sw]
  let ?e = "b_eng b" and ?v = "e_order (b_eng b) ! k"
  let ?v1 = "?v\<lparr>v_S := fsub (v_S ?v) (l_Length (e_Lanes e0 ! i))\<rparr>"
  let ?e1 = "set_vehicle k ?v1 ?e"
  note L = same_routing_lanes(2) [OF h(5) i]
  have s1: "same_routing e0 ?e1" using same_routing_trans [OF h(5)] by simp
  have c1: "cache_ok ?e1 (b_cache b)" using cache_ok_same [OF _ h(6)] by simp
  have i1: "i < length (e_Lanes ?e1)" using i same_routing_lanes(1) [OF s1] by simp
  obtain j rc where p: "pickSuccessor ?e1 (b_cache b) i ?v1 = (Some j, rc)"
  proof (cases "pickSuccessor ?e1 (b_cache b) i ?v1")
    case (Pair o1 rc)
    moreover have "o1 \<noteq> None"
      using pick_None [of ?e1 "b_cache b" i ?v1] Pair succ same_routing_lanes(2) [OF s1 i] by auto
    ultimately show thesis using that by auto
  qed
  have pe: "fst (pickSuccessor e0 cold i ?v1) = Some j"
    using pick_same [OF s1 c1 i, of ?v1 ?v1] p by simp
  have j: "j < length (e_Lanes e0)" using pick_in [OF pe] net i by (auto simp: net_closed_def)
  have rc: "cache_ok ?e1 rc" using pick_cache_ok [OF c1 i1, of ?v1] p by simp
  let ?e2 = "noteLaneLeave k ?e1"
  have s2: "same_routing e0 ?e2" using same_routing_trans [OF s1] by simp
  have at1: "e_order ?e1 ! k = ?v1" using h(1,7) by (simp add: set_vehicle_def)
  have at2: "e_order ?e2 ! k = clocked e0 ?v1"
    using h(1,7) by (simp add: note_order at1 clocked_same [OF s1]) (simp add: set_vehicle_def)
  let ?w = "enter_lane e0 j (clocked e0 ?v1)"
  let ?e3 = "set_vehicle k ?w ?e2"
  have s3: "same_routing e0 ?e3" using same_routing_trans [OF s2] by simp
  have c3: "cache_ok ?e3 rc" using rc by (blast intro: cache_ok_same same_routing_note same_routing_set)
  let ?r = "j < i \<and> past_end e0 ?w"
  let ?b = "b\<lparr>b_eng := ?e3, b_cache := rc, b_past := (if ?r then (b_past b)(j := b_past b j @ [k]) else b_past b)\<rparr>"
  have b: "cross occ i k b = ?b\<lparr>b_CrossOverlaps := b_CrossOverlaps b + (if lands_on ?e1 (occ j) ?v1 then 1 else 0)\<rparr>"
    using L p j past_end_same [OF s3, of ?w] by (simp add: cross_def Let_def at2 enter_lane_same [OF s2 j])
  have t: "travel e0 ?v = (if j < i then travel e0 ?w else Some ?w)"
    using h(3,4) stay pe by (auto simp: travel.simps [of e0 ?v] Let_def)
  have "swept e0 i rs ?b"
  proof (rule swept_update [OF sw, where g = False and r = ?r and w = ?w])
    show "travel e0 ?v = (if False then None else if ?r then travel e0 ?w else Some ?w)"
      using t by (simp add: travel.simps [of e0 ?w])
  qed (use s3 c3 j h(8) in \<open>auto simp: set_vehicle_def note_order\<close>)
  then show ?thesis by (simp add: b)
qed

lemma boundary_one_swept:
  assumes sw: "swept e0 i (k # rs) b" and i: "i < length (e_Lanes e0)" and net: "net_closed e0"
  shows "swept e0 i rs (boundary_one occ i b k)"
proof -
  let ?e = "b_eng b" and ?v = "e_order (b_eng b) ! k" and ?l = "e_Lanes e0 ! i"
  note h = swept_head [OF sw] and L = same_routing_lanes(2) [OF swept_head(5) [OF sw] i]
  have go: "\<not> (k \<in> set (b_gone b) \<or> v_Lane ?v \<noteq> i \<or> fle (v_S ?v) (l_Length (e_Lanes ?e ! i)))"
    using h L flt_not_fle by (simp add: past_end_def)
  note step = boundary_one_def [of occ i b k, unfolded Let_def if_not_P [OF go]]
  note T = travel.simps [of e0 ?v, unfolded Let_def h(3)]
  show ?thesis
  proof (cases "l_Exit ?l \<or> v_Route ?v \<noteq> [] \<and> v_Route ?v = l_ID ?l")
    case True
    then have "boundary_one occ i b k = depart k b \<or>
        boundary_one occ i b k = (depart k b)\<lparr>b_Arrived := Suc (b_Arrived b)\<rparr>"
      using step L by auto
    moreover have "travel e0 ?v = None" using True T h(4) by auto
    ultimately show ?thesis using depart_swept [OF sw _ i] by auto
  next
    case stay: False
    show ?thesis
    proof (cases "l_Successors ?l = []")
      case True
      then have "fst (pickSuccessor e0 cold i v) = None" for v by (simp add: pick_None)
      then have t: "travel e0 ?v = (if l_EndWall ?l then Some (?v\<lparr>v_S := l_Length ?l, v_V := 0\<rparr>) else Some ?v)"
        using T h(4) stay by auto
      have one: "boundary_one occ i b k = (if l_EndWall ?l
          then b\<lparr>b_eng := set_vehicle k (?v\<lparr>v_S := l_Length ?l, v_V := 0\<rparr>) ?e, b_WallHits := Suc (b_WallHits b)\<rparr> else b)"
        using step L stay True by auto
      have "b\<lparr>b_eng := set_vehicle k ?v ?e\<rparr> = b" by (simp add: set_vehicle_def)
      then show ?thesis
        using one t settle_swept [OF sw, of ?v] settle_swept [OF sw, of "?v\<lparr>v_S := l_Length ?l, v_V := 0\<rparr>"] h(3) i
        by (cases "l_EndWall ?l") simp_all
    next
      case False
      moreover have "boundary_one occ i b k = cross occ i k b" using step L stay False by auto
      ultimately show ?thesis using cross_swept [OF sw i net False stay] by simp
    qed
  qed
qed

lemma boundary_lane_swept:
  assumes "swept e0 (Suc i) [] b" and i: "i < length (e_Lanes e0)" and net: "net_closed e0"
  shows "swept e0 i [] (boundary_lane occ b i)"
proof -
  let ?b = "b\<lparr>b_past := (b_past b)(i := [])\<rparr>"
  have "waiting i (b_past b i) ?b k = waiting (Suc i) [] b k" for k
    by (auto simp: waiting_def less_Suc_eq)
  then have "outcome e0 i (b_past b i) ?b k = outcome e0 (Suc i) [] b k" for k
    by (simp add: outcome_def)
  then have "swept e0 i (b_past b i) ?b"
    using assms(1) by (simp add: swept_def bucket_ok_def less_Suc_eq)
  moreover have "swept e0 i ks c \<Longrightarrow> swept e0 i [] (foldl (boundary_one occ i) c ks)" for ks c
  proof (induction ks arbitrary: c)
    case (Cons k ks)
    then show ?case using boundary_one_swept [OF _ i net] by simp
  qed simp
  ultimately show ?thesis by (simp add: boundary_lane_def)
qed

lemma boundary_sweep:
  assumes net: "net_closed e0"
  shows "m \<le> length (e_Lanes e0) \<Longrightarrow> swept e0 m [] b \<Longrightarrow>
    swept e0 0 [] (foldl (boundary_lane occ) b (rev [0..<m]))"
proof (induction m arbitrary: b)
  case (Suc m)
  then show ?case using boundary_lane_swept [OF Suc.prems(2) _ net, of occ] by simp
qed simp

lemma boundary_start_swept:
  assumes net: "net_closed e" and ok: "cache_ok e rc"
  shows "swept e (length (e_Lanes e)) [] (boundary_start e rc)"
proof -
  let ?b = "boundary_start e rc"
  have l: "v_Lane (e_order e ! k) < length (e_Lanes e)" if "k < length (e_order e)" for k
    using net that by (auto simp: net_closed_def)
  have w: "waiting (length (e_Lanes e)) [] ?b k \<longleftrightarrow> past_end e (e_order e ! k)" if "k < length (e_order e)" for k
    using that l [OF that] by (auto simp: waiting_def boundary_start_def)
  have "outcome e (length (e_Lanes e)) [] ?b k = travel e (e_order e ! k)" if "k < length (e_order e)" for k
    using w [OF that] by (auto simp: outcome_def travel.simps [of e "e_order e ! k"] boundary_start_def)
  then show ?thesis
    using ok l by (auto simp: swept_def bucket_ok_def boundary_start_def)
qed

lemma boundary_core:
  assumes net: "net_closed e" and ok: "cache_ok e rc"
  shows "e_order (b_eng (boundaries occ e rc)) = List.map_filter (travel e) (e_order e) \<and>
    b_Despawned (boundaries occ e rc) + length (e_order (b_eng (boundaries occ e rc))) = length (e_order e) \<and>
    same_routing e (b_eng (boundaries occ e rc)) \<and> cache_ok (b_eng (boundaries occ e rc)) (b_cache (boundaries occ e rc))"
proof -
  let ?b = "foldl (boundary_lane occ) (boundary_start e rc) (rev [0..<length (e_Lanes e)])"
  have sw: "swept e 0 [] ?b" by (rule boundary_sweep [OF net order.refl boundary_start_swept [OF assms]])
  have out: "(if k \<in> set (b_gone ?b) then None else Some (e_order (b_eng ?b) ! k)) = travel e (e_order e ! k)"
    if "k < length (e_order e)" for k
    using sw that by (auto simp: swept_def outcome_def waiting_def)
  let ?keep = "\<lambda>k. k \<notin> set (b_gone ?b)"
  have len: "length (e_order (b_eng ?b)) = length (e_order e)" using sw by (simp add: swept_def)
  have "map (\<lambda>k. e_order (b_eng ?b) ! k) (filter ?keep [0..<length (e_order e)]) =
      List.map_filter (\<lambda>k. travel e (e_order e ! k)) [0..<length (e_order e)]"
    unfolding map_filter_def
  proof (rule map_cong)
    have "travel e (e_order e ! k) \<noteq> None \<longleftrightarrow> ?keep k" if "k < length (e_order e)" for k
      using out [OF that, symmetric] by simp
    then show "filter ?keep [0..<length (e_order e)] = filter (\<lambda>k. travel e (e_order e ! k) \<noteq> None) [0..<length (e_order e)]"
      by (intro filter_cong) auto
  next
    fix k assume "k \<in> set (filter (\<lambda>k. travel e (e_order e ! k) \<noteq> None) [0..<length (e_order e)])"
    then show "e_order (b_eng ?b) ! k = (the \<circ> (\<lambda>k. travel e (e_order e ! k))) k"
      using out [of k, symmetric] by (auto split: if_splits)
  qed
  also have "\<dots> = List.map_filter (travel e) (map (\<lambda>k. e_order e ! k) [0..<length (e_order e)])"
    by (simp add: map_filter_def filter_map comp_def)
  also have "\<dots> = List.map_filter (travel e) (e_order e)" by (simp add: map_nth)
  finally have m: "map (\<lambda>k. e_order (b_eng ?b) ! k) (filter ?keep [0..<length (e_order e)]) =
      List.map_filter (travel e) (e_order e)" .
  have eng: "b_eng (boundaries occ e rc) = (if b_gone ?b = [] then b_eng ?b else dropDespawned (b_gone ?b) (b_eng ?b))"
    and rest: "b_cache (boundaries occ e rc) = b_cache ?b" "b_Despawned (boundaries occ e rc) = b_Despawned ?b"
    by (simp_all add: boundaries_def Let_def)
  have "e_order (b_eng ?b) = map (\<lambda>k. e_order (b_eng ?b) ! k) [0..<length (e_order e)]"
    using map_nth [of "e_order (b_eng ?b)"] len by simp
  then have ord: "e_order (b_eng (boundaries occ e rc)) = List.map_filter (travel e) (e_order e)"
    using m by (cases "b_gone ?b = []") (simp_all add: eng dropDespawned_def len)
  have "length (filter ?keep [0..<length (e_order e)]) + length (b_gone ?b) = length (e_order e)"
  proof -
    have "distinct (b_gone ?b)" "set (b_gone ?b) \<subseteq> {..<length (e_order e)}" using sw by (auto simp: swept_def)
    then have "length (filter (\<lambda>k. \<not> ?keep k) [0..<length (e_order e)]) = length (b_gone ?b)"
      by (auto simp: distinct_card [symmetric] intro!: arg_cong [where f = card])
    then show ?thesis using sum_length_filter_compl [of ?keep "[0..<length (e_order e)]"] by simp
  qed
  then have "b_Despawned ?b + length (e_order (b_eng (boundaries occ e rc))) = length (e_order e)"
    using sw ord m by (simp add: swept_def) (metis add.commute length_map)
  moreover have "same_routing (b_eng ?b) (b_eng (boundaries occ e rc))"
    by (simp add: eng dropDespawned_def same_routing_def same_roads_def)
  moreover have "same_routing e (b_eng ?b)" "cache_ok (b_eng ?b) (b_cache ?b)" using sw by (simp_all add: swept_def)
  ultimately show ?thesis
    using ord same_routing_trans cache_ok_same unfolding rest by blast
qed

section \<open>Speeds and lanes after a move\<close>

lemma flt_zero: "\<not> flt 0 0"
  by (rule flt_irrefl)

lemma integrate_forward: "v \<in> set (e_order (integrate e)) \<Longrightarrow> \<not> flt (v_V v) 0"
  by (auto simp: integrate_def integrate_one_def Let_def flt_zero)

lemma travel_forward: "travel e v = Some w \<Longrightarrow> \<not> flt (v_V v) 0 \<Longrightarrow> \<not> flt (v_V w) 0"
proof (induction e v rule: travel.induct)
  case (1 e v)
  have keep: "v_V (enter_lane e j (clocked e (v\<lparr>v_S := s\<rparr>))) = v_V v" for j s
    by (simp add: enter_lane_def clocked_def Let_def)
  show ?case
    using "1.prems" "1.IH" keep
    by (auto simp: travel.simps [of e v] Let_def flt_zero split: if_splits option.splits)
qed

lemma travel_lane:
  "travel e v = Some w \<Longrightarrow> net_closed e \<Longrightarrow> v_Lane v < length (e_Lanes e) \<Longrightarrow> v_Lane w < length (e_Lanes e)"
proof (induction e v rule: travel.induct)
  case (1 e v)
  have "j < length (e_Lanes e)" if "fst (pickSuccessor e cold (v_Lane v) u) = Some j" for j u
    using pick_in [OF that] "1.prems"(2,3) by (auto simp: net_closed_def)
  then show ?case
    using "1.prems" "1.IH" by (auto simp: travel.simps [of e v] Let_def split: if_splits option.splits)
qed

lemma integrate_closed: "net_closed e \<Longrightarrow> net_closed (integrate e)"
  by (auto simp: net_closed_def integrate_def integrate_one_def Let_def)

lemma integrate_routing: "same_routing e (integrate e)"
  by (simp add: same_routing_def same_roads_def integrate_def)

subsection \<open>Four vehicles on two lanes\<close>

definition exit_net :: Network where
  "exit_net = \<lparr>n_Lanes = [demo_lane, demo_lane\<lparr>l_ID := ''b'', l_Exit := False, l_Successors := [0]\<rparr>],
     n_Origins = [1], n_Signals = []\<rparr>"

definition placed :: "u64 \<Rightarrow> nat \<Rightarrow> int \<Rightarrow> Vehicle" where
  "placed vid lane s = (demo_vehicle vid)\<lparr>v_Lane := lane, v_S := f64_lit s 1\<rparr>"

definition exit_engine :: Engine where
  "exit_engine = demo_engine\<lparr>e_Net := exit_net,
     e_order := [placed 1 0 120, placed 2 1 120, placed 3 1 50, placed 4 1 210]\<rparr>"

lemma exit_closed: "net_closed exit_engine"
  by (simp add: net_closed_def exit_engine_def exit_net_def placed_def demo_lane_def demo_vehicle_def less_Suc_eq)

lemma exit_travel:
  "map (\<lambda>v. map_option (\<lambda>w. (v_ID w, v_Lane w)) (travel exit_engine v)) (e_order exit_engine) =
     [None, Some (2, 0), Some (3, 1), None]"
  by code_simp

lemma exit_survivors: "map (\<lambda>v. (v_ID v, v_Lane v)) (List.map_filter (travel exit_engine) (e_order exit_engine)) = [(2, 0), (3, 1)]"
proof -
  let ?vs = "e_order exit_engine" and ?f = "\<lambda>w :: Vehicle. (v_ID w, v_Lane w)"
  have "map ?f (List.map_filter (travel exit_engine) vs) = map the (filter (\<lambda>x. x \<noteq> None) (map (\<lambda>v. map_option ?f (travel exit_engine v)) vs))" for vs
    by (induction vs) (auto simp: map_filter_simps split: option.split)
  then show ?thesis by (simp add: exit_travel)
qed

text \<open>
  Two vehicles leave the one lane in the same tick after dwelling 25 s and 10 s; only their place in
  the population differs between the two engines.
\<close>

definition dwell_engine :: "u64 list \<Rightarrow> Engine" where
  "dwell_engine ids = demo_engine\<lparr>e_Params := demo_params\<lparr>p_Dt := f64_lit 1 1, p_AdaptiveRouting := True\<rparr>,
     e_order := map (\<lambda>i. (placed i 0 120)\<lparr>v_laneEntryTick := (if i = 1 then 0 else 15)\<rparr>) ids\<rparr>"

lemma dwell_past: "flt (f64_lit 100 1) (f64_lit 120 1)" "\<not> fle (f64_lit 120 1) (f64_lit 100 1)" by code_simp+

lemma upt_small: "[0..<2] = [0, 1 :: nat]" "[0..<1] = [0 :: nat]" by (simp_all add: upt_rec)

lemma dwell_exit: "e_Lanes (dwell_engine ids) = [demo_lane]" "l_Exit demo_lane" "l_Length demo_lane = f64_lit 100 1"
    "e_order (dwell_engine [i, j]) = [(placed i 0 120)\<lparr>v_laneEntryTick := (if i = 1 then 0 else 15)\<rparr>, (placed j 0 120)\<lparr>v_laneEntryTick := (if j = 1 then 0 else 15)\<rparr>]"
    "v_Lane (placed i l s) = l" "v_S (placed i l s) = f64_lit s 1"
  by (simp_all add: dwell_engine_def demo_engine_def demo_net_def demo_lane_def placed_def)

lemma dwell_boundaries: "b_eng (boundaries occ (dwell_engine [i, j]) cold) = dropDespawned [0, 1] (noteLaneLeave 1 (noteLaneLeave 0 (dwell_engine [i, j])))"
proof -
  let ?e = "dwell_engine [i, j]"
  have st: "b_past (boundary_start ?e cold) 0 = [0, 1]"
    by (simp add: boundary_start_def dwell_exit upt_small past_end_def dwell_past)
  have one: "boundary_one occ 0 b 0 = depart 0 b" if "b_eng b = ?e" "b_gone b = []" for b
    using that by (simp add: boundary_one_def Let_def dwell_exit dwell_past)
  have two: "boundary_one occ 0 b 1 = depart 1 b" if "b_eng b = noteLaneLeave 0 ?e" "b_gone b = [0]" for b
    using that same_routing_lanes(2) [OF same_routing_note [of ?e 0], of 0]
    by (simp add: boundary_one_def Let_def dwell_exit dwell_past note_order)
  have "boundaries occ ?e cold = b\<lparr>b_eng := dropDespawned (b_gone b) (b_eng b)\<rparr>"
    if "b = depart 1 (depart 0 ((boundary_start ?e cold)\<lparr>b_past := (b_past (boundary_start ?e cold))(0 := [])\<rparr>))" for b
    using that one [of "(boundary_start ?e cold)\<lparr>b_past := (b_past (boundary_start ?e cold))(0 := [])\<rparr>"]
      two [of "depart 0 ((boundary_start ?e cold)\<lparr>b_past := (b_past (boundary_start ?e cold))(0 := [])\<rparr>)"]
    by (simp add: boundaries_def Let_def dwell_exit upt_small boundary_lane_def st) (simp add: depart_def boundary_start_def)
  then show ?thesis by (simp add: depart_def boundary_start_def)
qed

lemma dwell_forth: "map l_ttEMA (e_Lanes (noteLaneLeave 1 (noteLaneLeave 0 (dwell_engine [1, 2])))) = [f64_lit 255 64]" by code_simp

lemma dwell_back: "map l_ttEMA (e_Lanes (noteLaneLeave 1 (noteLaneLeave 0 (dwell_engine [2, 1])))) = [f64_lit 270 64]" by code_simp

section \<open>Properties\<close>

text \<open>
  C6: (equivalence) The bucketed sweep of lane ends equals handling every vehicle on its own: the
  population afterwards is, in order, what each vehicle's own journey makes of it (out at an exit or
  at its destination, across to the routed successor as often as lane ends lie before it, or to the
  wall), whatever the others do and whatever the route cache holds; each vehicle that leaves is
  counted once.
\<close>

theorem boundary_independent:
  assumes "net_closed e" and "live e rc"
  shows "e_order (b_eng (boundaries occ e rc)) = List.map_filter (travel e) (e_order e) \<and>
    b_Despawned (boundaries occ e rc) + length (e_order (b_eng (boundaries occ e rc))) = length (e_order e)"
  using boundary_core [OF assms(1) live_ok [OF assms(2)]] by blast

theorem boundary_independent_witness:
  "map (\<lambda>v. (v_ID v, v_Lane v)) (e_order (b_eng (boundaries (\<lambda>_. []) exit_engine cold))) = [(2, 0), (3, 1)] \<and>
   b_Despawned (boundaries (\<lambda>_. []) exit_engine cold) = 2"
proof -
  have "length (List.map_filter (travel exit_engine) (e_order exit_engine)) = 2"
    using arg_cong [OF exit_survivors, of length] by simp
  moreover have "length (e_order exit_engine) = 4" by (simp add: exit_engine_def)
  moreover note boundary_independent [OF exit_closed live.start, of "\<lambda>_. []"]
  ultimately show ?thesis using exit_survivors by (metis Nat.add_diff_assoc2 add_diff_cancel_right' numeral_Bit0)
qed

text \<open>
  C17: (invariant) After the vehicles have moved and lane ends are settled no vehicle has a negative
  speed, every vehicle is on a lane of the network, and the roads, the clock and the frozen routing
  weights are those before the move.
\<close>

theorem motion_invariant:
  assumes "net_closed e" and "live e rc"
  shows "list_all (\<lambda>v. \<not> flt (v_V v) 0) (e_order (b_eng (boundaries occ (integrate e) rc))) \<and>
    net_closed (b_eng (boundaries occ (integrate e) rc)) \<and> same_routing e (b_eng (boundaries occ (integrate e) rc))"
proof -
  have net: "net_closed (integrate e)" using assms(1) by (rule integrate_closed)
  note b = boundary_core [OF net cache_ok_same [OF integrate_routing live_ok [OF assms(2)]], of occ]
  let ?e = "b_eng (boundaries occ (integrate e) rc)"
  have w: "\<exists>v. v \<in> set (e_order (integrate e)) \<and> travel (integrate e) v = Some w" if "w \<in> set (e_order ?e)" for w
    using that b by (auto simp: map_filter_def)
  have "\<not> flt (v_V w) 0" if "w \<in> set (e_order ?e)" for w
    using w [OF that] travel_forward integrate_forward by blast
  moreover have "v_Lane w < length (e_Lanes (integrate e))" if "w \<in> set (e_order ?e)" for w
    using w [OF that] travel_lane [OF _ net] net by (auto simp: net_closed_def)
  moreover have s: "same_routing (integrate e) ?e" using b by blast
  moreover have "net_closed ?e"
    using net same_routing_lanes [OF s] calculation(2) by (simp add: net_closed_def)
  ultimately show ?thesis
    using same_routing_trans [OF integrate_routing s] by (simp add: list_all_iff)
qed

theorem motion_invariant_witness:
  "net_closed (b_eng (boundaries (\<lambda>_. []) (integrate exit_engine) cold)) \<and>
   list_all (\<lambda>v. \<not> flt (v_V v) 0) (e_order (b_eng (boundaries (\<lambda>_. []) (integrate exit_engine) cold)))"
  using motion_invariant [OF exit_closed live.start] by simp

text \<open>
  C0: (counterexample to the comment on \<open>boundaries\<close>) The handling of lane ends is not independent
  of the order: two populations that differ only in the place of two departing vehicles leave
  different travel-time estimates behind, because each departure folds its dwell into the lane.
\<close>

text \<open>
  (counterexample to the comment on \<open>boundaries\<close>) The handling of lane ends is not independent
  of the order: two populations that differ only in the place of two departing vehicles leave
  different travel-time estimates behind, because each departure folds its dwell into the lane.
\<close>

theorem dwell_order_matters:
  "map l_ttEMA (e_Lanes (b_eng (boundaries occ (dwell_engine [1, 2]) cold))) \<noteq>
   map l_ttEMA (e_Lanes (b_eng (boundaries occ (dwell_engine [2, 1]) cold)))"
proof -
  have "f64_lit 255 64 \<noteq> f64_lit 270 64" by code_simp
  then show ?thesis by (simp add: dwell_boundaries dropDespawned_def dwell_forth [simplified] dwell_back [simplified])
qed

end
