(* ===== verification/Occupancy.thy ===== *)
theory Occupancy
  imports Motion
begin

text \<open>
  Lane occupancy and the neighbour searches of \<open>engine/engine.go\<close>, \<open>mobil.go\<close> and \<open>spawn.go\<close>.
  \<open>lane.vehs\<close> is a list of positions in \<open>e_order\<close> per lane index. Searches that do not change the
  state read the branch a vehicle would take through \<open>branch\<close>, the choice of \<open>pickSuccessor\<close>: by
  \<open>route_cache_invisible\<close> it does not depend on what the route cache holds.
\<close>

lemma nth_map_eq: "map f xs = map f ys \<Longrightarrow> f (xs ! k) = f (ys ! k)"
proof (induction xs arbitrary: ys k)
  case (Cons x xs)
  from Cons.prems obtain y zs where y: "ys = y # zs" "f x = f y" "map f xs = map f zs" by (cases ys) simp_all
  show ?case
  proof (cases k)
    case 0
    then show ?thesis using y(1,2) by simp
  next
    case (Suc j)
    then show ?thesis using y(1) Cons.IH [OF y(3), of j] by simp
  qed
qed simp

type_synonym occupancy = "nat \<Rightarrow> nat list"

record LeaderInfo =
  li_OK :: bool
  li_Gap :: f64
  li_V :: f64

definition no_leader :: LeaderInfo where "no_leader = \<lparr>li_OK = False, li_Gap = 0, li_V = 0\<rparr>"

definition veh :: "Engine \<Rightarrow> nat \<Rightarrow> Vehicle" where "veh e k = e_order e ! k"
definition vtype :: "Engine \<Rightarrow> Vehicle \<Rightarrow> VehicleType" where "vtype e v = e_Types e ! v_TypeIdx v"
definition vlen :: "Engine \<Rightarrow> nat \<Rightarrow> f64" where "vlen e k = vt_Length (vtype e (veh e k))"

definition branch :: "Engine \<Rightarrow> nat \<Rightarrow> Vehicle \<Rightarrow> nat" where
  "branch e i v = (case fst (pickSuccessor e cold i v) of Some j \<Rightarrow> j | None \<Rightarrow> i)"

definition baseLaneHops :: nat where "baseLaneHops = 4"
definition maxLaneHops :: nat where "maxLaneHops = 12"
definition maxSightM :: f64 where "maxSightM = f64_lit 100 1"

subsection \<open>The sorted lists\<close>

definition behind :: "Engine \<Rightarrow> nat \<Rightarrow> nat \<Rightarrow> bool" where
  "behind e k m =
     (if \<not> feq (v_S (veh e k)) (v_S (veh e m)) then flt (v_S (veh e k)) (v_S (veh e m))
      else v_ID (veh e k) < v_ID (veh e m))"

definition rebuildOccupancy :: "Engine \<Rightarrow> occupancy" where
  "rebuildOccupancy e i =
     stable_sort (behind e) (filter (\<lambda>k. v_Lane (veh e k) = i) [0..<length (e_order e)])"

definition first_beyond :: "Engine \<Rightarrow> f64 \<Rightarrow> nat list \<Rightarrow> nat" where
  "first_beyond e s a = sort_search (\<lambda>i. flt s (v_S (veh e (a ! i)))) 0 (length a)"

definition insert_at :: "nat \<Rightarrow> 'a \<Rightarrow> 'a list \<Rightarrow> 'a list" where
  "insert_at i x xs = take i xs @ x # drop i xs"

definition insertVehicle :: "Engine \<Rightarrow> nat \<Rightarrow> nat list \<Rightarrow> nat list" where
  "insertVehicle e k a = insert_at (sort_search (\<lambda>i. behind e k (a ! i)) 0 (length a)) k a"

definition removeVehicle :: "Engine \<Rightarrow> nat \<Rightarrow> nat list \<Rightarrow> nat list" where
  "removeVehicle e k a =
     (let i = sort_search (\<lambda>i. fle (v_S (veh e k)) (v_S (veh e (a ! i)))) 0 (length a) in
      take i a @ remove1 k (drop i a))"

text \<open>\<open>register\<close>: the new vehicle joins the population and the occupancy of its lane at once.\<close>

definition register :: "Vehicle \<Rightarrow> Engine \<times> occupancy \<Rightarrow> Engine \<times> occupancy" where
  "register v s =
     (let e = fst s; k = length (e_order e); e' = e\<lparr>e_order := e_order e @ [v]\<rparr>; i = v_Lane v in
      (e', (snd s)(i := insertVehicle e' k (snd s i))))"

subsection \<open>Leaders and followers\<close>

text \<open>The walk past the lane end; \<open>f\<close> counts the hops left of \<open>maxLaneHops\<close>.\<close>

fun leader_walk :: "Engine \<Rightarrow> occupancy \<Rightarrow> nat \<Rightarrow> nat option \<Rightarrow> Vehicle option \<Rightarrow> nat \<Rightarrow> f64 \<Rightarrow> nat \<Rightarrow> LeaderInfo" where
  "leader_walk e occ lane skip probe 0 dist cur = no_leader"
| "leader_walk e occ lane skip probe (Suc f) dist cur =
     (if \<not> (maxLaneHops - Suc f < baseLaneHops \<or> flt dist maxSightM) then no_leader
      else case l_Successors (e_Lanes e ! cur) of
          [] \<Rightarrow> no_leader
        | s # ss \<Rightarrow>
            let j = (case probe of None \<Rightarrow> s | Some p \<Rightarrow> if ss \<noteq> [] then branch e cur p else s);
                probe' = map_option (\<lambda>p. p\<lparr>v_HeldTurn := 0\<rparr>) probe in
            case occ j of
              k # _ \<Rightarrow> if skip = Some k then no_leader
                else \<lparr>li_OK = True, li_Gap = fsub (fadd dist (v_S (veh e k))) (vlen e k), li_V = v_V (veh e k)\<rparr>
            | [] \<Rightarrow> if j = lane then no_leader
                else leader_walk e occ lane skip probe' f (fadd dist (l_Length (e_Lanes e ! j))) j)"

definition leaderAtFor :: "Engine \<Rightarrow> occupancy \<Rightarrow> nat \<Rightarrow> f64 \<Rightarrow> nat option \<Rightarrow> Vehicle option \<Rightarrow> LeaderInfo" where
  "leaderAtFor e occ lane s skip as =
     (case dropWhile (\<lambda>k. Some k = skip) (drop (first_beyond e s (occ lane)) (occ lane)) of
        k # _ \<Rightarrow> \<lparr>li_OK = True, li_Gap = fsub (fsub (v_S (veh e k)) (vlen e k)) s, li_V = v_V (veh e k)\<rparr>
      | [] \<Rightarrow> leader_walk e occ lane skip as maxLaneHops (fsub (l_Length (e_Lanes e ! lane)) s) lane)"

definition leaderAt :: "Engine \<Rightarrow> occupancy \<Rightarrow> nat \<Rightarrow> f64 \<Rightarrow> nat option \<Rightarrow> LeaderInfo" where
  "leaderAt e occ lane s skip = leaderAtFor e occ lane s skip (map_option (veh e) skip)"

definition leader :: "Engine \<Rightarrow> occupancy \<Rightarrow> nat \<Rightarrow> LeaderInfo" where
  "leader e occ k = leaderAt e occ (v_Lane (veh e k)) (v_S (veh e k)) (Some k)"

text \<open>The follower found, the lane it is on and the clear distance to the rear bumper.\<close>

fun prev_walk :: "Engine \<Rightarrow> occupancy \<Rightarrow> nat \<Rightarrow> nat \<Rightarrow> f64 \<Rightarrow> nat \<Rightarrow> (nat \<times> nat \<times> f64) option" where
  "prev_walk e occ lane 0 dist cur = None"
| "prev_walk e occ lane (Suc f) dist cur =
     (if \<not> (maxLaneHops - Suc f < baseLaneHops \<or> flt dist maxSightM) then None
      else case l_Prevs (e_Lanes e ! cur) of
          [] \<Rightarrow> None
        | p # _ \<Rightarrow>
            if p = lane then None
            else let len = l_Length (e_Lanes e ! p) in
              if occ p \<noteq> [] then Some (last (occ p), p, fsub (fadd dist len) (v_S (veh e (last (occ p)))))
              else prev_walk e occ lane f (fadd dist len) p)"

definition prevFollower :: "Engine \<Rightarrow> occupancy \<Rightarrow> nat \<Rightarrow> f64 \<Rightarrow> (nat \<times> nat \<times> f64) option" where
  "prevFollower e occ lane rear = prev_walk e occ lane maxLaneHops rear lane"

definition followerAt :: "Engine \<Rightarrow> occupancy \<Rightarrow> nat \<Rightarrow> f64 \<Rightarrow> (nat \<times> nat \<times> f64) option" where
  "followerAt e occ lane rear =
     (let a = occ lane; i = first_beyond e rear a in
      if 0 < i then Some (a ! (i - 1), lane, fsub rear (v_S (veh e (a ! (i - 1))))) else prevFollower e occ lane rear)"

definition neighbors :: "Engine \<Rightarrow> nat list \<Rightarrow> f64 \<Rightarrow> nat \<Rightarrow> nat option \<times> nat option" where
  "neighbors e a s ex =
     (let i = first_beyond e s a in
      (if i < length a then Some (a ! i) else None,
       if i = 0 then None else if a ! (i - 1) \<noteq> ex then Some (a ! (i - 1))
       else if 1 < i then Some (a ! (i - 2)) else None))"

end
