(* ===== verification/FloatMath.thy ===== *)
theory FloatMath
  imports Float64
begin

text \<open>
  The functions of Go's \<open>math\<close> package that the driving policy calls, on binary64 bit patterns:
  \<open>Sqrt\<close> (correctly rounded), \<open>Pow(x, 4)\<close> (the standard library's repeated squaring of the
  mantissa), \<open>Abs\<close>, \<open>Min\<close> and the truncation of a float to an integer.
\<close>

definition f64_one :: f64 where "f64_one = 4607182418800017408"

subsection \<open>Square root\<close>

function isqrt_from :: "int \<Rightarrow> int \<Rightarrow> int \<Rightarrow> int" where
  "isqrt_from b n r =
     (if b \<le> 0 then r else isqrt_from (b div 2) n (if (r + b) * (r + b) \<le> n then r + b else r))"
  by pat_completeness auto

termination
  by (relation "measure (\<lambda>(b, n, r). nat b)") auto

declare isqrt_from.simps [simp del]

text \<open>Started at a power of two above the root, the digits end at the integer root.\<close>

lemma isqrt_from_ok:
  "r * r \<le> n \<Longrightarrow> n < (r + 2 * 2 ^ k) * (r + 2 * 2 ^ k) \<Longrightarrow>
     isqrt_from (2 ^ k) n r * isqrt_from (2 ^ k) n r \<le> n \<and>
     n < (isqrt_from (2 ^ k) n r + 1) * (isqrt_from (2 ^ k) n r + 1)"
proof (induction k arbitrary: r)
  case 0
  then show ?case by (simp add: isqrt_from.simps [of 1 n r] isqrt_from.simps [of 0] add.commute)
next
  case (Suc k)
  let ?b = "2 * 2 ^ k :: int"
  have s: "isqrt_from (2 ^ Suc k) n r = isqrt_from (2 ^ k) n (if (r + ?b) * (r + ?b) \<le> n then r + ?b else r)"
    by (subst isqrt_from.simps) simp
  show ?case
  proof (cases "(r + ?b) * (r + ?b) \<le> n")
    case True
    then show ?thesis using Suc.IH [OF True] Suc.prems(2) s by (simp add: add.assoc)
  next
    case False
    then show ?thesis using Suc.IH [OF Suc.prems(1)] s by simp
  qed
qed

definition isqrt :: "int \<Rightarrow> int" where
  "isqrt n = isqrt_from (2 ^ nat (bitlen_of n div 2)) n 0"

text \<open>
  The radicand is scaled to an even exponent and at least 110 bits; a last sticky bit records an
  inexact root, so that packing rounds once.
\<close>

definition f64_sqrt :: "f64 \<Rightarrow> f64" where
  "f64_sqrt a =
     (case fval_of a of
        NaN \<Rightarrow> f64_nan
      | Inf s \<Rightarrow> if s then f64_nan else a
      | Fin s m e \<Rightarrow>
          if m = 0 then a else if s then f64_nan
          else let h = (if even e then 112 else 113); n = shl m h; r = isqrt n in
            pack2 False (2 * r + (if r * r = n then 0 else 1)) ((e - h) div 2 - 1))"

subsection \<open>Fourth power\<close>

definition f64_frexp :: "f64 \<Rightarrow> f64 \<times> int" where
  "f64_frexp a =
     (case fval_of a of
        Fin s m e \<Rightarrow> if m = 0 then (a, 0) else (pack2 s m (- bitlen_of m), e + bitlen_of m)
      | _ \<Rightarrow> (a, 0))"

definition f64_ldexp :: "f64 \<Rightarrow> int \<Rightarrow> f64" where
  "f64_ldexp a k = (case fval_of a of Fin s m e \<Rightarrow> if m = 0 then a else pack2 s m (e + k) | _ \<Rightarrow> a)"

definition pow_square :: "f64 \<times> int \<Rightarrow> f64 \<times> int" where
  "pow_square p =
     (let y = fmul (fst p) (fst p) in
      if flt y (f64_lit 1 2) then (fadd y y, 2 * snd p - 1) else (y, 2 * snd p))"

definition f64_pow4 :: "f64 \<Rightarrow> f64" where
  "f64_pow4 x =
     (case fval_of x of
        NaN \<Rightarrow> f64_nan
      | Inf s \<Rightarrow> with_sign False 9218868437227405312
      | Fin s m e \<Rightarrow>
          if m = 0 then 0
          else let p = pow_square (pow_square (f64_frexp x)) in
            if snd p < - 4096 \<or> 4096 < snd p then f64_ldexp f64_one (snd p) else f64_ldexp (fst p) (snd p))"

subsection \<open>Magnitude, minimum, truncation\<close>

definition f64_abs :: "f64 \<Rightarrow> f64" where "f64_abs a = a AND 9223372036854775807"

definition f64_min :: "f64 \<Rightarrow> f64 \<Rightarrow> f64" where
  "f64_min x y =
     (if fval_of x = Inf True \<or> fval_of y = Inf True then 18442240474082181120
      else if is_nan x \<or> is_nan y then f64_nan
      else if feq x 0 \<and> feq x y then (if f64_sign x then x else y)
      else if flt x y then x else y)"

definition f64_to_int :: "f64 \<Rightarrow> int" where
  "f64_to_int a = (case fval_of a of Fin s m e \<Rightarrow> sval s (shl m e div shl 1 (- e)) | _ \<Rightarrow> - 9223372036854775808)"

lemma sqrt_examples:
  "f64_sqrt (f64_lit 9 4) = f64_lit 3 2" "f64_sqrt (f64_lit 2 1) = 4609047870845172685"
  by code_simp+

lemma pow4_examples:
  "f64_pow4 (f64_lit 2 1) = f64_lit 16 1" "f64_pow4 (f64_lit (- 3) 2) = f64_lit 81 16"
  "f64_pow4 (f64_lit 9 10) = 4604084842976311982"
  by code_simp+

end
