(* ===== verification/Policy.thy ===== *)
theory Policy
  imports Occupancy FloatMath Intents
begin

text \<open>
  \<open>engine/policy.go\<close>, \<open>vehicle.go\<close> and \<open>mobil.go\<close>: the reference driving policy as a pure function
  of a gathered context. A flag \<open>OK\<close> or \<open>Present\<close> with its payload is an option here. The candidate
  gates return the two MOBIL terms, or nothing when a gate refuses.
\<close>

subsection \<open>Car following\<close>

definition idmAccel :: "VehicleType \<Rightarrow> f64 \<Rightarrow> f64 \<Rightarrow> LeaderInfo \<Rightarrow> f64" where
  "idmAccel t v0 v lead =
     (let one = f64_lit 1 1; free = fmul (vt_A t) (fsub one (f64_pow4 (fdiv v v0))) in
      if \<not> li_OK lead then free
      else let s = (if flt (li_Gap lead) (f64_lit 1 10) then f64_lit 1 10 else li_Gap lead);
               x = fadd (fadd (vt_S0 t) (fmul v (vt_T t)))
                 (fdiv (fmul v (fsub v (li_V lead))) (fmul (f64_lit 2 1) (f64_sqrt (fmul (vt_A t) (vt_B t)))));
               sStar = (if flt x 0 then 0 else x);
               a = fmul (vt_A t) (fsub (fsub one (f64_pow4 (fdiv v v0))) (fmul (fdiv sStar s) (fdiv sStar s))) in
        if flt a (fneg emergencyDecel) then fneg emergencyDecel else a)"

definition accelEval :: "VehicleType \<Rightarrow> f64 \<Rightarrow> f64 \<Rightarrow> f64 \<Rightarrow> f64 \<Rightarrow> bool \<Rightarrow> LeaderInfo \<Rightarrow> f64" where
  "accelEval t v0 v s laneLen endWall lead =
     (let a = idmAccel t v0 v lead in
      if endWall
      then (let wall = idmAccel t v0 v \<lparr>li_OK = True, li_Gap = fsub laneLen s, li_V = 0\<rparr> in
            if flt wall a then wall else a)
      else a)"

definition v0eff_limit :: "VehicleType \<Rightarrow> f64 \<Rightarrow> f64 \<Rightarrow> f64" where
  "v0eff_limit t f limit = fmul f (if flt limit (vt_V0 t) then limit else vt_V0 t)"

definition accelOnLane :: "Engine \<Rightarrow> Vehicle \<Rightarrow> nat \<Rightarrow> LeaderInfo \<Rightarrow> f64" where
  "accelOnLane e v i lead =
     (let l = e_Lanes e ! i in
      accelEval (vtype e v) (v0eff e v i) (v_V v) (v_S v) (l_Length l) (l_EndWall l) lead)"

definition cruiseAccel :: "Engine \<Rightarrow> Vehicle \<Rightarrow> f64 \<Rightarrow> f64" where
  "cruiseAccel e v dt =
     (let a = fdiv (fsub (v_Cruise v) (v_V v)) dt; a1 = (if flt (vt_A (vtype e v)) a then vt_A (vtype e v) else a) in
      if flt a1 (fneg emergencyDecel) then fneg emergencyDecel else a1)"

definition kinGapOK :: "f64 \<Rightarrow> f64 \<Rightarrow> f64 \<Rightarrow> f64 \<Rightarrow> bool" where
  "kinGapOK gap vFoll vLead dt =
     (if fle vFoll vLead then True
      else fle (fadd (fdiv (fsub (fmul vFoll vFoll) (fmul vLead vLead)) (f64_lit 18 1)) (fmul (fsub vFoll vLead) dt)) gap)"

subsection \<open>The context\<close>

record FollowerCtx =
  fo_Gap :: f64
  fo_V :: f64
  fo_F :: f64
  fo_S :: f64
  fo_Type :: VehicleType
  fo_TypeIdx :: nat
  fo_LaneLimit :: f64
  fo_LaneLen :: f64
  fo_LaneEndWall :: bool
  fo_Lead :: LeaderInfo

record SideCtx =
  sx_Limit :: f64
  sx_Length :: f64
  sx_EndWall :: bool
  sx_Lead :: LeaderInfo
  sx_Foll :: "FollowerCtx option"

record PolicyCtx =
  pc_Type :: VehicleType
  pc_TypeIdx :: nat
  pc_LaneIdx :: nat
  pc_S :: f64
  pc_V :: f64
  pc_F :: f64
  pc_Cooldown :: u64
  pc_CurLimit :: f64
  pc_CurLen :: f64
  pc_CurEndWall :: bool
  pc_CurLead :: LeaderInfo
  pc_CurFoll :: "FollowerCtx option"
  pc_Left :: "SideCtx option"
  pc_Right :: "SideCtx option"

definition followerCtx :: "Engine \<Rightarrow> occupancy \<Rightarrow> nat \<Rightarrow> nat \<Rightarrow> nat \<Rightarrow> f64 \<Rightarrow> FollowerCtx" where
  "followerCtx e occ f lane ego gap =
     (let w = veh e f; l = e_Lanes e ! lane in
      \<lparr>fo_Gap = gap, fo_V = v_V w, fo_F = v_F w, fo_S = v_S w, fo_Type = vtype e w, fo_TypeIdx = v_TypeIdx w,
       fo_LaneLimit = l_SpeedLimit l, fo_LaneLen = l_Length l, fo_LaneEndWall = l_EndWall l,
       fo_Lead = leaderAtFor e occ lane (v_S w) (Some ego) (Some w)\<rparr>)"

definition sideCtx :: "Engine \<Rightarrow> occupancy \<Rightarrow> nat \<Rightarrow> nat \<Rightarrow> SideCtx" where
  "sideCtx e occ k tgt =
     (let v = veh e k; l = e_Lanes e ! tgt; rear = fsub (v_S v) (vlen e k) in
      \<lparr>sx_Limit = l_SpeedLimit l, sx_Length = l_Length l, sx_EndWall = l_EndWall l,
       sx_Lead = leaderAt e occ tgt (v_S v) (Some k),
       sx_Foll = (case snd (neighbors e (occ tgt) (v_S v) k) of
           Some f \<Rightarrow> Some (followerCtx e occ f tgt k (fsub rear (v_S (veh e f))))
         | None \<Rightarrow> map_option (\<lambda>(f, p, gap). followerCtx e occ f p k gap) (prevFollower e occ tgt rear))\<rparr>)"

definition PolicyContext :: "Engine \<Rightarrow> occupancy \<Rightarrow> nat \<Rightarrow> PolicyCtx" where
  "PolicyContext e occ k =
     (let v = veh e k; i = v_Lane v; l = e_Lanes e ! i in
      \<lparr>pc_Type = vtype e v, pc_TypeIdx = v_TypeIdx v, pc_LaneIdx = i, pc_S = v_S v, pc_V = v_V v, pc_F = v_F v,
       pc_Cooldown = v_Cooldown v, pc_CurLimit = l_SpeedLimit l, pc_CurLen = l_Length l, pc_CurEndWall = l_EndWall l,
       pc_CurLead = leader e occ k,
       pc_CurFoll = map_option (\<lambda>f. followerCtx e occ f i k (fsub (fsub (v_S v) (vlen e k)) (v_S (veh e f))))
         (snd (neighbors e (occ i) (v_S v) k)),
       pc_Left = map_option (sideCtx e occ k) (l_Left l), pc_Right = map_option (sideCtx e occ k) (l_Right l)\<rparr>)"

subsection \<open>Decisions\<close>

definition DecideAccel :: "PolicyCtx \<Rightarrow> f64" where
  "DecideAccel c = accelEval (pc_Type c) (v0eff_limit (pc_Type c) (pc_F c) (pc_CurLimit c)) (pc_V c) (pc_S c) (pc_CurLen c)
     (pc_CurEndWall c) (pc_CurLead c)"

definition sideAccel :: "PolicyCtx \<Rightarrow> SideCtx \<Rightarrow> f64" where
  "sideAccel c x = accelEval (pc_Type c) (v0eff_limit (pc_Type c) (pc_F c) (sx_Limit x)) (pc_V c) (pc_S c) (sx_Length x)
     (sx_EndWall x) (sx_Lead x)"

definition follower_accel :: "FollowerCtx \<Rightarrow> LeaderInfo \<Rightarrow> f64" where
  "follower_accel f lead = accelEval (fo_Type f) (v0eff_limit (fo_Type f) (fo_F f) (fo_LaneLimit f)) (fo_V f) (fo_S f)
     (fo_LaneLen f) (fo_LaneEndWall f) lead"

definition accelToward :: "FollowerCtx \<Rightarrow> f64 \<Rightarrow> f64 \<Rightarrow> f64" where
  "accelToward f gap leadV = follower_accel f \<lparr>li_OK = True, li_Gap = gap, li_V = leadV\<rparr>"

definition accelCurrent :: "FollowerCtx \<Rightarrow> f64" where
  "accelCurrent f = follower_accel f (fo_Lead f)"

definition evalSide :: "PolicyCtx \<Rightarrow> Params \<Rightarrow> SideCtx \<Rightarrow> f64 \<Rightarrow> f64 \<Rightarrow> (f64 \<times> f64) option" where
  "evalSide c p x minGap bSafe =
     (let lead = sx_Lead x in
      if li_OK lead \<and> flt (li_Gap lead) minGap then None
      else if (case sx_Foll x of Some f \<Rightarrow> flt (fo_Gap f) minGap | None \<Rightarrow> False) then None
      else if li_OK lead \<and> \<not> kinGapOK (li_Gap lead) (pc_V c) (li_V lead) (p_Dt p) then None
      else if (case sx_Foll x of Some f \<Rightarrow> \<not> kinGapOK (fo_Gap f) (fo_V f) (pc_V c) (p_Dt p) | None \<Rightarrow> False) then None
      else let aNew = sideAccel c x in
        if flt aNew (fneg bSafe) then None
        else case sx_Foll x of
            None \<Rightarrow> Some (aNew, 0)
          | Some f \<Rightarrow> let aN = accelToward f (fo_Gap f) (pc_V c) in
              if flt aN (fneg bSafe) then None else Some (aNew, fsub aN (accelCurrent f)))"

definition clamp01 :: "f64 \<Rightarrow> f64" where
  "clamp01 x = (if flt x 0 then 0 else if flt (f64_lit 1 1) x then f64_lit 1 1 else x)"

definition mobilTieEps :: f64 where "mobilTieEps = f64_lit 1 1000000000"

text \<open>A lateral candidate with its incentive, or nothing when it fails a gate or the threshold.\<close>

definition lane_candidate :: "PolicyCtx \<Rightarrow> Params \<Rightarrow> int \<Rightarrow> SideCtx \<Rightarrow> (int \<times> f64) option" where
  "lane_candidate c p dir x =
     (let mandatory = (pc_CurEndWall c \<and> \<not> sx_EndWall x);
          minGap = (if mandatory then p_MinGapMerge p else p_MinGapLC p);
          bSafe = (if mandatory
            then fadd (p_BSafe p) (fmul (p_MergeUrgencyGain p)
              (clamp01 (fdiv (fsub (pc_S c) (fsub (pc_CurLen c) (p_MergeZone p))) (p_MergeZone p))))
            else p_BSafe p) in
      case evalSide c p x minGap bSafe of
        None \<Rightarrow> None
      | Some (aNew, dN) \<Rightarrow>
          let dO = (case pc_CurFoll c of None \<Rightarrow> 0
                | Some f \<Rightarrow> fsub (accelCurrent f) (accelToward f (fo_Gap f) (pc_V c)));
              inc = fadd (fsub aNew (DecideAccel c)) (fmul (p_Politeness p) (fadd dN dO)) in
          if flt (p_LCThreshold p) inc then Some (dir, inc) else None)"

definition lane_candidates :: "PolicyCtx \<Rightarrow> Params \<Rightarrow> (int \<times> f64) list" where
  "lane_candidates c p = List.map_filter (\<lambda>(dir, x). case x of Some s \<Rightarrow> lane_candidate c p dir s | None \<Rightarrow> None)
     [(1, pc_Left c), (- 1, pc_Right c)]"

definition best_candidate :: "(int \<times> f64) list \<Rightarrow> nat" where
  "best_candidate ps = foldl (\<lambda>b i. if flt (fadd (snd (ps ! b)) mobilTieEps) (snd (ps ! i)) then i else b) 0 [0..<length ps]"

definition tied_candidates :: "(int \<times> f64) list \<Rightarrow> nat list" where
  "tied_candidates ps = filter (\<lambda>i. fle (f64_abs (fsub (snd (ps ! i)) (snd (ps ! best_candidate ps)))) mobilTieEps)
     [0..<length ps]"

definition DecideLaneChange :: "PolicyCtx \<Rightarrow> Params \<Rightarrow> stream \<Rightarrow> int \<times> stream" where
  "DecideLaneChange c p rng =
     (let ps = lane_candidates c p in
      if ps = [] then (0, rng)
      else let ties = tied_candidates ps in
        if 1 < length ties
        then (let (u, rng') = stream_Float64 rng in
              (fst (ps ! (ties ! nat (f64_to_int (fmul u (f64_of_nat (length ties)))))), rng'))
        else (fst (ps ! best_candidate ps), rng))"

definition side_of :: "PolicyCtx \<Rightarrow> int \<Rightarrow> SideCtx option" where
  "side_of c dir = (if 0 < dir then pc_Left c else pc_Right c)"

definition ForcedFeasible :: "PolicyCtx \<Rightarrow> Params \<Rightarrow> int \<Rightarrow> bool" where
  "ForcedFeasible c p dir =
     (case side_of c dir of None \<Rightarrow> False | Some x \<Rightarrow> evalSide c p x (p_MinGapLC p) (p_BSafe p) \<noteq> None)"

end
