(* ===== verification/RightOfWay.thy ===== *)
theory RightOfWay
  imports Occupancy Policy SigDisplay
begin

text \<open>
  \<open>engine/rightofway.go\<close> and the light's half of it in \<open>signal.go\<close> (\<open>sigGate\<close>): which vehicle may
  enter a junction. A gate answers with the acceleration toward a standing vehicle at the stop line,
  or nothing. Vehicles are passed by value, because a pending spawn is asked about before it is
  registered; the one side effect, a served full stop, is the vehicle returned.
\<close>

definition lane_of :: "Engine \<Rightarrow> nat \<Rightarrow> Lane" where "lane_of e i = e_Lanes e ! i"

definition controlled :: "Engine \<Rightarrow> nat \<Rightarrow> bool" where
  "controlled e x =
     (if l_Signal (lane_of e x) \<noteq> None \<and> sigState e (lane_of e x) \<noteq> SigOff then True
      else l_Row (lane_of e x) \<noteq> RowNone)"

subsection \<open>The junction ahead\<close>

fun gate_walk :: "Engine \<Rightarrow> nat \<Rightarrow> f64 \<Rightarrow> Vehicle \<Rightarrow> nat \<Rightarrow> (nat \<times> f64) option" where
  "gate_walk e 0 dist probe cur = None"
| "gate_walk e (Suc f) dist probe cur =
     (if l_Successors (lane_of e cur) = [] then None
      else let x = branch e cur probe; probe' = probe\<lparr>v_HeldTurn := 0\<rparr> in
        if l_Internal (lane_of e x) \<and> controlled e x
        then (if flt maxSightM dist then None else Some (x, dist))
        else let dist' = fadd dist (l_Length (lane_of e x)) in
          if flt maxSightM dist' then None else gate_walk e f dist' probe' x)"

definition gateTarget :: "Engine \<Rightarrow> Vehicle \<Rightarrow> (nat \<times> f64) option" where
  "gateTarget e v = gate_walk e maxLaneHops (fsub (l_Length (lane_of e (v_Lane v))) (v_S v)) v (v_Lane v)"

subsection \<open>Merging branches\<close>

text \<open>
  The breadth-first walk backward from a merge. The guard on the index is always true of a network's
  own links; it makes the unseen lanes a measure.
\<close>

definition enqueue_prev :: "Engine \<Rightarrow> f64 \<Rightarrow> f64 \<Rightarrow> (nat \<times> f64) list \<times> nat list \<Rightarrow> nat \<Rightarrow> (nat \<times> f64) list \<times> nat list" where
  "enqueue_prev e d distV ws pp =
     (if pp < length (e_Lanes e) \<and> pp \<notin> set (snd ws) \<and> flt d distV
      then (fst ws @ [(pp, d)], snd ws @ [pp]) else ws)"

lemma enqueue_prevs_seen:
  "set (snd ws) \<subseteq> set (snd (foldl (enqueue_prev e d distV) ws ps)) \<and>
   (snd (foldl (enqueue_prev e d distV) ws ps) = snd ws \<longrightarrow> foldl (enqueue_prev e d distV) ws ps = ws) \<and>
   (snd (foldl (enqueue_prev e d distV) ws ps) \<noteq> snd ws \<longrightarrow>
      (\<exists>p < length (e_Lanes e). p \<in> set (snd (foldl (enqueue_prev e d distV) ws ps)) - set (snd ws)))"
proof (induction ps arbitrary: ws)
  case (Cons p ps)
  let ?w = "enqueue_prev e d distV ws p"
  show ?case
  proof (cases "?w = ws")
    case True
    then show ?thesis using Cons.IH [of ws] by simp
  next
    case False
    then have w: "p < length (e_Lanes e)" "p \<notin> set (snd ws)" "snd ?w = snd ws @ [p]"
      by (auto simp: enqueue_prev_def split: if_splits)
    then have "p \<in> set (snd (foldl (enqueue_prev e d distV) ?w ps))" "set (snd ws) \<subseteq> set (snd (foldl (enqueue_prev e d distV) ?w ps))"
      using Cons.IH [of ?w] by auto
    then show ?thesis using w by auto
  qed
qed simp

function merge_scan :: "Engine \<Rightarrow> occupancy \<Rightarrow> Vehicle \<Rightarrow> f64 \<Rightarrow> (nat \<times> f64) list \<Rightarrow> nat list \<Rightarrow> bool" where
  "merge_scan e occ v distV [] seen = False"
| "merge_scan e occ v distV (it # work) seen =
     (let l = lane_of e (fst it) in
      if occ (fst it) \<noteq> []
      then (let w = veh e (last (occ (fst it))); dOther = fsub (fadd (snd it) (l_Length l)) (v_S w) in
            if flt dOther distV \<or> feq dOther distV \<and> v_ID w < v_ID v then True
            else merge_scan e occ v distV work seen)
      else (let ws = foldl (enqueue_prev e (fadd (snd it) (l_Length l)) distV) (work, seen) (l_Prevs l) in
            merge_scan e occ v distV (fst ws) (snd ws)))"
  by pat_completeness auto

termination
proof (relation "measures [\<lambda>(e, occ, v, distV, work, seen). card ({..<length (e_Lanes e)} - set seen),
    \<lambda>(e, occ, v, distV, work, seen). length work]", goal_cases)
  case 1
  show ?case by simp
next
  case (2 e occ v distV it work seen l w dOther)
  then show ?case by simp
next
  case (3 e occ v distV it work seen l ws)
  note k = enqueue_prevs_seen [of "(work, seen)" e "fadd (snd it) (l_Length l)" distV "l_Prevs l", folded 3(3), simplified]
  show ?case
  proof (cases "snd ws = seen")
    case True
    then show ?thesis using k by simp
  next
    case False
    then have "{..<length (e_Lanes e)} - set (snd ws) \<subset> {..<length (e_Lanes e)} - set seen" using k by auto
    then show ?thesis using psubset_card_mono [OF finite_Diff [OF finite_lessThan]] by (cases ws) simp
  qed
qed

definition mergeThreat :: "Engine \<Rightarrow> occupancy \<Rightarrow> Vehicle \<Rightarrow> nat \<Rightarrow> nat \<Rightarrow> f64 \<Rightarrow> bool" where
  "mergeThreat e occ v cur exit distV =
     (let ps = remdups (filter (\<lambda>p. p \<noteq> cur) (rev (l_Prevs (lane_of e exit)))); work = rev ps in
      merge_scan e occ v distV (map (\<lambda>p. (p, 0)) work) work)"

subsection \<open>Room behind the box\<close>

definition foes_inside :: "Engine \<Rightarrow> occupancy \<Rightarrow> nat \<Rightarrow> bool" where
  "foes_inside e occ x \<longleftrightarrow>
     list_ex (\<lambda>f. occ f \<noteq> []) (l_FoesCross (lane_of e x)) \<or> list_ex (\<lambda>f. occ f \<noteq> []) (l_FoesMerge (lane_of e x))"

definition downstreamHold :: "Engine \<Rightarrow> nat \<Rightarrow> bool" where
  "downstreamHold e x =
     (if l_Signal (lane_of e x) \<noteq> None then sigState e (lane_of e x) = SigRed \<or> sigState e (lane_of e x) = SigAmber else False)"

definition exit_room :: "f64 \<Rightarrow> f64 \<Rightarrow> bool \<Rightarrow> bool \<times> bool" where
  "exit_room need free holdSeal = (if flt free need then (True, holdSeal) else (False, False))"

text \<open>The pair is \<open>(blocked, holdSeal)\<close>.\<close>

fun exit_walk :: "Engine \<Rightarrow> occupancy \<Rightarrow> Vehicle \<Rightarrow> bool \<Rightarrow> f64 \<Rightarrow> nat \<Rightarrow> f64 \<Rightarrow> f64 \<Rightarrow> Vehicle \<Rightarrow> nat \<Rightarrow> bool \<times> bool" where
  "exit_walk e occ v inBox need 0 free dist probe cur = exit_room need free False"
| "exit_walk e occ v inBox need (Suc f) free dist probe cur =
     (if l_Successors (lane_of e cur) = [] then exit_room need free False
      else let x = branch e cur probe; probe' = probe\<lparr>v_HeldTurn := 0\<rparr>; l = lane_of e x in
        if inBox \<and> 1 < length (l_Prevs l) \<and> mergeThreat e occ v cur x dist then (True, False)
        else case occ x of
            k # _ \<Rightarrow> if inBox then (False, False)
              else exit_room need (fadd free (fsub (v_S (veh e k)) (vlen e k))) False
          | [] \<Rightarrow>
              if l_Internal l
              then (if foes_inside e occ x then (True, False)
                    else if downstreamHold e x then exit_room need free True else (False, False))
              else if l_Exit l then (False, False)
              else let free' = fadd free (l_Length l) in
                if fle need free' then exit_room need free' False
                else exit_walk e occ v inBox need f free' (fadd dist (l_Length l)) probe' x)"

definition exitWalk :: "Engine \<Rightarrow> occupancy \<Rightarrow> Vehicle \<Rightarrow> nat \<Rightarrow> bool \<Rightarrow> bool \<Rightarrow> bool \<times> bool" where
  "exitWalk e occ v x inBox turnSpent =
     exit_walk e occ v inBox (fadd (vt_Length (vtype e v)) (vt_S0 (vtype e v))) maxLaneHops 0
       (fsub (l_Length (lane_of e x)) (v_S v)) (if turnSpent then v\<lparr>v_HeldTurn := 0\<rparr> else v) x"

definition exitBlocked :: "Engine \<Rightarrow> occupancy \<Rightarrow> Vehicle \<Rightarrow> nat \<Rightarrow> bool \<Rightarrow> bool" where
  "exitBlocked e occ v x inBox = fst (exitWalk e occ v x inBox True)"

definition boxWalk :: "Engine \<Rightarrow> occupancy \<Rightarrow> Vehicle \<Rightarrow> nat \<Rightarrow> bool \<times> bool" where
  "boxWalk e occ v x = (if foes_inside e occ x then (True, False) else exitWalk e occ v x False True)"

definition boxBlocked :: "Engine \<Rightarrow> occupancy \<Rightarrow> Vehicle \<Rightarrow> nat \<Rightarrow> bool" where
  "boxBlocked e occ v x = fst (boxWalk e occ v x)"

subsection \<open>Approaching foes\<close>

datatype foeClass = foePriority | foeYieldClass | foeHeld

definition foeSignalClass :: "Engine \<Rightarrow> nat \<Rightarrow> foeClass" where
  "foeSignalClass e foe =
     (let l = lane_of e foe in
      if l_Signal l = None then foePriority
      else case sigState e l of
          SigRed \<Rightarrow> foeHeld
        | SigGreen \<Rightarrow> if sigPermissive e l then foeYieldClass else foePriority
        | _ \<Rightarrow> foePriority)"

definition foe_yields :: "Engine \<Rightarrow> nat \<Rightarrow> bool" where
  "foe_yields e foe \<longleftrightarrow>
     l_Row (lane_of e foe) = RowMinor \<or> l_Row (lane_of e foe) = RowStop \<or> foeSignalClass e foe = foeYieldClass"

text \<open>The verdict of one approach lane of the foe.\<close>

definition approach_blocks :: "Engine \<Rightarrow> occupancy \<Rightarrow> Vehicle \<Rightarrow> nat \<Rightarrow> bool \<Rightarrow> nat \<Rightarrow> bool" where
  "approach_blocks e occ v foe egoMinor p =
     (if occ p = [] then False
      else let f = veh e (last (occ p)); d = fsub (l_Length (lane_of e p)) (v_S f); t = vtype e f in
        if feq (v_V f) 0
        then (if flt (fadd (vt_S0 t) (f64_lit 1 1)) d then False
              else if foeSignalClass e foe = foeHeld then False
              else if egoMinor then (if \<not> foe_yields e foe then True else v_ID f < v_ID v)
              else \<not> foe_yields e foe \<and> v_ID f < v_ID v)
        else flt (fmul (fmul (f64_lit 2 1) d) (vt_B t)) (fmul (v_V f) (v_V f)))"

definition foeApproachBlocks :: "Engine \<Rightarrow> occupancy \<Rightarrow> Vehicle \<Rightarrow> nat \<Rightarrow> bool \<Rightarrow> bool" where
  "foeApproachBlocks e occ v foe egoMinor = list_ex (approach_blocks e occ v foe egoMinor) (l_Prevs (lane_of e foe))"

definition foeApproachConflict :: "Engine \<Rightarrow> occupancy \<Rightarrow> Vehicle \<Rightarrow> nat \<Rightarrow> bool" where
  "foeApproachConflict e occ v x =
     (let minor = (l_Row (lane_of e x) \<noteq> RowMajor) in
      list_ex (\<lambda>f. minor \<and> foeApproachBlocks e occ v f minor) (l_FoesCross (lane_of e x)) \<or>
      list_ex (\<lambda>f. foeApproachBlocks e occ v f minor) (l_FoesMerge (lane_of e x)))"

definition rowConflict :: "Engine \<Rightarrow> occupancy \<Rightarrow> Vehicle \<Rightarrow> nat \<Rightarrow> bool" where
  "rowConflict e occ v x =
     (if boxBlocked e occ v x then True
      else let minor = (l_Row (lane_of e x) \<noteq> RowMajor) in
        list_ex (\<lambda>f. minor \<and> foeApproachBlocks e occ v f minor) (l_FoesCross (lane_of e x)) \<or>
        list_ex (\<lambda>f. foeApproachBlocks e occ v f minor) (l_FoesMerge (lane_of e x)))"

definition junctionHold :: "Engine \<Rightarrow> occupancy \<Rightarrow> Vehicle \<Rightarrow> nat \<Rightarrow> bool" where
  "junctionHold e occ v x =
     (let l = lane_of e x in
      if l_Signal l \<noteq> None \<and>
         (case sigState e l of SigRed \<Rightarrow> True | SigAmber \<Rightarrow> True | SigGreen \<Rightarrow> boxBlocked e occ v x | SigOff \<Rightarrow> False) then True
      else if l_Row l = RowNone then False
      else if l_Row l = RowStop \<and> \<not> v_stopDone v then True
      else rowConflict e occ v x)"

subsection \<open>The gates\<close>

definition stop_wall :: "Engine \<Rightarrow> Vehicle \<Rightarrow> f64 \<Rightarrow> f64" where
  "stop_wall e v dist = idmAccel (vtype e v) (v0eff e v (v_Lane v)) (v_V v) \<lparr>li_OK = True, li_Gap = dist, li_V = 0\<rparr>"

definition can_stop :: "Vehicle \<Rightarrow> f64 \<Rightarrow> f64 \<Rightarrow> bool" where
  "can_stop v dist b = fle (fmul (v_V v) (v_V v)) (fmul (fmul (f64_lit 2 1) dist) b)"

definition light_stops :: "Engine \<Rightarrow> Vehicle \<Rightarrow> nat \<Rightarrow> f64 \<Rightarrow> bool" where
  "light_stops e v x dist =
     (case sigState e (lane_of e x) of
        SigRed \<Rightarrow> if sigInClearance e (lane_of e x) then can_stop v dist (vt_B (vtype e v)) else can_stop v dist emergencyDecel
      | SigAmber \<Rightarrow> can_stop v dist (vt_B (vtype e v))
      | _ \<Rightarrow> False)"

definition sigGate :: "Engine \<Rightarrow> occupancy \<Rightarrow> Vehicle \<Rightarrow> nat \<Rightarrow> f64 \<Rightarrow> f64 option" where
  "sigGate e occ v x dist =
     (if sigState e (lane_of e x) = SigOff then None
      else if light_stops e v x dist then Some (stop_wall e v dist)
      else if boxBlocked e occ v x then Some (stop_wall e v dist)
      else None)"

definition signal_gate :: "Engine \<Rightarrow> occupancy \<Rightarrow> Vehicle \<Rightarrow> nat \<Rightarrow> f64 \<Rightarrow> f64 option" where
  "signal_gate e occ v x dist = (if l_Signal (lane_of e x) \<noteq> None then sigGate e occ v x dist else None)"

definition permissive :: "Engine \<Rightarrow> nat \<Rightarrow> bool" where
  "permissive e x \<longleftrightarrow> l_Signal (lane_of e x) \<noteq> None \<and> sigPermissive e (lane_of e x)"

text \<open>The full stop is served once the vehicle stands within its jam gap of the line.\<close>

definition serve_stop :: "Engine \<Rightarrow> f64 \<Rightarrow> Vehicle \<Rightarrow> Vehicle" where
  "serve_stop e dist v =
     (if feq (v_V v) 0 \<and> fle dist (fadd (vt_S0 (vtype e v)) (f64_lit 1 1)) then v\<lparr>v_stopDone := True\<rparr> else v)"

definition exit_gate :: "Engine \<Rightarrow> occupancy \<Rightarrow> Vehicle \<Rightarrow> f64 option \<times> Vehicle" where
  "exit_gate e occ v =
     (if exitBlocked e occ v (v_Lane v) True
      then (Some (stop_wall e v (fsub (l_Length (lane_of e (v_Lane v))) (v_S v))), v) else (None, v))"

text \<open>Inside a box: the duties of the seam to a controlled box, then the room at the exit.\<close>

definition seam_gate :: "Engine \<Rightarrow> occupancy \<Rightarrow> Vehicle \<Rightarrow> f64 option \<times> Vehicle" where
  "seam_gate e occ v =
     (let l = lane_of e (v_Lane v); x = branch e (v_Lane v) v; dist = fsub (l_Length l) (v_S v) in
      if \<not> (l_Internal (lane_of e x) \<and> controlled e x) then exit_gate e occ v
      else case signal_gate e occ v x dist of
          Some w \<Rightarrow> (Some w, v)
        | None \<Rightarrow>
            if l_Row (lane_of e x) = RowStop \<and> \<not> v_stopDone v then (Some (stop_wall e v dist), serve_stop e dist v)
            else if (l_Row (lane_of e x) \<noteq> RowNone \<or> permissive e x) \<and> foeApproachConflict e occ v x
            then (Some (stop_wall e v dist), v)
            else exit_gate e occ v)"

definition entry_gate :: "Engine \<Rightarrow> occupancy \<Rightarrow> Vehicle \<Rightarrow> f64 option \<times> Vehicle" where
  "entry_gate e occ v =
     (case gateTarget e v of
        None \<Rightarrow> (None, v)
      | Some (x, dist) \<Rightarrow>
          case signal_gate e occ v x dist of
            Some w \<Rightarrow> (Some w, v)
          | None \<Rightarrow>
              if l_Row (lane_of e x) = RowNone \<and> \<not> permissive e x then (None, v)
              else if l_Row (lane_of e x) = RowStop \<and> \<not> v_stopDone v then (Some (stop_wall e v dist), serve_stop e dist v)
              else if rowConflict e occ v x then (Some (stop_wall e v dist), v)
              else (None, v))"

definition rowGate :: "Engine \<Rightarrow> occupancy \<Rightarrow> Vehicle \<Rightarrow> f64 option \<times> Vehicle" where
  "rowGate e occ v =
     (if l_Successors (lane_of e (v_Lane v)) = [] then (None, v)
      else if l_Internal (lane_of e (v_Lane v)) then seam_gate e occ v
      else entry_gate e occ v)"

end
