(* ===== verification/Lateral.thy ===== *)
theory Lateral
  imports Policy LatDepth
begin

text \<open>
  \<open>engine/mobil.go\<close> and the forced hop of \<open>intent.go\<close>: the lateral phase of a tick. Vehicles are
  taken front to back; each sees the lanes as the earlier ones left them. A commanded hop comes
  first, then the recovery of a routed vehicle, then MOBIL under the idm policy.
\<close>

record lateral_run =
  lc_eng :: Engine
  lc_occ :: occupancy
  lc_LaneChanges :: nat

definition neighbour_lane :: "Lane \<Rightarrow> int \<Rightarrow> nat option" where
  "neighbour_lane l dir = (if 0 < dir then l_Left l else l_Right l)"

definition cur_lane :: "Engine \<Rightarrow> Vehicle \<Rightarrow> Lane" where "cur_lane e v = e_Lanes e ! v_Lane v"

definition routeHopOK :: "Engine \<Rightarrow> Vehicle \<Rightarrow> int \<Rightarrow> bool" where
  "routeHopOK e v dir =
     (if v_Route v = [] then True
      else case (if dir < 0 then l_Right (cur_lane e v) else l_Left (cur_lane e v)) of
          None \<Rightarrow> True
        | Some t \<Rightarrow>
            let cur = routeLatDist (e_Net e) (v_Lane v) (v_Route v); nx = routeLatDist (e_Net e) t (v_Route v) in
            if cur < 0 then True else 0 \<le> nx \<and> nx \<le> cur)"

definition execLaneChange :: "nat \<Rightarrow> int \<Rightarrow> lateral_run \<Rightarrow> lateral_run" where
  "execLaneChange k dir st =
     (let e = lc_eng st; occ = lc_occ st; i = v_Lane (veh e k) in
      case neighbour_lane (e_Lanes e ! i) dir of
        None \<Rightarrow> st
      | Some t \<Rightarrow>
          let occ1 = occ(i := removeVehicle e k (occ i)); occ2 = occ1(t := insertVehicle e k (occ1 t));
              e1 = noteLaneLeave k e in
          st\<lparr>lc_eng := set_vehicle k ((veh e1 k)\<lparr>v_Lane := t, v_Cooldown := p_LCCooldown (e_Params e)\<rparr>) e1,
             lc_occ := occ2, lc_LaneChanges := Suc (lc_LaneChanges st)\<rparr>)"

definition tryForcedLaneChange :: "nat \<Rightarrow> lateral_run \<Rightarrow> lateral_run" where
  "tryForcedLaneChange k st =
     (let e = lc_eng st; v = veh e k in
      if routeHopOK e v (v_reqLane v) \<and> ForcedFeasible (PolicyContext e (lc_occ st) k) (e_Params e) (v_reqLane v)
      then execLaneChange k (v_reqLane v) st else st)"

text \<open>The better of the recovery lanes: smaller depth, then lower lane index.\<close>

definition recovery_better :: "Engine \<Rightarrow> Vehicle \<Rightarrow> int \<Rightarrow> (int \<times> int \<times> nat) option \<Rightarrow> int \<Rightarrow> (int \<times> int \<times> nat) option" where
  "recovery_better e v cur best dir =
     (case (if dir < 0 then l_Right (cur_lane e v) else l_Left (cur_lane e v)) of
        None \<Rightarrow> best
      | Some t \<Rightarrow>
          let d = routeLatDist (e_Net e) t (v_Route v) in
          if d < 0 \<or> cur \<le> d then best
          else case best of
              None \<Rightarrow> Some (d, dir, t)
            | Some (bd, _, bt) \<Rightarrow> if d < bd \<or> d = bd \<and> t < bt then Some (d, dir, t) else best)"

definition recovery_dir :: "Engine \<Rightarrow> Vehicle \<Rightarrow> int option" where
  "recovery_dir e v =
     (if v_Route v = [] then None
      else let cur = routeLatDist (e_Net e) (v_Lane v) (v_Route v) in
        if cur \<le> 0 then None
        else map_option (\<lambda>b. fst (snd b)) (foldl (recovery_better e v cur) None [1, - 1]))"

definition tryRouteRecovery :: "nat \<Rightarrow> lateral_run \<Rightarrow> bool \<times> lateral_run" where
  "tryRouteRecovery k st =
     (let e = lc_eng st in
      case recovery_dir e (veh e k) of
        None \<Rightarrow> (False, st)
      | Some dir \<Rightarrow> (True, if ForcedFeasible (PolicyContext e (lc_occ st) k) (e_Params e) dir
          then execLaneChange k dir st else st))"

definition tryLaneChange :: "nat \<Rightarrow> lateral_run \<Rightarrow> lateral_run" where
  "tryLaneChange k st =
     (let e = lc_eng st; (d, rng) = DecideLaneChange (PolicyContext e (lc_occ st) k) (e_Params e) (v_rng (veh e k));
          st1 = st\<lparr>lc_eng := set_vehicle k ((veh e k)\<lparr>v_rng := rng\<rparr>) e\<rparr> in
      if d \<noteq> 0 \<and> routeHopOK (lc_eng st1) (veh (lc_eng st1) k) d then execLaneChange k d st1 else st1)"

definition idmPolicy :: "Engine \<Rightarrow> bool" where
  "idmPolicy e \<longleftrightarrow> sc_UncontrolledPolicy (e_scen e) \<noteq> ''holdlast''"

definition lateral_one :: "bool \<Rightarrow> lateral_run \<Rightarrow> nat \<Rightarrow> lateral_run" where
  "lateral_one idm st k =
     (let e = lc_eng st; v = veh e k in
      if 0 < v_Cooldown v then st\<lparr>lc_eng := set_vehicle k (v\<lparr>v_Cooldown := v_Cooldown v - 1\<rparr>) e\<rparr>
      else if v_reqLane v \<noteq> 0 then tryForcedLaneChange k st
      else let (took, st1) = tryRouteRecovery k st in
        if took then st1 else if \<not> idm then st1 else tryLaneChange k st1)"

definition ahead_of :: "Engine \<Rightarrow> nat \<Rightarrow> nat \<Rightarrow> bool" where
  "ahead_of e k m =
     (if \<not> feq (v_S (veh e k)) (v_S (veh e m)) then flt (v_S (veh e m)) (v_S (veh e k))
      else v_ID (veh e k) < v_ID (veh e m))"

definition laneChanges :: "Engine \<Rightarrow> occupancy \<Rightarrow> lateral_run" where
  "laneChanges e occ =
     foldl (lateral_one (idmPolicy e)) \<lparr>lc_eng = e, lc_occ = occ, lc_LaneChanges = 0\<rparr>
       (stable_sort (ahead_of e) [0..<length (e_order e)])"

end
