(* ===== verification/OccSync.thy ===== *)
theory OccSync
  imports Lateral
begin

text \<open>
  The occupancy lists are maintained by insertion and removal between two rebuilds. Here: they are
  always what a rebuild would compute. The lists are sorted by a strict linear order (position, ties
  by id), so a set of vehicles has one sorted list; \<open>sort.Slice\<close> has one answer for the same reason.
\<close>

section \<open>Lists sorted by a strict linear order\<close>

lemma sort_search_spec:
  assumes "i \<le> j" and mono: "\<And>a b. i \<le> a \<Longrightarrow> a \<le> b \<Longrightarrow> b < j \<Longrightarrow> P a \<Longrightarrow> P b"
  shows "i \<le> sort_search P i j \<and> sort_search P i j \<le> j \<and> (\<forall>k. i \<le> k \<and> k < sort_search P i j \<longrightarrow> \<not> P k) \<and>
    (\<forall>k. sort_search P i j \<le> k \<and> k < j \<longrightarrow> P k)"
  using assms
proof (induction P i j rule: sort_search.induct)
  case (1 P i j)
  show ?case
  proof (cases "j \<le> i")
    case True
    then show ?thesis using 1(3) by (auto simp: sort_search.simps)
  next
    case False
    define h where "h = (i + j) div 2"
    have h: "i \<le> h" "h < j" using False by (simp_all add: h_def)
    show ?thesis
    proof (cases "P h")
      case True
      have s: "sort_search P i j = sort_search P i h" using False True by (subst sort_search.simps) (simp add: h_def)
      have m: "P b" if "i \<le> a" "a \<le> b" "b < h" "P a" for a b using 1(4) [OF that(1,2) _ that(4)] that(3) h(2) by simp
      have ih: "i \<le> sort_search P i h \<and> sort_search P i h \<le> h \<and> (\<forall>k. i \<le> k \<and> k < sort_search P i h \<longrightarrow> \<not> P k) \<and>
          (\<forall>k. sort_search P i h \<le> k \<and> k < h \<longrightarrow> P k)"
        by (rule 1(1) [OF False h_def True h(1) m])
      have "P k" if "h \<le> k" "k < j" for k using 1(4) [OF h(1) that True] .
      then have "P k" if "sort_search P i h \<le> k" "k < j" for k using ih that by (cases "k < h") simp_all
      then show ?thesis unfolding s using ih h by simp
    next
      case no: False
      have s: "sort_search P i j = sort_search P (Suc h) j" using False no by (subst sort_search.simps) (simp add: h_def)
      have m: "P b" if "Suc h \<le> a" "a \<le> b" "b < j" "P a" for a b using 1(4) [OF _ that(2-4)] that(1) h(1) by simp
      have ih: "Suc h \<le> sort_search P (Suc h) j \<and> sort_search P (Suc h) j \<le> j \<and>
          (\<forall>k. Suc h \<le> k \<and> k < sort_search P (Suc h) j \<longrightarrow> \<not> P k) \<and> (\<forall>k. sort_search P (Suc h) j \<le> k \<and> k < j \<longrightarrow> P k)"
        by (rule 1(2) [OF False h_def no Suc_leI [OF h(2)] m])
      have "\<not> P k" if "i \<le> k" "k \<le> h" for k using 1(4) [OF that h(2)] no by blast
      then have "\<not> P k" if "i \<le> k" "k < sort_search P (Suc h) j" for k using ih that by (cases "k \<le> h") simp_all
      then show ?thesis unfolding s using ih h by simp
    qed
  qed
qed

lemma search0:
  assumes mono: "\<forall>a b. a \<le> b \<and> b < n \<and> P a \<longrightarrow> P b"
  shows "sort_search P 0 n \<le> n" and "k < sort_search P 0 n \<Longrightarrow> \<not> P k"
    and "sort_search P 0 n \<le> k \<Longrightarrow> k < n \<Longrightarrow> P k"
proof -
  have "0 \<le> sort_search P 0 n \<and> sort_search P 0 n \<le> n \<and> (\<forall>k. 0 \<le> k \<and> k < sort_search P 0 n \<longrightarrow> \<not> P k) \<and>
      (\<forall>k. sort_search P 0 n \<le> k \<and> k < n \<longrightarrow> P k)"
  proof (rule sort_search_spec)
    show "P b" if "a \<le> b" "b < n" "P a" for a b using mono that by blast
  qed simp
  then show "sort_search P 0 n \<le> n" and "k < sort_search P 0 n \<Longrightarrow> \<not> P k"
    and "sort_search P 0 n \<le> k \<Longrightarrow> k < n \<Longrightarrow> P k" by simp_all
qed

locale linear_on =
  fixes lt :: "'a \<Rightarrow> 'a \<Rightarrow> bool" and A :: "'a set"
  assumes asym: "x \<in> A \<Longrightarrow> y \<in> A \<Longrightarrow> lt x y \<Longrightarrow> \<not> lt y x"
    and trans: "x \<in> A \<Longrightarrow> y \<in> A \<Longrightarrow> z \<in> A \<Longrightarrow> lt x y \<Longrightarrow> lt y z \<Longrightarrow> lt x z"
    and total: "x \<in> A \<Longrightarrow> y \<in> A \<Longrightarrow> x \<noteq> y \<Longrightarrow> lt x y \<or> lt y x"
begin

lemma sorted_distinct: "set xs \<subseteq> A \<Longrightarrow> sorted_wrt lt xs \<Longrightarrow> distinct xs"
  by (induction xs) (auto dest: asym)

lemma one_sorted: "set xs \<subseteq> A \<Longrightarrow> set ys = set xs \<Longrightarrow> sorted_wrt lt xs \<Longrightarrow> sorted_wrt lt ys \<Longrightarrow> xs = ys"
proof (induction xs arbitrary: ys)
  case (Cons x xs)
  then obtain y zs where ys: "ys = y # zs" by (cases ys) auto
  have yA: "set ys \<subseteq> A" using Cons.prems(1,2) by simp
  have A: "x \<in> A" "y \<in> A" using Cons.prems(1,2) ys by auto
  have "x = y"
  proof (rule ccontr)
    assume "x \<noteq> y"
    then have "y \<in> set xs" "x \<in> set zs" using Cons.prems(2) ys by auto
    then show False using Cons.prems(3,4) ys asym [OF A] by auto
  qed
  moreover have "x \<notin> set xs" "y \<notin> set zs"
    using sorted_distinct [OF Cons.prems(1,3)] sorted_distinct [OF yA Cons.prems(4)] ys by simp_all
  ultimately have "set zs = set xs" using Cons.prems(2) ys by auto
  moreover have "sorted_wrt lt xs" "sorted_wrt lt zs" "set xs \<subseteq> A" using Cons.prems(1,3,4) ys by simp_all
  ultimately show ?case using Cons.IH [of zs] ys \<open>x = y\<close> by simp
qed simp

lemma insort_sorted:
  "insert x (set xs) \<subseteq> A \<Longrightarrow> x \<notin> set xs \<Longrightarrow> sorted_wrt lt xs \<Longrightarrow> sorted_wrt lt (insort_by lt x xs)"
proof (induction xs)
  case (Cons y ys)
  show ?case
  proof (cases "lt y x")
    case True
    then show ?thesis using Cons by auto
  next
    case False
    then have "lt x y" using total [of x y] Cons.prems by auto
    then show ?thesis using False Cons.prems trans [of x y] by (auto intro: trans)
  qed
qed simp

lemma stable_sorted: "set xs \<subseteq> A \<Longrightarrow> distinct xs \<Longrightarrow> sorted_wrt lt (stable_sort lt xs)"
proof (induction xs)
  case (Cons x xs)
  have "set (foldr (insort_by lt) xs []) = set xs" using set_stable_sort [of lt xs] by (simp add: stable_sort_def)
  then show ?case using Cons insort_sorted [of x "stable_sort lt xs"] by (simp add: stable_sort_def)
qed (simp add: stable_sort_def)

text \<open>Binary insertion in front of the first element beyond.\<close>

lemma insert_sorted:
  assumes A: "insert x (set xs) \<subseteq> A" and new: "x \<notin> set xs" and s: "sorted_wrt lt xs"
  shows "sorted_wrt lt (insert_at (sort_search (\<lambda>i. lt x (xs ! i)) 0 (length xs)) x xs)"
proof -
  define r where "r = sort_search (\<lambda>i. lt x (xs ! i)) 0 (length xs)"
  have mono: "lt x (xs ! b)" if "a \<le> b" "b < length xs" "lt x (xs ! a)" for a b
  proof (cases "a = b")
    case False
    then have "lt (xs ! a) (xs ! b)" using that s by (simp add: sorted_wrt_iff_nth_less)
    then show ?thesis using that trans [of x "xs ! a" "xs ! b"] A nth_mem [of a xs] nth_mem [of b xs] by (simp add: subset_iff)
  qed (use that in simp)
  note r = search0 [of "length xs" "\<lambda>i. lt x (xs ! i)", folded r_def]
  have m: "\<forall>a b. a \<le> b \<and> b < length xs \<and> lt x (xs ! a) \<longrightarrow> lt x (xs ! b)" using mono by blast
  note r = r [OF m]
  have "lt y x" if y: "y \<in> set (take r xs)" for y
  proof -
    obtain k where "k < r" "k < length xs" "y = xs ! k" using y r(1) by (auto simp: in_set_conv_nth)
    then have "y \<in> set xs" "\<not> lt x y" using r(2) by auto
    then show ?thesis using total [of x y] A new by blast
  qed
  moreover have "lt x y" if "y \<in> set (drop r xs)" for y
    using that r(3) by (auto simp: in_set_conv_nth)
  moreover have "sorted_wrt lt (take r xs @ drop r xs)" using s by simp
  ultimately show ?thesis unfolding r_def [symmetric] insert_at_def by (simp only: sorted_wrt_append sorted_wrt.simps) auto
qed

end

lemma set_insert_at [simp]: "set (insert_at i x xs) = insert x (set xs)"
proof -
  have "set xs = set (take i xs) \<union> set (drop i xs)" by (metis append_take_drop_id set_append)
  then show ?thesis by (auto simp: insert_at_def)
qed

section \<open>The order on a lane\<close>

lemma flt_le_trans: "flt a b \<Longrightarrow> \<not> flt c b \<Longrightarrow> \<not> is_nan a \<Longrightarrow> \<not> is_nan b \<Longrightarrow> \<not> is_nan c \<Longrightarrow> flt a c"
  using flt_incomp_trans [of c b a] by blast

lemma le_flt_trans: "\<not> flt b a \<Longrightarrow> flt b c \<Longrightarrow> \<not> is_nan a \<Longrightarrow> \<not> is_nan b \<Longrightarrow> \<not> is_nan c \<Longrightarrow> flt a c"
  using flt_incomp_trans [of a c b] by blast

lemma feq_iff: "\<not> is_nan a \<Longrightarrow> \<not> is_nan b \<Longrightarrow> feq a b \<longleftrightarrow> \<not> flt a b \<and> \<not> flt b a"
proof -
  assume n: "\<not> is_nan a" "\<not> is_nan b"
  have "min d e = min e d" for d e :: int by simp
  then show ?thesis
    using n by (auto simp: feq_def flt_def is_nan_def Let_def min.commute split: fval.splits)
qed

text \<open>Positions are numbers and ids identify.\<close>

definition pop_ok :: "Engine \<Rightarrow> bool" where
  "pop_ok e \<longleftrightarrow> distinct (map v_ID (e_order e)) \<and> list_all (\<lambda>v. \<not> is_nan (v_S v)) (e_order e)"

lemma pop_veh:
  assumes "pop_ok e" and "k < length (e_order e)"
  shows "\<not> is_nan (v_S (veh e k))"
    and "m < length (e_order e) \<Longrightarrow> v_ID (veh e k) = v_ID (veh e m) \<longleftrightarrow> k = m"
  using assms by (auto simp: pop_ok_def veh_def list_all_iff distinct_conv_nth)

lemma behind_linear: "pop_ok e \<Longrightarrow> linear_on (behind e) {..<length (e_order e)}"
proof
  assume ok: "pop_ok e"
  note n = pop_veh(1) [OF ok] and id = pop_veh(2) [OF ok]
  fix x y
  assume x: "x \<in> {..<length (e_order e)}" and y: "y \<in> {..<length (e_order e)}"
  show "behind e x y \<Longrightarrow> \<not> behind e y x"
    using x y n feq_iff by (auto simp: behind_def dest: flt_asym split: if_splits)
  show "x \<noteq> y \<Longrightarrow> behind e x y \<or> behind e y x"
    using x y n [of x] n [of y] id [of x y] feq_iff by (auto simp: behind_def)
  fix z
  assume z: "z \<in> {..<length (e_order e)}"
  have k: "\<not> is_nan (v_S (veh e x))" "\<not> is_nan (v_S (veh e y))" "\<not> is_nan (v_S (veh e z))" using x y z n by auto
  show "behind e x z" if b: "behind e x y" "behind e y z"
  proof -
    have no: "\<not> flt (v_S (veh e y)) (v_S (veh e x))" "\<not> flt (v_S (veh e z)) (v_S (veh e y))"
      using b k feq_iff by (auto simp: behind_def dest: flt_asym split: if_splits)
    show ?thesis
    proof (cases "flt (v_S (veh e x)) (v_S (veh e y)) \<or> flt (v_S (veh e y)) (v_S (veh e z))")
      case True
      then have "flt (v_S (veh e x)) (v_S (veh e z))" using no k flt_le_trans le_flt_trans by blast
      then show ?thesis using k feq_iff by (simp add: behind_def)
    next
      case False
      then have "v_ID (veh e x) < v_ID (veh e y)" "v_ID (veh e y) < v_ID (veh e z)"
        using b no k feq_iff by (auto simp: behind_def split: if_splits)
      moreover have "\<not> flt (v_S (veh e x)) (v_S (veh e z))" using False k flt_incomp_trans by blast
      ultimately show ?thesis
        using k feq_iff flt_incomp_trans [OF no] by (auto simp: behind_def)
    qed
  qed
qed

definition listed :: "Engine \<Rightarrow> nat set" where "listed e = (if pop_ok e then {..<length (e_order e)} else {})"

lemma listed_ok [simp]: "pop_ok e \<Longrightarrow> listed e = {..<length (e_order e)}"
  by (simp add: listed_def)

interpretation lane_order: linear_on "behind e" "listed e" for e
proof (cases "pop_ok e")
  case True
  then show "linear_on (behind e) (listed e)" using behind_linear by simp
next
  case False
  then show "linear_on (behind e) (listed e)" by unfold_locales (simp_all add: listed_def)
qed

definition occ_ok :: "Engine \<Rightarrow> occupancy \<Rightarrow> bool" where
  "occ_ok e occ \<longleftrightarrow> (\<forall>i. sorted_wrt (behind e) (occ i) \<and>
     set (occ i) = {k. k < length (e_order e) \<and> v_Lane (veh e k) = i})"

lemma rebuild_ok: "pop_ok e \<Longrightarrow> occ_ok e (rebuildOccupancy e)"
proof -
  assume ok: "pop_ok e"
  have "sorted_wrt (behind e) (rebuildOccupancy e i)" for i
    unfolding rebuildOccupancy_def by (rule lane_order.stable_sorted) (use ok in auto)
  then show ?thesis by (auto simp: occ_ok_def rebuildOccupancy_def)
qed

lemma occ_ok_rebuild: "pop_ok e \<Longrightarrow> occ_ok e occ \<longleftrightarrow> occ = rebuildOccupancy e"
proof -
  assume ok: "pop_ok e"
  have "occ i = rebuildOccupancy e i" if "occ_ok e occ" for i
  proof (rule lane_order.one_sorted)
    show "set (occ i) \<subseteq> listed e" "set (rebuildOccupancy e i) = set (occ i)"
      "sorted_wrt (behind e) (occ i)" "sorted_wrt (behind e) (rebuildOccupancy e i)"
      using that rebuild_ok [OF ok] ok by (auto simp: occ_ok_def)
  qed
  then show ?thesis using rebuild_ok [OF ok] by auto
qed

lemma occ_ok_range: "occ_ok e occ \<Longrightarrow> k \<in> set (occ i) \<Longrightarrow> k < length (e_order e)"
  by (auto simp: occ_ok_def)

text \<open>The order reads positions and ids only.\<close>

abbreviation keys :: "Engine \<Rightarrow> (u64 \<times> f64) list" where "keys e \<equiv> map (\<lambda>v. (v_ID v, v_S v)) (e_order e)"

lemma keys_behind: "keys e' = keys e \<Longrightarrow> behind e' = behind e"
proof -
  assume k: "keys e' = keys e"
  have "v_ID (veh e' m) = v_ID (veh e m) \<and> v_S (veh e' m) = v_S (veh e m)" for m
    using nth_map_eq [OF k, of m] by (simp add: veh_def)
  then show ?thesis by (simp add: fun_eq_iff behind_def)
qed

lemma keys_pop:
  assumes "keys e' = keys e"
  shows "pop_ok e' = pop_ok e" and "length (e_order e') = length (e_order e)"
proof -
  have "map v_ID (e_order e') = map v_ID (e_order e)" "map v_S (e_order e') = map v_S (e_order e)"
    using arg_cong [OF assms, of "map fst"] arg_cong [OF assms, of "map snd"] by (simp_all add: comp_def)
  moreover have "pop_ok x \<longleftrightarrow> distinct (map v_ID (e_order x)) \<and> list_all (\<lambda>s. \<not> is_nan s) (map v_S (e_order x))" for x
    by (simp add: pop_ok_def list_all_iff)
  ultimately show "pop_ok e' = pop_ok e" by simp
  show "length (e_order e') = length (e_order e)" using arg_cong [OF assms, of length] by simp
qed

lemma insertVehicle_sorted:
  assumes "pop_ok e" and "insert k (set a) \<subseteq> {..<length (e_order e)}" and "k \<notin> set a" and "sorted_wrt (behind e) a"
  shows "sorted_wrt (behind e) (insertVehicle e k a)" and "set (insertVehicle e k a) = insert k (set a)"
  using lane_order.insert_sorted [of k a e] assms by (simp_all add: insertVehicle_def)

lemma removeVehicle_removes:
  assumes ok: "pop_ok e" and a: "set a \<subseteq> {..<length (e_order e)}" and k: "k \<in> set a" and s: "sorted_wrt (behind e) a"
  shows "removeVehicle e k a = remove1 k a"
proof -
  let ?P = "\<lambda>i. fle (v_S (veh e k)) (v_S (veh e (a ! i)))"
  have n: "\<not> is_nan (v_S (veh e (a ! i)))" if "i < length a" for i using pop_veh(1) [OF ok] a nth_mem [OF that] by blast
  have nk: "\<not> is_nan (v_S (veh e k))" using pop_veh(1) [OF ok] a k by blast
  have le: "fle x y \<longleftrightarrow> \<not> flt y x" if "\<not> is_nan x" "\<not> is_nan y" for x y
    using that feq_iff flt_asym by (auto simp: fle_def)
  have mono: "?P j" if "i \<le> j" "j < length a" "?P i" for i j
  proof (cases "i = j")
    case False
    then have "behind e (a ! i) (a ! j)" using that s by (simp add: sorted_wrt_iff_nth_less)
    then have "\<not> flt (v_S (veh e (a ! j))) (v_S (veh e (a ! i)))"
      using flt_asym n [of i] n [of j] that feq_iff by (auto simp: behind_def split: if_splits)
    then show ?thesis using that le [OF nk n] flt_incomp_trans [OF _ _ nk n n] by auto
  qed (use that in simp)
  define r where "r = sort_search ?P 0 (length a)"
  have r: "r \<le> length a" "\<And>i. i < r \<Longrightarrow> \<not> ?P i"
    using search0(1,2) [of "length a" ?P, folded r_def] mono by blast+
  have "k \<notin> set (take r a)"
  proof
    assume "k \<in> set (take r a)"
    then obtain i where "i < r" "a ! i = k" using r(1) by (auto simp: in_set_conv_nth)
    then show False using r(2) [of i] le [OF nk nk] flt_irrefl by simp
  qed
  then have "remove1 k a = take r a @ remove1 k (drop r a)" by (metis append_take_drop_id remove1_append)
  then show ?thesis by (simp add: removeVehicle_def r_def Let_def)
qed

lemma removeVehicle_sorted:
  assumes ok: "pop_ok e" and a: "set a \<subseteq> {..<length (e_order e)}" and k: "k \<in> set a" and s: "sorted_wrt (behind e) a"
  shows "sorted_wrt (behind e) (removeVehicle e k a)" and "set (removeVehicle e k a) = set a - {k}"
proof -
  note r = removeVehicle_removes [OF assms]
  have "distinct a" using lane_order.sorted_distinct [OF _ s] a ok by simp
  then show "set (removeVehicle e k a) = set a - {k}" by (simp add: r)
  show "sorted_wrt (behind e) (removeVehicle e k a)"
    unfolding r using s by (induction a) (auto dest: notin_set_remove1 set_remove1_subset [THEN subsetD])
qed

section \<open>Lane changes keep the lists\<close>

lemma same_roads_sides:
  assumes "same_roads net net'"
  shows "l_Left (n_Lanes net' ! i) = l_Left (n_Lanes net ! i)" and "l_Right (n_Lanes net' ! i) = l_Right (n_Lanes net ! i)"
proof -
  have r: "(n_Lanes net' ! i)\<lparr>l_ttEMA := 0\<rparr> = (n_Lanes net ! i)\<lparr>l_ttEMA := 0\<rparr>"
    by (rule nth_map_eq) (use assms in \<open>simp add: same_roads_def\<close>)
  show "l_Left (n_Lanes net' ! i) = l_Left (n_Lanes net ! i)" and "l_Right (n_Lanes net' ! i) = l_Right (n_Lanes net ! i)"
    using arg_cong [OF r, of l_Left] arg_cong [OF r, of l_Right] by simp_all
qed

lemma laterals_same: "same_roads net net' \<Longrightarrow> laterals net' = laterals net"
  by (simp add: fun_eq_iff laterals_def Let_def same_roads_sides)

lemma lat_layers_same: "same_roads net net' \<Longrightarrow> lat_layers net' d D F = lat_layers net d D F"
proof (induction net d D F rule: lat_layers.induct)
  case (1 net d D F)
  note same = laterals_same [OF 1(2)] routePreds_same [OF 1(2)]
  show ?case
  proof (cases "F = []")
    case False
    let ?t = "lat_step net d (lat_close (routePreds net) d D [] F)"
    have "lat_step net' d s = lat_step net d s" for s by (simp add: lat_step_def same(1))
    then show ?thesis
      using 1(1) [OF False refl 1(2)] False by (simp add: lat_layers.simps [of net'] lat_layers.simps [of net] Let_def same(2))
  qed (simp add: lat_layers.simps)
qed

lemma routeLatDist_same:
  assumes s: "same_routing e e'"
  shows "routeLatDist (e_Net e') = routeLatDist (e_Net e)"
proof -
  have r: "same_roads (e_Net e) (e_Net e')" using s by (simp add: same_routing_def)
  show ?thesis
    by (simp add: fun_eq_iff routeLatDist_def routeLatDepth_def LaneByID_same [OF s] lat_layers_same [OF r]
        same_roads_nth(1) [OF r] cong: option.case_cong)
qed

text \<open>One step of the phase touches the vehicle it is about; position, speed, id and route stay.\<close>

definition kept :: "Vehicle \<Rightarrow> Vehicle \<Rightarrow> bool" where
  "kept v w \<longleftrightarrow> v_ID w = v_ID v \<and> v_S w = v_S v \<and> v_V w = v_V v \<and> v_Route w = v_Route v \<and> v_TypeIdx w = v_TypeIdx v"

definition step_ok :: "nat \<Rightarrow> lateral_run \<Rightarrow> lateral_run \<Rightarrow> bool" where
  "step_ok k st st' \<longleftrightarrow> same_routing (lc_eng st) (lc_eng st') \<and>
     (\<exists>w. e_order (lc_eng st') = (e_order (lc_eng st))[k := w] \<and> kept (veh (lc_eng st) k) w) \<and>
     (pop_ok (lc_eng st) \<longrightarrow> occ_ok (lc_eng st) (lc_occ st) \<longrightarrow> occ_ok (lc_eng st') (lc_occ st'))"

lemma step_keys:
  assumes "step_ok k st st'"
  shows "keys (lc_eng st') = keys (lc_eng st)"
proof -
  obtain w where w: "e_order (lc_eng st') = (e_order (lc_eng st))[k := w]" "kept (veh (lc_eng st) k) w"
    using assms by (auto simp: step_ok_def)
  then show ?thesis
    by (cases "k < length (e_order (lc_eng st))") (simp_all add: kept_def veh_def map_update list_update_same_conv list_update_beyond)
qed

lemma step_ok_mark:
  assumes k: "k < length (e_order (lc_eng st))" and w: "kept (veh (lc_eng st) k) w" "v_Lane w = v_Lane (veh (lc_eng st) k)"
  shows "step_ok k st (st\<lparr>lc_eng := set_vehicle k w (lc_eng st)\<rparr>)"
proof -
  let ?e = "lc_eng st"
  have keys: "keys (set_vehicle k w ?e) = keys ?e"
    using k w(1) by (simp add: set_vehicle_def kept_def veh_def map_update list_update_same_conv)
  have "v_Lane (veh (set_vehicle k w ?e) m) = v_Lane (veh ?e m)" for m
    using w(2) k by (cases "m = k") (simp_all add: set_vehicle_def veh_def)
  then have "occ_ok (set_vehicle k w ?e) (lc_occ st) = occ_ok ?e (lc_occ st)"
    using keys_behind [OF keys] keys_pop(2) [OF keys] by (simp add: occ_ok_def)
  then show ?thesis using w(1) by (auto simp: step_ok_def set_vehicle_def same_routing_def same_roads_def)
qed

lemma step_ok_refl: "k < length (e_order (lc_eng st)) \<Longrightarrow> step_ok k st st"
  using step_ok_mark [of k st "veh (lc_eng st) k"] by (simp add: kept_def set_vehicle_def veh_def)

lemma exec_shape:
  assumes "k < length (e_order (lc_eng st))" and "neighbour_lane (e_Lanes (lc_eng st) ! v_Lane (veh (lc_eng st) k)) dir = Some t"
  shows "lc_eng (execLaneChange k dir st) = set_vehicle k ((clocked (lc_eng st) (veh (lc_eng st) k))\<lparr>v_Lane := t,
      v_Cooldown := p_LCCooldown (e_Params (lc_eng st))\<rparr>) (noteLaneLeave k (lc_eng st))"
proof -
  have "veh (noteLaneLeave k e) k = clocked e (veh e k)" if "k < length (e_order e)" for e
    using that by (simp add: veh_def note_order)
  then show ?thesis using assms by (auto simp: execLaneChange_def Let_def)
qed

lemma exec_ok:
  assumes k: "k < length (e_order (lc_eng st))"
  shows "step_ok k st (execLaneChange k dir st)"
proof (cases "neighbour_lane (e_Lanes (lc_eng st) ! v_Lane (veh (lc_eng st) k)) dir")
  case None
  then have "execLaneChange k dir st = st" by (simp add: execLaneChange_def)
  then show ?thesis using step_ok_refl [OF k] by simp
next
  case (Some t)
  let ?e = "lc_eng st" and ?i = "v_Lane (veh (lc_eng st) k)" and ?occ = "lc_occ st"
  define w where "w = (clocked ?e (veh ?e k))\<lparr>v_Lane := t, v_Cooldown := p_LCCooldown (e_Params ?e)\<rparr>"
  define e' where "e' = lc_eng (execLaneChange k dir st)"
  have e': "e' = set_vehicle k w (noteLaneLeave k ?e)" unfolding e'_def w_def by (rule exec_shape [OF k Some])
  have kept: "kept (veh ?e k) w" by (simp add: kept_def w_def clocked_def)
  have order: "e_order e' = (e_order ?e)[k := w]" by (simp add: e' set_vehicle_def note_order)
  have keys: "keys e' = keys ?e"
    using k kept by (simp add: order kept_def veh_def map_update list_update_same_conv)
  have lane: "v_Lane (veh e' m) = (if m = k then t else v_Lane (veh ?e m))" for m
    using k by (simp add: order veh_def w_def)
  have occ': "lc_occ (execLaneChange k dir st) =
      (let occ1 = ?occ(?i := removeVehicle ?e k (?occ ?i)) in occ1(t := insertVehicle ?e k (occ1 t)))"
    using Some by (simp add: execLaneChange_def Let_def)
  have "occ_ok e' (lc_occ (execLaneChange k dir st))" if pop: "pop_ok ?e" and ok: "occ_ok ?e ?occ"
  proof -
    have s: "sorted_wrt (behind ?e) (?occ j)" "set (?occ j) = {m. m < length (e_order ?e) \<and> v_Lane (veh ?e m) = j}" for j
      using ok by (auto simp: occ_ok_def)
    have rem: "sorted_wrt (behind ?e) (removeVehicle ?e k (?occ ?i))" "set (removeVehicle ?e k (?occ ?i)) = set (?occ ?i) - {k}"
      by (rule removeVehicle_sorted [OF pop]; use s k in auto)+
    define a where "a = (?occ(?i := removeVehicle ?e k (?occ ?i))) t"
    have a: "sorted_wrt (behind ?e) a" "set a = set (?occ t) - {k}"
      using rem s by (auto simp: a_def)
    have ins: "sorted_wrt (behind ?e) (insertVehicle ?e k a)" "set (insertVehicle ?e k a) = insert k (set a)"
      by (rule insertVehicle_sorted [OF pop]; use a s k in auto)+
    have "sorted_wrt (behind e') (lc_occ (execLaneChange k dir st) j) \<and>
        set (lc_occ (execLaneChange k dir st) j) = {m. m < length (e_order e') \<and> v_Lane (veh e' m) = j}" for j
      unfolding keys_behind [OF keys] keys_pop(2) [OF keys] lane occ' Let_def a_def [symmetric]
      using ins a rem s k by auto
    then show ?thesis by (simp add: occ_ok_def)
  qed
  moreover have "same_routing ?e e'"
    unfolding e' using same_routing_note same_routing_set same_routing_trans by blast
  ultimately show ?thesis using order kept by (auto simp: step_ok_def e'_def)
qed

lemma step_ok_trans:
  assumes "step_ok k a b" "step_ok k b c"
  shows "step_ok k a c"
proof -
  obtain v where v: "e_order (lc_eng b) = (e_order (lc_eng a))[k := v]" "kept (veh (lc_eng a) k) v"
    using assms(1) by (auto simp: step_ok_def)
  obtain w where w: "e_order (lc_eng c) = (e_order (lc_eng b))[k := w]" "kept (veh (lc_eng b) k) w"
    using assms(2) by (auto simp: step_ok_def)
  have "pop_ok (lc_eng b) = pop_ok (lc_eng a)" by (rule keys_pop [OF step_keys [OF assms(1)]])
  moreover have "kept (veh (lc_eng a) k) w"
    using v w by (cases "k < length (e_order (lc_eng a))") (auto simp: kept_def veh_def list_update_beyond)
  moreover have "e_order (lc_eng c) = (e_order (lc_eng a))[k := w]" using v w by simp
  ultimately show ?thesis using assms same_routing_trans unfolding step_ok_def by blast
qed

lemma lateral_one_ok:
  assumes k: "k < length (e_order (lc_eng st))"
  shows "step_ok k st (lateral_one idm st k)"
proof -
  let ?v = "veh (lc_eng st) k"
  have cool: "step_ok k st (st\<lparr>lc_eng := set_vehicle k (?v\<lparr>v_Cooldown := v_Cooldown ?v - 1\<rparr>) (lc_eng st)\<rparr>)"
    by (rule step_ok_mark [OF k]) (simp_all add: kept_def)
  have forced: "step_ok k st (tryForcedLaneChange k st)"
    using exec_ok [OF k] step_ok_refl [OF k] by (simp add: tryForcedLaneChange_def Let_def)
  have recovery: "step_ok k st (snd (tryRouteRecovery k st))"
    using exec_ok [OF k] step_ok_refl [OF k] by (simp add: tryRouteRecovery_def Let_def split: option.split)
  have mobil: "step_ok k st (tryLaneChange k st)"
  proof -
    obtain d rng where d: "DecideLaneChange (PolicyContext (lc_eng st) (lc_occ st) k) (e_Params (lc_eng st)) (v_rng ?v) = (d, rng)"
      by fastforce
    let ?st = "st\<lparr>lc_eng := set_vehicle k (?v\<lparr>v_rng := rng\<rparr>) (lc_eng st)\<rparr>"
    have "step_ok k st ?st" by (rule step_ok_mark [OF k]) (simp_all add: kept_def)
    moreover have "step_ok k ?st (execLaneChange k d ?st)" by (rule exec_ok) (use k in \<open>simp add: set_vehicle_def\<close>)
    ultimately show ?thesis using step_ok_trans by (auto simp: tryLaneChange_def d Let_def)
  qed
  have "snd (tryRouteRecovery k st) = st" if "\<not> fst (tryRouteRecovery k st)"
    using that by (simp add: tryRouteRecovery_def Let_def split: option.splits)
  then show ?thesis
    using cool forced recovery mobil by (auto simp: lateral_one_def Let_def split: prod.split)
qed

lemma lateral_fold_ok:
  assumes "\<And>k. k \<in> set ks \<Longrightarrow> k < length (e_order (lc_eng st))"
  shows "same_routing (lc_eng st) (lc_eng (foldl (lateral_one idm) st ks)) \<and>
    keys (lc_eng (foldl (lateral_one idm) st ks)) = keys (lc_eng st) \<and>
    (pop_ok (lc_eng st) \<longrightarrow> occ_ok (lc_eng st) (lc_occ st) \<longrightarrow>
      occ_ok (lc_eng (foldl (lateral_one idm) st ks)) (lc_occ (foldl (lateral_one idm) st ks)))"
  using assms
proof (induction ks arbitrary: st)
  case (Cons k ks)
  let ?st = "lateral_one idm st k"
  have k: "step_ok k st ?st" using Cons.prems by (intro lateral_one_ok) simp
  note keys = step_keys [OF k] and pop = keys_pop [OF step_keys [OF k]]
  have "\<And>m. m \<in> set ks \<Longrightarrow> m < length (e_order (lc_eng ?st))" using Cons.prems pop(2) by simp
  note ih = Cons.IH [OF this]
  have "same_routing (lc_eng st) (lc_eng (foldl (lateral_one idm) ?st ks))"
    using k ih same_routing_trans unfolding step_ok_def by blast
  then show ?case using ih keys pop(1) k by (auto simp: step_ok_def)
qed simp

lemma laneChanges_core:
  "pop_ok e \<Longrightarrow> occ_ok (lc_eng (laneChanges e (rebuildOccupancy e))) (lc_occ (laneChanges e (rebuildOccupancy e)))"
  "same_routing e (lc_eng (laneChanges e occ))" "keys (lc_eng (laneChanges e occ)) = keys e"
  using lateral_fold_ok [of "stable_sort (ahead_of e) [0..<length (e_order e)]"
      "\<lparr>lc_eng = e, lc_occ = rebuildOccupancy e, lc_LaneChanges = 0\<rparr>" "idmPolicy e"]
    lateral_fold_ok [of "stable_sort (ahead_of e) [0..<length (e_order e)]"
      "\<lparr>lc_eng = e, lc_occ = occ, lc_LaneChanges = 0\<rparr>" "idmPolicy e"] rebuild_ok [of e]
  by (simp_all add: laneChanges_def)

section \<open>One hop\<close>

text \<open>The route guardrail and the neighbour relation between the lanes of a hop.\<close>

definition hop_ok :: "Engine \<Rightarrow> Vehicle \<Rightarrow> Vehicle \<Rightarrow> bool" where
  "hop_ok e v w \<longleftrightarrow> v_Lane w \<noteq> v_Lane v \<longrightarrow>
     v_Cooldown v = 0 \<and> v_Cooldown w = p_LCCooldown (e_Params e) \<and> v_Lane w \<in> set (laterals (e_Net e) (v_Lane v)) \<and>
     (let d = routeLatDist (e_Net e) (v_Lane v) (v_Route v); d' = routeLatDist (e_Net e) (v_Lane w) (v_Route v) in
      v_Route v \<noteq> [] \<and> 0 \<le> d \<longrightarrow> 0 \<le> d' \<and> d' \<le> d)"

lemma neighbour_lateral: "neighbour_lane (n_Lanes net ! i) dir = Some t \<Longrightarrow> t \<in> set (laterals net i)"
  by (auto simp: neighbour_lane_def laterals_def Let_def split: if_splits)

lemma routeHopOK_gradient:
  assumes "routeHopOK e v dir" and "dir \<noteq> 0" and "neighbour_lane (cur_lane e v) dir = Some t"
  shows "let d = routeLatDist (e_Net e) (v_Lane v) (v_Route v); d' = routeLatDist (e_Net e) t (v_Route v) in
    v_Route v \<noteq> [] \<and> 0 \<le> d \<longrightarrow> 0 \<le> d' \<and> d' \<le> d"
  using assms by (auto simp: routeHopOK_def neighbour_lane_def Let_def split: if_splits)

lemma recovery_gradient:
  assumes "recovery_dir e v = Some dir"
  shows "dir \<noteq> 0" and "\<exists>t. neighbour_lane (cur_lane e v) dir = Some t \<and>
    0 \<le> routeLatDist (e_Net e) t (v_Route v) \<and> routeLatDist (e_Net e) t (v_Route v) < routeLatDist (e_Net e) (v_Lane v) (v_Route v)"
  using assms
  by (auto simp: recovery_dir_def recovery_better_def neighbour_lane_def Let_def not_le not_less
      split: if_splits option.splits)

lemma hop_ok_same:
  assumes "same_routing e e'"
  shows "hop_ok e' v w = hop_ok e v w"
proof -
  have r: "same_roads (e_Net e) (e_Net e')" using assms by (simp add: same_routing_def)
  show ?thesis using assms by (simp add: hop_ok_def laterals_same [OF r] routeLatDist_same [OF assms] same_routing_def)
qed

lemma exec_hop:
  assumes "k < length (e_order (lc_eng st))" and "v_Cooldown (veh (lc_eng st) k) = 0"
    and grad: "\<And>t. neighbour_lane (cur_lane (lc_eng st) (veh (lc_eng st) k)) dir = Some t \<Longrightarrow>
      (let d = routeLatDist (e_Net (lc_eng st)) (v_Lane (veh (lc_eng st) k)) (v_Route (veh (lc_eng st) k));
           d' = routeLatDist (e_Net (lc_eng st)) t (v_Route (veh (lc_eng st) k)) in
        v_Route (veh (lc_eng st) k) \<noteq> [] \<and> 0 \<le> d \<longrightarrow> 0 \<le> d' \<and> d' \<le> d)"
  shows "hop_ok (lc_eng st) (veh (lc_eng st) k) (veh (lc_eng (execLaneChange k dir st)) k)"
proof (cases "neighbour_lane (e_Lanes (lc_eng st) ! v_Lane (veh (lc_eng st) k)) dir")
  case None
  then have "execLaneChange k dir st = st" by (simp add: execLaneChange_def)
  then show ?thesis by (simp add: hop_ok_def)
next
  case (Some t)
  let ?w = "veh (lc_eng (execLaneChange k dir st)) k"
  have w: "v_Lane ?w = t" "v_Cooldown ?w = p_LCCooldown (e_Params (lc_eng st))"
    using assms(1) by (simp_all add: exec_shape [OF assms(1) Some] set_vehicle_def veh_def note_order)
  show ?thesis
    using assms(2) grad [of t] Some neighbour_lateral [OF Some] by (simp add: hop_ok_def w cur_lane_def)
qed

lemma hop_stays: "v_Lane w = v_Lane v \<Longrightarrow> hop_ok e v w"
  by (simp add: hop_ok_def)

lemma lateral_one_hop:
  assumes k: "k < length (e_order (lc_eng st))"
  shows "hop_ok (lc_eng st) (veh (lc_eng st) k) (veh (lc_eng (lateral_one idm st k)) k)"
proof (cases "0 < v_Cooldown (veh (lc_eng st) k)")
  case True
  then show ?thesis using k by (intro hop_stays) (simp add: lateral_one_def Let_def set_vehicle_def veh_def)
next
  case False
  let ?e = "lc_eng st" let ?v = "veh ?e k"
  have zero: "v_Cooldown ?v = 0" using False by (simp add: word_gt_0)
  have forced: "hop_ok ?e ?v (veh (lc_eng (tryForcedLaneChange k st)) k)" if "v_reqLane ?v \<noteq> 0"
  proof (cases "routeHopOK ?e ?v (v_reqLane ?v)")
    case True
    then show ?thesis
      using exec_hop [OF k zero routeHopOK_gradient [OF True that]] by (simp add: tryForcedLaneChange_def Let_def hop_stays)
  qed (simp add: tryForcedLaneChange_def Let_def hop_stays)
  have recovery: "hop_ok ?e ?v (veh (lc_eng (snd (tryRouteRecovery k st))) k)"
  proof (cases "recovery_dir ?e ?v")
    case (Some dir)
    from recovery_gradient(2) [OF Some] obtain t where t: "neighbour_lane (cur_lane ?e ?v) dir = Some t"
      "0 \<le> routeLatDist (e_Net ?e) t (v_Route ?v)"
      "routeLatDist (e_Net ?e) t (v_Route ?v) < routeLatDist (e_Net ?e) (v_Lane ?v) (v_Route ?v)" by blast
    have "hop_ok ?e ?v (veh (lc_eng (execLaneChange k dir st)) k)" by (rule exec_hop [OF k zero]) (use t(2,3) in \<open>simp add: t(1) Let_def\<close>)
    then show ?thesis by (simp add: tryRouteRecovery_def Let_def Some hop_stays)
  qed (simp add: tryRouteRecovery_def Let_def hop_stays)
  have mobil: "hop_ok ?e ?v (veh (lc_eng (tryLaneChange k st)) k)"
  proof -
    obtain d rng where d: "DecideLaneChange (PolicyContext ?e (lc_occ st) k) (e_Params ?e) (v_rng ?v) = (d, rng)" by fastforce
    define st1 where "st1 = st\<lparr>lc_eng := set_vehicle k (?v\<lparr>v_rng := rng\<rparr>) ?e\<rparr>"
    have v1: "veh (lc_eng st1) k = ?v\<lparr>v_rng := rng\<rparr>" "k < length (e_order (lc_eng st1))"
      using k by (simp_all add: st1_def set_vehicle_def veh_def)
    have same: "hop_ok (lc_eng st1) (?v\<lparr>v_rng := rng\<rparr>) w = hop_ok ?e ?v w" for w
      using hop_ok_same [of ?e "lc_eng st1"] by (simp add: st1_def) (simp add: hop_ok_def)
    have "hop_ok (lc_eng st1) (veh (lc_eng st1) k) (veh (lc_eng (execLaneChange k d st1)) k)"
      if "d \<noteq> 0" "routeHopOK (lc_eng st1) (veh (lc_eng st1) k) d"
      by (rule exec_hop [OF v1(2) _ routeHopOK_gradient [OF that(2,1)]]) (use zero in \<open>simp_all add: v1\<close>)
    moreover have "tryLaneChange k st =
        (if d \<noteq> 0 \<and> routeHopOK (lc_eng st1) (veh (lc_eng st1) k) d then execLaneChange k d st1 else st1)"
      unfolding tryLaneChange_def Let_def d st1_def by simp
    moreover have "hop_ok ?e ?v (veh (lc_eng st1) k)" by (simp add: v1(1) hop_stays)
    ultimately show ?thesis using same by (simp add: v1(1))
  qed
  have "snd (tryRouteRecovery k st) = st" if "\<not> fst (tryRouteRecovery k st)"
    using that by (simp add: tryRouteRecovery_def Let_def split: option.splits)
  then show ?thesis
    using False forced recovery mobil by (auto simp: lateral_one_def Let_def split: prod.split)
qed

lemma lateral_fold_hop:
  assumes "\<And>k. k \<in> set ks \<Longrightarrow> k < length (e_order (lc_eng st))" and "distinct ks"
  shows "if m \<in> set ks then kept (veh (lc_eng st) m) (veh (lc_eng (foldl (lateral_one idm) st ks)) m) \<and>
      hop_ok (lc_eng st) (veh (lc_eng st) m) (veh (lc_eng (foldl (lateral_one idm) st ks)) m)
    else veh (lc_eng (foldl (lateral_one idm) st ks)) m = veh (lc_eng st) m"
  using assms
proof (induction ks arbitrary: st)
  case (Cons k ks)
  let ?st = "lateral_one idm st k"
  have k: "k < length (e_order (lc_eng st))" using Cons.prems by simp
  have one: "step_ok k st ?st" by (rule lateral_one_ok [OF k])
  have hop: "hop_ok (lc_eng st) (veh (lc_eng st) k) (veh (lc_eng ?st) k)" by (rule lateral_one_hop [OF k])
  have same: "same_routing (lc_eng st) (lc_eng ?st)" using one by (simp add: step_ok_def)
  obtain w where w: "e_order (lc_eng ?st) = (e_order (lc_eng st))[k := w]" "kept (veh (lc_eng st) k) w"
    using one by (auto simp: step_ok_def)
  have at: "veh (lc_eng ?st) k = w" "\<And>m. m \<noteq> k \<Longrightarrow> veh (lc_eng ?st) m = veh (lc_eng st) m"
    using w(1) k by (simp_all add: veh_def)
  have "\<And>m. m \<in> set ks \<Longrightarrow> m < length (e_order (lc_eng ?st))" using Cons.prems w(1) by simp
  note ih = Cons.IH [OF this]
  show ?case
  proof (cases "m = k")
    case True
    then show ?thesis using ih Cons.prems(2) at(1) w(2) hop by simp
  next
    case False
    then show ?thesis using ih Cons.prems(2) at(2) hop_ok_same [OF same] by (simp split: if_splits)
  qed
qed simp

section \<open>Claims\<close>

text \<open>
  C4: (equivalence) The occupancy lists that the lateral phase maintains by insertion and removal are
  what a rebuild from the population would produce. A restored run, which rebuilds, therefore
  continues from the lists the live run holds.
\<close>

theorem occupancy_in_sync:
  assumes "pop_ok e"
  shows "lc_occ (laneChanges e (rebuildOccupancy e)) = rebuildOccupancy (lc_eng (laneChanges e (rebuildOccupancy e)))"
proof -
  have "pop_ok (lc_eng (laneChanges e (rebuildOccupancy e)))"
    using assms keys_pop(1) [OF laneChanges_core(3)] by simp
  then show ?thesis using laneChanges_core(1) [OF assms] occ_ok_rebuild by blast
qed

text \<open>
  C11: (safety) Over a whole lateral phase a vehicle keeps its position, speed, type and route and
  makes at most one hop: to a lane beside its own, only with its cooldown at zero, which the hop
  restarts, and, when it is routed and its destination can be reached, never to a lane that needs
  more lane changes to get there.
\<close>

theorem lateral_hop:
  assumes "k < length (e_order e)"
  shows "kept (veh e k) (veh (lc_eng (laneChanges e occ)) k) \<and> hop_ok e (veh e k) (veh (lc_eng (laneChanges e occ)) k)"
proof -
  have d: "distinct (stable_sort (ahead_of e) [0..<length (e_order e)])"
    using mset_stable_sort [of "ahead_of e" "[0..<length (e_order e)]"] by (metis distinct_upt mset_eq_imp_distinct_iff)
  then show ?thesis
    using assms lateral_fold_hop [of "stable_sort (ahead_of e) [0..<length (e_order e)]"
        "\<lparr>lc_eng = e, lc_occ = occ, lc_LaneChanges = 0\<rparr>" k "idmPolicy e"]
    by (simp add: laneChanges_def)
qed

text \<open>
  (safety) In a live run, where no driving policy runs in the kernel, every lane change, commanded
  or for the route, passed every gate with the limits that are never relaxed: hard gaps, the
  kinematic floor for both new pairs, and both safe-braking bounds, on the state it was made in.
\<close>

theorem live_hop_gated:
  assumes "k < length (e_order (lc_eng st))"
    and "v_Lane (veh (lc_eng (lateral_one False st k)) k) \<noteq> v_Lane (veh (lc_eng st) k)"
  shows "\<exists>dir x. side_of (PolicyContext (lc_eng st) (lc_occ st) k) dir = Some x \<and>
    evalSide (PolicyContext (lc_eng st) (lc_occ st) k) (e_Params (lc_eng st)) x
      (p_MinGapLC (e_Params (lc_eng st))) (p_BSafe (e_Params (lc_eng st))) \<noteq> None"
proof -
  have "\<exists>dir. ForcedFeasible (PolicyContext (lc_eng st) (lc_occ st) k) (e_Params (lc_eng st)) dir"
  proof (rule ccontr)
    assume "\<not> ?thesis"
    then have "v_Lane (veh (lc_eng (lateral_one False st k)) k) = v_Lane (veh (lc_eng st) k)"
      using assms(1)
      by (auto simp: lateral_one_def tryForcedLaneChange_def tryRouteRecovery_def Let_def set_vehicle_def veh_def
          split: option.split)
    then show False using assms(2) by simp
  qed
  then obtain dir where "ForcedFeasible (PolicyContext (lc_eng st) (lc_occ st) k) (e_Params (lc_eng st)) dir" ..
  then show ?thesis unfolding ForcedFeasible_def by (cases "side_of (PolicyContext (lc_eng st) (lc_occ st) k) dir") force+
qed

section \<open>Witnesses\<close>

text \<open>Two lanes side by side; the second vehicle is told to move left and has the room.\<close>

definition pair_engine :: Engine where
  "pair_engine = demo_engine\<lparr>e_Net := \<lparr>n_Lanes = [demo_lane\<lparr>l_Left := Some 1\<rparr>, demo_lane\<lparr>l_ID := ''b'', l_Right := Some 0\<rparr>],
     n_Origins = [0], n_Signals = []\<rparr>, e_scen := demo_scen\<lparr>sc_UncontrolledPolicy := ''holdlast''\<rparr>,
     e_order := [demo_vehicle 1, (demo_vehicle 2)\<lparr>v_S := f64_lit 50 1, v_reqLane := 1\<rparr>]\<rparr>"

definition pair_run :: lateral_run where
  "pair_run = \<lparr>lc_eng = pair_engine, lc_occ = rebuildOccupancy pair_engine, lc_LaneChanges = 0\<rparr>"

lemma pair_moves: "v_Lane (veh (lc_eng (lateral_one False pair_run 1)) 1) = 1"
  by code_simp

lemma occupancy_in_sync_witness:
  "lc_occ (laneChanges pair_engine (rebuildOccupancy pair_engine)) =
   rebuildOccupancy (lc_eng (laneChanges pair_engine (rebuildOccupancy pair_engine)))"
proof -
  have "pop_ok pair_engine" by code_simp
  then show ?thesis by (rule occupancy_in_sync)
qed

lemma lateral_hop_witness: "hop_ok pair_engine (veh pair_engine 1) (veh (lc_eng (laneChanges pair_engine (\<lambda>_. []))) 1)"
  using lateral_hop [of 1 pair_engine "\<lambda>_. []"] by (simp add: pair_engine_def)

lemma live_hop_gated_witness:
  "\<exists>dir x. side_of (PolicyContext pair_engine (rebuildOccupancy pair_engine) 1) dir = Some x \<and>
    evalSide (PolicyContext pair_engine (rebuildOccupancy pair_engine) 1) (e_Params pair_engine) x
      (p_MinGapLC (e_Params pair_engine)) (p_BSafe (e_Params pair_engine)) \<noteq> None"
proof -
  have "v_Lane (veh pair_engine 1) = 0" "length (e_order pair_engine) = 2" by code_simp+
  then show ?thesis using live_hop_gated [of 1 pair_run] pair_moves by (simp add: pair_run_def)
qed

end
