(* ===== verification/Accel.thy ===== *)
theory Accel
  imports RightOfWay OccSync
begin

text \<open>
  \<open>computeAccels\<close> of \<open>engine/engine.go\<close>: the longitudinal decision of every vehicle, then the two
  gates that cap every control path. The coasting and gate counters, which no decision reads, are
  left out.
\<close>

definition safetyStandstill :: f64 where "safetyStandstill = f64_lit 1 4"

definition safetyGate :: "Engine \<Rightarrow> occupancy \<Rightarrow> nat \<Rightarrow> Vehicle \<Rightarrow> f64 option" where
  "safetyGate e occ k v =
     (let b = p_SafetyDecel (e_Params e); dt = p_Dt (e_Params e); lead = leader e occ k in
      if fle b 0 then None
      else if \<not> li_OK lead then None
      else let r = fsub (li_Gap lead) safetyStandstill; room = (if flt r 0 then 0 else r); bdt = fmul b dt;
               x = fadd (fneg bdt) (f64_sqrt (fadd (fadd (fmul bdt bdt) (fmul (li_V lead) (li_V lead)))
                 (fmul (fmul (f64_lit 2 1) b) room)));
               vMax = (if flt x 0 then 0 else x); a = fdiv (fsub vMax (v_V v)) dt in
        Some (if flt a (fneg b) then fneg b else a))"

definition commanded :: "Engine \<Rightarrow> occupancy \<Rightarrow> bool \<Rightarrow> nat \<Rightarrow> f64" where
  "commanded e occ idm k =
     (let v = veh e k in
      if v_reqAccOK v then intentAccel e v
      else if v_CruiseOK v then cruiseAccel e v (p_Dt (e_Params e))
      else if idm then accelOnLane e v (v_Lane v) (leader e occ k)
      else 0)"

definition cap_accel :: "f64 option \<Rightarrow> Vehicle \<Rightarrow> Vehicle" where
  "cap_accel w v = (case w of None \<Rightarrow> v | Some a \<Rightarrow> if flt a (v_Acc v) then v\<lparr>v_Acc := a\<rparr> else v)"

definition accel_vehicle :: "Engine \<Rightarrow> occupancy \<Rightarrow> bool \<Rightarrow> nat \<Rightarrow> Vehicle" where
  "accel_vehicle e occ idm k =
     (let v1 = (veh e k)\<lparr>v_Acc := commanded e occ idm k\<rparr>; (w, v2) = rowGate e occ v1; v3 = cap_accel w v2 in
      cap_accel (safetyGate e occ k v3) v3)"

definition accel_one :: "occupancy \<Rightarrow> bool \<Rightarrow> Engine \<Rightarrow> nat \<Rightarrow> Engine" where
  "accel_one occ idm e k = set_vehicle k (accel_vehicle e occ idm k) e"

definition computeAccels :: "Engine \<Rightarrow> occupancy \<Rightarrow> Engine" where
  "computeAccels e occ = foldl (accel_one occ (idmPolicy e)) e [0..<length (e_order e)]"

section \<open>One snapshot\<close>

text \<open>
  The decisions read of another vehicle everything but its acceleration and its stop flag, so an
  engine whose vehicles differ in these two only gives the same answers.
\<close>

definition visible :: "Vehicle \<Rightarrow> Vehicle" where "visible v = v\<lparr>v_Acc := 0, v_stopDone := False\<rparr>"

lemma visible_sel [simp]:
  "v_ID (visible v) = v_ID v" "v_TypeIdx (visible v) = v_TypeIdx v" "v_Lane (visible v) = v_Lane v" "v_S (visible v) = v_S v"
  "v_V (visible v) = v_V v" "v_HeldTurn (visible v) = v_HeldTurn v" "v_Route (visible v) = v_Route v"
  by (simp_all add: visible_def)

lemma visible_fields:
  assumes "visible v = visible w"
  shows "v_ID v = v_ID w" "v_TypeIdx v = v_TypeIdx w" "v_Lane v = v_Lane w" "v_S v = v_S w" "v_V v = v_V w"
    "v_HeldTurn v = v_HeldTurn w" "v_Route v = v_Route w"
  using arg_cong [OF assms, of v_ID] arg_cong [OF assms, of v_TypeIdx] arg_cong [OF assms, of v_Lane]
    arg_cong [OF assms, of v_S] arg_cong [OF assms, of v_V] arg_cong [OF assms, of v_HeldTurn]
    arg_cong [OF assms, of v_Route] by (simp_all only: visible_sel)

abbreviation same_view :: "Engine \<Rightarrow> Vehicle list \<Rightarrow> bool" where
  "same_view e vs \<equiv> map visible vs = map visible (e_order e)"

lemma veh_view:
  assumes "same_view e vs"
  shows "v_ID (veh (e\<lparr>e_order := vs\<rparr>) k) = v_ID (veh e k)" "v_TypeIdx (veh (e\<lparr>e_order := vs\<rparr>) k) = v_TypeIdx (veh e k)"
    "v_Lane (veh (e\<lparr>e_order := vs\<rparr>) k) = v_Lane (veh e k)" "v_S (veh (e\<lparr>e_order := vs\<rparr>) k) = v_S (veh e k)"
    "v_V (veh (e\<lparr>e_order := vs\<rparr>) k) = v_V (veh e k)" "v_HeldTurn (veh (e\<lparr>e_order := vs\<rparr>) k) = v_HeldTurn (veh e k)"
    "v_Route (veh (e\<lparr>e_order := vs\<rparr>) k) = v_Route (veh e k)"
proof -
  have "visible (veh (e\<lparr>e_order := vs\<rparr>) k) = visible (veh e k)" using nth_map_eq [OF assms] by (simp add: veh_def)
  note visible_fields [OF this]
  then show "v_ID (veh (e\<lparr>e_order := vs\<rparr>) k) = v_ID (veh e k)" "v_TypeIdx (veh (e\<lparr>e_order := vs\<rparr>) k) = v_TypeIdx (veh e k)"
    "v_Lane (veh (e\<lparr>e_order := vs\<rparr>) k) = v_Lane (veh e k)" "v_S (veh (e\<lparr>e_order := vs\<rparr>) k) = v_S (veh e k)"
    "v_V (veh (e\<lparr>e_order := vs\<rparr>) k) = v_V (veh e k)" "v_HeldTurn (veh (e\<lparr>e_order := vs\<rparr>) k) = v_HeldTurn (veh e k)"
    "v_Route (veh (e\<lparr>e_order := vs\<rparr>) k) = v_Route (veh e k)" by simp_all
qed

lemma route_tables_order [simp]:
  "routeWeight (e\<lparr>e_order := vs\<rparr>) = routeWeight e" "free_weight (e\<lparr>e_order := vs\<rparr>) = free_weight e"
  by (simp_all add: fun_eq_iff routeWeight_def free_weight_def)

lemma epochTicks_order [simp]: "routeEpochTicks (e\<lparr>e_order := vs\<rparr>) = routeEpochTicks e"
  by (rule epochTicks_params) simp

lemma staticRouteTable_order [simp]: "staticRouteTable (e\<lparr>e_order := vs\<rparr>) rc d = staticRouteTable e rc d"
  by (simp add: staticRouteTable_def static_table_def cong: option.case_cong)

lemma rerouteTable_order [simp]: "rerouteTable (e\<lparr>e_order := vs\<rparr>) t d = rerouteTable e t d"
  by (simp add: rerouteTable_def)

lemma routeTable_order [simp]: "routeTable (e\<lparr>e_order := vs\<rparr>) rc d = routeTable e rc d"
  by (simp add: routeTable_def Let_def cong: option.case_cong if_cong)

lemma routeNextHop_order [simp]: "routeNextHop (e\<lparr>e_order := vs\<rparr>) rc i r = routeNextHop e rc i r"
  by (simp add: routeNextHop_def Let_def cong: option.case_cong if_cong)

lemma pick_order [simp]: "pickSuccessor (e\<lparr>e_order := vs\<rparr>) rc i v = pickSuccessor e rc i v"
  by (simp add: pickSuccessor_def cong: list.case_cong if_cong)

text \<open>What reads no vehicle at all.\<close>

lemmas under_cases = if_cong option.case_cong list.case_cong prod.case_cong SigState.case_cong

lemma static_view [simp]:
  "lane_of (e\<lparr>e_order := vs\<rparr>) i = lane_of e i" "vtype (e\<lparr>e_order := vs\<rparr>) v = vtype e v" "v0eff (e\<lparr>e_order := vs\<rparr>) v i = v0eff e v i"
  "branch (e\<lparr>e_order := vs\<rparr>) i v = branch e i v" "sigPhaseAt (e\<lparr>e_order := vs\<rparr>) p t = sigPhaseAt e p t"
  by (simp_all add: lane_of_def vtype_def v0eff_def branch_def sigPhaseAt_def)

lemma signal_view [simp]:
  "sigState (e\<lparr>e_order := vs\<rparr>) l = sigState e l" "sigPermissive (e\<lparr>e_order := vs\<rparr>) l = sigPermissive e l"
  by (simp_all add: sigState_def sigPermissive_def Let_def cong: under_cases)

lemma spanOnset_view [simp]: "sigSpanOnset (e\<lparr>e_order := vs\<rparr>) p t = sigSpanOnset e p t"
  by (simp add: sigSpanOnset_def cong: under_cases)

lemma displayed_walk_view [simp]: "displayed_walk (e\<lparr>e_order := vs\<rparr>) p k st t on b = displayed_walk e p k st t on b"
  by (induction e p k st t on b rule: displayed_walk.induct) (subst (1 2) displayed_walk.simps, simp split: prod.split)

lemma clearance_view [simp]: "sigInClearance (e\<lparr>e_order := vs\<rparr>) l = sigInClearance e l"
  by (simp add: sigInClearance_def sigDisplayedOnset_def Let_def cong: under_cases)

lemma control_view [simp]:
  "controlled (e\<lparr>e_order := vs\<rparr>) x = controlled e x" "downstreamHold (e\<lparr>e_order := vs\<rparr>) x = downstreamHold e x"
  "foes_inside (e\<lparr>e_order := vs\<rparr>) occ x = foes_inside e occ x" "foeSignalClass (e\<lparr>e_order := vs\<rparr>) x = foeSignalClass e x"
  "foe_yields (e\<lparr>e_order := vs\<rparr>) x = foe_yields e x" "permissive (e\<lparr>e_order := vs\<rparr>) x = permissive e x"
  by (simp_all add: controlled_def downstreamHold_def foes_inside_def foeSignalClass_def foe_yields_def permissive_def Let_def
      cong: under_cases)

lemma gate_walk_view [simp]: "gate_walk (e\<lparr>e_order := vs\<rparr>) f d p cur = gate_walk e f d p cur"
  by (induction f arbitrary: d p cur) (simp_all add: Let_def)

text \<open>What reads other vehicles.\<close>

lemma vlen_view: "same_view e vs \<Longrightarrow> vlen (e\<lparr>e_order := vs\<rparr>) k = vlen e k"
  by (simp add: vlen_def vtype_def veh_view)

lemma vtype_view: "same_view e vs \<Longrightarrow> vtype e (veh (e\<lparr>e_order := vs\<rparr>) k) = vtype e (veh e k)"
  by (simp add: vtype_def veh_view)

lemma branch_steer: "v_HeldTurn p = v_HeldTurn q \<Longrightarrow> v_Route p = v_Route q \<Longrightarrow> branch e i p = branch e i q"
  by (simp add: branch_def pick_unfold(1) cong: under_cases)

lemma leader_walk_view:
  assumes "same_view e vs"
  shows "rel_option (\<lambda>a b. v_HeldTurn a = v_HeldTurn b \<and> v_Route a = v_Route b) p q \<Longrightarrow>
    leader_walk (e\<lparr>e_order := vs\<rparr>) occ lane skip p f d cur = leader_walk e occ lane skip q f d cur"
proof (induction f arbitrary: p q d cur)
  case (Suc f)
  have n: "rel_option (\<lambda>a b. v_HeldTurn a = v_HeldTurn b \<and> v_Route a = v_Route b)
      (map_option (\<lambda>p. p\<lparr>v_HeldTurn := 0\<rparr>) p) (map_option (\<lambda>p. p\<lparr>v_HeldTurn := 0\<rparr>) q)"
    using Suc.prems by (cases p; cases q) simp_all
  have b: "(case p of None \<Rightarrow> s | Some p \<Rightarrow> if ss \<noteq> [] then branch e cur p else s) =
      (case q of None \<Rightarrow> s | Some q \<Rightarrow> if ss \<noteq> [] then branch e cur q else s)" for s and ss :: "nat list"
    using Suc.prems by (cases p; cases q) (auto intro: branch_steer)
  show ?case
  proof (cases "l_Successors (e_Lanes e ! cur)")
    case Nil
    then show ?thesis by simp
  next
    case (Cons s ss)
    define j where "j = (case q of None \<Rightarrow> s | Some q \<Rightarrow> if ss \<noteq> [] then branch e cur q else s)"
    have "(case p of None \<Rightarrow> s | Some p \<Rightarrow> if ss \<noteq> [] then branch (e\<lparr>e_order := vs\<rparr>) cur p else s) = j"
      using b [of s ss] by (simp add: j_def cong: under_cases)
    then show ?thesis
      using Cons Suc.IH [OF n, of "fadd d (l_Length (e_Lanes e ! j))" j]
      by (simp add: Let_def j_def [symmetric] veh_view [OF assms] vlen_view [OF assms] cong: under_cases split del: if_split)
  qed
qed simp


lemma first_beyond_view: "same_view e vs \<Longrightarrow> first_beyond (e\<lparr>e_order := vs\<rparr>) s a = first_beyond e s a"
  by (simp add: first_beyond_def veh_view)

lemma leader_view: "same_view e vs \<Longrightarrow> leader (e\<lparr>e_order := vs\<rparr>) occ k = leader e occ k"
  using leader_walk_view [of vs e "Some (veh (e\<lparr>e_order := vs\<rparr>) k)" "Some (veh e k)"]
  by (simp add: leader_def leaderAt_def leaderAtFor_def veh_view vlen_view first_beyond_view cong: list.case_cong)

lemma enqueue_view [simp]: "enqueue_prev (e\<lparr>e_order := vs\<rparr>) = enqueue_prev e"
  by (simp add: fun_eq_iff enqueue_prev_def)

lemma merge_scan_view:
  assumes "same_view e vs"
  shows "merge_scan (e\<lparr>e_order := vs\<rparr>) occ v d work seen = merge_scan e occ v d work seen"
  using assms
proof (induction e occ v d work seen rule: merge_scan.induct)
  case (2 e occ v d it work seen)
  show ?case
  proof (cases "occ (fst it) = []")
    case True
    then show ?thesis using 2(2) [OF refl _ refl] 2(3) by (simp add: Let_def)
  next
    case False
    then show ?thesis using 2(1) [OF refl _ refl refl] 2(3) by (simp add: Let_def veh_view)
  qed
qed simp

lemma mergeThreat_view: "same_view e vs \<Longrightarrow> mergeThreat (e\<lparr>e_order := vs\<rparr>) = mergeThreat e"
  by (simp add: fun_eq_iff mergeThreat_def merge_scan_view)

lemma exit_walk_view:
  assumes "same_view e vs"
  shows "exit_walk (e\<lparr>e_order := vs\<rparr>) occ v ib need f fr d p cur = exit_walk e occ v ib need f fr d p cur"
proof (induction f arbitrary: fr d p cur)
  case (Suc f)
  show ?case
    by (simp add: Let_def Suc.IH mergeThreat_view [OF assms] veh_view [OF assms] vlen_view [OF assms]
        cong: under_cases split del: if_split)
qed simp

lemma box_view:
  assumes "same_view e vs"
  shows "boxBlocked (e\<lparr>e_order := vs\<rparr>) occ v x = boxBlocked e occ v x"
    "exitBlocked (e\<lparr>e_order := vs\<rparr>) occ v x ib = exitBlocked e occ v x ib"
  by (simp_all add: boxBlocked_def boxWalk_def exitBlocked_def exitWalk_def exit_walk_view [OF assms])

lemma approach_view:
  assumes "same_view e vs"
  shows "approach_blocks (e\<lparr>e_order := vs\<rparr>) = approach_blocks e"
  by (simp add: fun_eq_iff approach_blocks_def Let_def veh_view [OF assms] vtype_view [OF assms] cong: under_cases)

lemma conflict_view:
  assumes "same_view e vs"
  shows "foeApproachConflict (e\<lparr>e_order := vs\<rparr>) occ v x = foeApproachConflict e occ v x"
    "rowConflict (e\<lparr>e_order := vs\<rparr>) occ v x = rowConflict e occ v x"
  by (simp_all add: foeApproachConflict_def rowConflict_def foeApproachBlocks_def approach_view [OF assms]
      box_view [OF assms])

lemma sigGate_view:
  assumes "same_view e vs"
  shows "signal_gate (e\<lparr>e_order := vs\<rparr>) occ v x d = signal_gate e occ v x d"
  by (simp add: signal_gate_def sigGate_def light_stops_def stop_wall_def box_view [OF assms] cong: under_cases)

lemma gates_view:
  assumes "same_view e vs"
  shows "rowGate (e\<lparr>e_order := vs\<rparr>) occ v = rowGate e occ v"
proof -
  have x: "exit_gate (e\<lparr>e_order := vs\<rparr>) occ v = exit_gate e occ v"
    by (simp add: exit_gate_def stop_wall_def box_view [OF assms])
  have s: "stop_wall (e\<lparr>e_order := vs\<rparr>) v d = stop_wall e v d" "serve_stop (e\<lparr>e_order := vs\<rparr>) d v = serve_stop e d v" for d
    by (simp_all add: stop_wall_def serve_stop_def)
  have g: "gateTarget (e\<lparr>e_order := vs\<rparr>) v = gateTarget e v" by (simp add: gateTarget_def)
  show ?thesis
    by (simp add: rowGate_def seam_gate_def entry_gate_def Let_def x s g sigGate_view [OF assms] conflict_view [OF assms]
        cong: under_cases)
qed

lemma safetyGate_view: "same_view e vs \<Longrightarrow> safetyGate (e\<lparr>e_order := vs\<rparr>) occ k v = safetyGate e occ k v"
  by (simp add: safetyGate_def leader_view Let_def)

lemma accel_vehicle_view:
  assumes "same_view e vs" and "vs ! k = e_order e ! k"
  shows "accel_vehicle (e\<lparr>e_order := vs\<rparr>) occ idm k = accel_vehicle e occ idm k"
proof -
  have v: "veh (e\<lparr>e_order := vs\<rparr>) k = veh e k" using assms(2) by (simp add: veh_def)
  have "commanded (e\<lparr>e_order := vs\<rparr>) occ idm k = commanded e occ idm k"
    by (simp add: commanded_def v leader_view [OF assms(1)] intentAccel_def cruiseAccel_def accelOnLane_def
        Let_def cong: if_cong)
  then show ?thesis
    by (simp add: accel_vehicle_def v gates_view [OF assms(1)] safetyGate_view [OF assms(1)])
qed

lemma visible_cap [simp]: "visible (cap_accel w v) = visible v"
  by (simp add: visible_def cap_accel_def split: option.split)

lemma visible_gate: "visible (snd (rowGate e occ v)) = visible v"
proof -
  have "visible (serve_stop e d v) = visible v" for d by (simp add: visible_def serve_stop_def)
  then show ?thesis
    by (simp add: rowGate_def seam_gate_def entry_gate_def exit_gate_def Let_def split: option.split prod.split)
qed

lemma visible_accel: "visible (accel_vehicle e occ idm k) = visible (veh e k)"
proof -
  have "visible (v\<lparr>v_Acc := a\<rparr>) = visible v" for v a by (simp add: visible_def)
  then show ?thesis using visible_gate [of e occ] by (simp add: accel_vehicle_def Let_def split: prod.split) (metis snd_conv)
qed

lemma computeAccels_core:
  "computeAccels e occ = e\<lparr>e_order := map (accel_vehicle e occ (idmPolicy e)) [0..<length (e_order e)]\<rparr>"
proof -
  let ?A = "accel_vehicle e occ (idmPolicy e)"
  let ?vs = "\<lambda>k. map ?A [0..<k] @ drop k (e_order e)"
  have "foldl (accel_one occ (idmPolicy e)) e [0..<k] = e\<lparr>e_order := ?vs k\<rparr>" if "k \<le> length (e_order e)" for k
    using that
  proof (induction k)
    case (Suc k)
    have view: "same_view e (?vs k)"
      using Suc.prems by (simp add: list_eq_iff_nth_eq nth_append visible_accel veh_def)
    have "?vs k ! k = e_order e ! k" using Suc.prems by (simp add: nth_append)
    note a = accel_vehicle_view [OF view this]
    have "(?vs k)[k := ?A k] = ?vs (Suc k)"
      using Suc.prems by (simp add: list_update_append Cons_nth_drop_Suc [symmetric])
    then show ?case using Suc by (simp add: accel_one_def set_vehicle_def a)
  qed simp
  from this [of "length (e_order e)"] show ?thesis by (simp add: computeAccels_def)
qed


section \<open>The gates cap every control path\<close>

lemma cap_below: "\<not> flt g (v_Acc (cap_accel (Some g) v))"
  by (simp add: cap_accel_def flt_irrefl)

lemma cap_keeps: "\<not> flt g (v_Acc v) \<Longrightarrow> \<not> flt g (v_Acc (cap_accel w v))"
  by (auto simp: cap_accel_def split: option.split dest: flt_trans)

lemma accel_capped:
  assumes "rowGate e occ ((veh e k)\<lparr>v_Acc := commanded e occ idm k\<rparr>) = (r, v2)"
  shows "r = Some g \<Longrightarrow> \<not> flt g (v_Acc (accel_vehicle e occ idm k))"
    and "safetyGate e occ k (cap_accel r v2) = Some b \<Longrightarrow> \<not> flt b (v_Acc (accel_vehicle e occ idm k))"
  using assms cap_keeps [OF cap_below] cap_below by (simp_all add: accel_vehicle_def Let_def)

lemma gate_walk_steer:
  "v_HeldTurn p = v_HeldTurn q \<Longrightarrow> v_Route p = v_Route q \<Longrightarrow> gate_walk e f d p cur = gate_walk e f d q cur"
proof (induction f arbitrary: d p q cur)
  case (Suc f)
  have "gate_walk e f d (p\<lparr>v_HeldTurn := 0\<rparr>) c = gate_walk e f d (q\<lparr>v_HeldTurn := 0\<rparr>) c" for d c
    using Suc.prems by (intro Suc.IH) simp_all
  then show ?case by (simp add: branch_steer [OF Suc.prems] Let_def)
qed simp

lemma gateTarget_acc [simp]: "gateTarget e (v\<lparr>v_Acc := a\<rparr>) = gateTarget e v"
  using gate_walk_steer [of "v\<lparr>v_Acc := a\<rparr>" v] by (simp add: gateTarget_def)

lemma light_gate:
  assumes "l_Successors (lane_of e (v_Lane v)) \<noteq> []" and "\<not> l_Internal (lane_of e (v_Lane v))"
    and "gateTarget e v = Some (x, d)" and "l_Signal (lane_of e x) \<noteq> None" and "light_stops e v x d"
  shows "rowGate e occ v = (Some (stop_wall e v d), v)"
proof -
  have "sigState e (lane_of e x) \<noteq> SigOff" using assms(5) by (auto simp: light_stops_def)
  then show ?thesis using assms by (simp add: rowGate_def entry_gate_def signal_gate_def sigGate_def)
qed

lemma permissive_green: "sigPermissive e l \<Longrightarrow> sigState e l = SigGreen"
  by (auto simp: sigPermissive_def sigState_def Let_def mapSigChar_def split: option.splits if_splits)

text \<open>An approach that the priority model judges: a modelled class or a permissive green.\<close>

definition judged :: "Engine \<Rightarrow> nat \<Rightarrow> bool" where
  "judged e x \<longleftrightarrow> l_Row (lane_of e x) \<noteq> RowNone \<or> permissive e x"

lemma minor_yields: "judged e x \<Longrightarrow> l_Row (lane_of e x) \<noteq> RowMajor \<Longrightarrow> foe_yields e x"
  using permissive_green [of e "lane_of e x"]
  by (cases "l_Row (lane_of e x)") (auto simp: judged_def foe_yields_def permissive_def foeSignalClass_def)

lemma no_mutual_core:
  assumes "judged e x" "judged e y" and "feq (v_V v) 0" "feq (v_V w) 0"
    and p: "occ p \<noteq> []" "veh e (last (occ p)) = w" and q: "occ q \<noteq> []" "veh e (last (occ q)) = v"
  shows "\<not> (approach_blocks e occ v y (l_Row (lane_of e x) \<noteq> RowMajor) p \<and>
    approach_blocks e occ w x (l_Row (lane_of e y) \<noteq> RowMajor) q)"
  using assms minor_yields [OF assms(1)] minor_yields [OF assms(2)]
  by (auto simp: approach_blocks_def Let_def split: if_splits)

section \<open>A red light\<close>

text \<open>A road of 100 m, a box under the light of the demo program, an exit; the light shows red.\<close>

definition light_net :: Network where
  "light_net = \<lparr>n_Lanes = [
     demo_lane\<lparr>l_Exit := False, l_Successors := [1], l_Signal := None\<rparr>,
     demo_lane\<lparr>l_ID := ''b'', l_Length := f64_lit 10 1, l_Exit := False, l_Internal := True, l_Successors := [2], l_Prevs := [0]\<rparr>,
     demo_lane\<lparr>l_ID := ''c'', l_Signal := None, l_Prevs := [1]\<rparr>],
     n_Origins = [0], n_Signals = [demo_compiled]\<rparr>"

definition light_engine :: Engine where
  "light_engine = demo_engine\<lparr>e_Net := light_net, e_Tick := 400, e_sigOv := [],
     e_order := [(demo_vehicle 1)\<lparr>v_S := f64_lit 90 1, v_reqAcc := f64_lit 1 1, v_reqAccOK := True\<rparr>]\<rparr>"

lemma light_red: "sigState light_engine (lane_of light_engine 1) = SigRed"
  by code_simp

lemma light_target: "gateTarget light_engine (veh light_engine 0) = Some (1, f64_lit 10 1)"
  by code_simp

lemma light_fresh: "\<not> sigInClearance light_engine (lane_of light_engine 1)"
  by code_simp

lemma light_wall: "stop_wall light_engine (veh light_engine 0) (f64_lit 10 1) = 13844628204490326016"
  by code_simp

lemma light_stopped: "light_stops light_engine (veh light_engine 0) 1 (f64_lit 10 1)"
proof -
  have "can_stop (veh light_engine 0) (f64_lit 10 1) emergencyDecel" by code_simp
  then show ?thesis using light_red light_fresh by (simp add: light_stops_def)
qed

section \<open>Claims\<close>

text \<open>
  C3: (equivalence) The accelerations of a tick come from one snapshot: \<open>computeAccels\<close> treats the
  vehicles in turn, yet the result is the decision of every vehicle taken on the state before the
  phase, gates and stop duties included.
\<close>

theorem accels_snapshot:
  "computeAccels e occ = e\<lparr>e_order := map (accel_vehicle e occ (idmPolicy e)) [0..<length (e_order e)]\<rparr>"
  by (rule computeAccels_core)

text \<open>
  C10: (safety) The guardrails cap every control path: whatever a controller commanded, the
  acceleration a vehicle leaves the phase with exceeds neither the right-of-way gate's answer nor
  the safety gate's.
\<close>

theorem gates_cap:
  assumes "k < length (e_order e)"
    and "rowGate e occ ((veh e k)\<lparr>v_Acc := commanded e occ (idmPolicy e) k\<rparr>) = (r, v2)"
  shows "(case r of None \<Rightarrow> True | Some g \<Rightarrow> \<not> flt g (v_Acc (veh (computeAccels e occ) k))) \<and>
    (case safetyGate e occ k (cap_accel r v2) of None \<Rightarrow> True | Some b \<Rightarrow> \<not> flt b (v_Acc (veh (computeAccels e occ) k)))"
proof -
  have "veh (computeAccels e occ) k = accel_vehicle e occ (idmPolicy e) k"
    using assms(1) by (simp add: computeAccels_core veh_def)
  then show ?thesis using accel_capped [OF assms(2)] by (simp split: option.split)
qed


text \<open>
  C7: (liveness) Right of way never deadlocks two vehicles: when both stand at their lines, each
  the head of an approach to the other's conflicting box and each judged by the priority model, the
  gates do not make both wait for the other.
\<close>

theorem no_mutual_block:
  assumes "judged e x" "judged e y" and "feq (v_V v) 0" "feq (v_V w) 0"
    and "occ p \<noteq> []" "veh e (last (occ p)) = w" and "occ q \<noteq> []" "veh e (last (occ q)) = v"
  shows "\<not> (approach_blocks e occ v y (l_Row (lane_of e x) \<noteq> RowMajor) p \<and>
    approach_blocks e occ w x (l_Row (lane_of e y) \<noteq> RowMajor) q)"
  using assms by (rule no_mutual_core)

section \<open>Witnesses\<close>

lemma light_gated:
  "rowGate light_engine occ ((veh light_engine 0)\<lparr>v_Acc := a\<rparr>) = (Some 13844628204490326016, (veh light_engine 0)\<lparr>v_Acc := a\<rparr>)"
proof -
  have l: "l_Successors (lane_of light_engine (v_Lane (veh light_engine 0))) \<noteq> []"
    "\<not> l_Internal (lane_of light_engine (v_Lane (veh light_engine 0)))" "l_Signal (lane_of light_engine 1) \<noteq> None" by code_simp+
  have "stop_wall light_engine ((veh light_engine 0)\<lparr>v_Acc := a\<rparr>) d = stop_wall light_engine (veh light_engine 0) d"
    "light_stops light_engine ((veh light_engine 0)\<lparr>v_Acc := a\<rparr>) 1 d = light_stops light_engine (veh light_engine 0) 1 d" for d
    by (simp_all add: stop_wall_def light_stops_def can_stop_def vtype_def v0eff_def cong: under_cases)
  then show ?thesis
    using light_gate [of light_engine "(veh light_engine 0)\<lparr>v_Acc := a\<rparr>" 1 "f64_lit 10 1" occ] l light_target light_stopped
    by (simp add: light_wall)
qed

lemma gates_cap_witness: "\<not> flt 13844628204490326016 (v_Acc (veh (computeAccels light_engine (\<lambda>_. [])) 0))"
  using gates_cap [OF _ light_gated, of "\<lambda>_. []"] by (simp add: light_engine_def)


text \<open>An all-way stop of two roads: lane 0 feeds box 2, lane 1 feeds box 3, the boxes cross.\<close>

definition stop_engine :: Engine where
  "stop_engine = demo_engine\<lparr>e_Net := \<lparr>n_Lanes = [
       demo_lane\<lparr>l_Exit := False, l_Successors := [2], l_Signal := None\<rparr>,
       demo_lane\<lparr>l_Exit := False, l_Successors := [3], l_Signal := None\<rparr>,
       demo_lane\<lparr>l_Internal := True, l_Signal := None, l_Row := RowStop, l_Prevs := [0], l_FoesCross := [3]\<rparr>,
       demo_lane\<lparr>l_Internal := True, l_Signal := None, l_Row := RowStop, l_Prevs := [1], l_FoesCross := [2]\<rparr>],
     n_Origins = [0, 1], n_Signals = []\<rparr>,
     e_order := [(demo_vehicle 1)\<lparr>v_S := f64_lit 99 1, v_V := 0\<rparr>, (demo_vehicle 2)\<lparr>v_S := f64_lit 99 1, v_V := 0, v_Lane := 1\<rparr>]\<rparr>"

lemma stop_waits: "approach_blocks stop_engine (rebuildOccupancy stop_engine) (veh stop_engine 1) 2 True 0"
  by code_simp

lemma no_mutual_block_witness:
  "approach_blocks stop_engine (rebuildOccupancy stop_engine) (veh stop_engine 1) 2 True 0 \<and>
   \<not> approach_blocks stop_engine (rebuildOccupancy stop_engine) (veh stop_engine 0) 3 True 1"
proof -
  have "judged stop_engine 3" "judged stop_engine 2" "feq (v_V (veh stop_engine 1)) 0" "feq (v_V (veh stop_engine 0)) 0"
    "rebuildOccupancy stop_engine 0 \<noteq> []" "last (rebuildOccupancy stop_engine 0) = 0"
    "rebuildOccupancy stop_engine 1 \<noteq> []" "last (rebuildOccupancy stop_engine 1) = 1"
    "l_Row (lane_of stop_engine 3) \<noteq> RowMajor" "l_Row (lane_of stop_engine 2) \<noteq> RowMajor" by code_simp+
  then show ?thesis
    using stop_waits no_mutual_block [of stop_engine 3 2 "veh stop_engine 1" "veh stop_engine 0" "rebuildOccupancy stop_engine" 0 1]
    by simp
qed

end
