(* ===== verification/Spawn.thy ===== *)
theory Spawn
  imports Accel
begin

text \<open>
  \<open>engine/spawn.go\<close> and the queue half of \<open>director.go\<close>: where vehicles come from. The pending vehicle
  of an origin is its id and stream; its type and desired-speed factor are redrawn from the side
  stream at every attempt, which the code caches (the draw depends on seed and id only). The normal
  draw of \<open>math/rand/v2\<close> (a table-driven ziggurat of the standard library) is the parameter
  \<open>norm\<close>: any function that returns a float and the advanced stream. A pending vehicle and the
  director's probe are not registered, so they are passed by value.
\<close>

subsection \<open>Making a vehicle\<close>

definition blank_vehicle :: "u64 \<Rightarrow> stream \<Rightarrow> Vehicle" where
  "blank_vehicle vid rng = \<lparr>v_ID = vid, v_TypeIdx = 0, v_Lane = 0, v_S = 0, v_V = 0, v_F = 0, v_Acc = 0, v_Cooldown = 0,
     v_rng = rng, v_Cruise = 0, v_CruiseOK = False, v_HeldTurn = 0, v_Signals = 0, v_Route = [], v_reqAcc = 0,
     v_reqAccOK = False, v_reqLane = 0, v_stopDone = False, v_stuckTicks = 0, v_laneEntryTick = 0\<rparr>"

definition newVehicle :: "Engine \<Rightarrow> (u64 \<times> stream) \<times> Engine" where
  "newVehicle e = ((e_nextID e, deriveStream (e_Seed e) (e_nextID e)), e\<lparr>e_nextID := e_nextID e + 1\<rparr>)"

fun pick_weighted :: "f64 list \<Rightarrow> nat \<Rightarrow> f64 \<Rightarrow> f64 \<Rightarrow> nat \<Rightarrow> nat" where
  "pick_weighted [] i u cum dflt = dflt"
| "pick_weighted (x # xs) i u cum dflt =
     (if flt u (fadd cum x) then i else pick_weighted xs (Suc i) u (fadd cum x) dflt)"

definition clamp_factor :: "f64 \<Rightarrow> f64" where
  "clamp_factor x = (if flt x (f64_lit 8 10) then f64_lit 8 10 else if flt (f64_lit 13 10) x then f64_lit 13 10 else x)"

definition speed_factor :: "(stream \<Rightarrow> f64 \<times> stream) \<Rightarrow> Engine \<Rightarrow> stream \<Rightarrow> f64" where
  "speed_factor norm e s = clamp_factor (fadd f64_one (fmul (p_SpeedFactorSigma (e_Params e)) (fst (norm s))))"

definition draw_type :: "Engine \<Rightarrow> stream \<Rightarrow> nat \<times> stream" where
  "draw_type e attr =
     (let n = length (e_Types e); w = sc_TypeWeights (e_scen e) in
      if n \<le> 1 then (0, attr)
      else let (u, attr') = stream_Float64 attr in
        (if length w = n then pick_weighted w 0 (fmul u (foldl fadd 0 w)) 0 (n - 1)
         else min (nat (f64_to_int (fmul u (f64_of_nat n)))) (n - 1), attr'))"

definition pend_vehicle :: "(stream \<Rightarrow> f64 \<times> stream) \<Rightarrow> Engine \<Rightarrow> originState \<Rightarrow> Vehicle" where
  "pend_vehicle norm e st =
     (let (ti, attr) = draw_type e (spawnAttrStream (e_Seed e) (o_pendID st)) in
      (blank_vehicle (o_pendID st) (o_pendRng st))\<lparr>v_TypeIdx := ti, v_F := speed_factor norm e attr, v_Lane := o_lane st\<rparr>)"

subsection \<open>The schedule\<close>

definition newSpawner :: "f64 \<Rightarrow> (string \<Rightarrow> f64 option) \<Rightarrow> f64 \<Rightarrow> (u64 \<times> f64) list \<Rightarrow> Network \<Rightarrow> Spawner option" where
  "newSpawner rate rates target sched net =
     (let os = List.map_filter (\<lambda>i. let r = (case rates (l_ID (n_Lanes net ! i)) of Some x \<Rightarrow> x | None \<Rightarrow> rate) in
          if fle r 0 then None
          else Some \<lparr>o_lane = i, o_rate = fdiv r (f64_lit 3600 1), o_pendID = 0,
            o_pendRng = \<lparr>st_hi = 0, st_lo = 0, st_n = 0\<rparr>, o_tick = 0\<rparr>) (n_Origins net) in
      if os = [] then None else Some \<lparr>sp_target = target, sp_sched = sched, sp_next = 0, sp_origins = os\<rparr>)"

definition mean_interval :: "Engine \<Rightarrow> originState \<Rightarrow> f64" where
  "mean_interval e st = fdiv f64_one (fmul (o_rate st) (p_Dt (e_Params e)))"

definition init_origin :: "originState list \<times> Engine \<Rightarrow> originState \<Rightarrow> originState list \<times> Engine" where
  "init_origin s st =
     (let ((vid, rng), e) = newVehicle (snd s); (u, rng') = stream_Float64 rng in
      (fst s @ [st\<lparr>o_pendID := vid, o_pendRng := rng', o_tick := 1 + f64_to_u64 (fmul u (mean_interval e st))\<rparr>], e))"

definition Spawner_init :: "Spawner \<Rightarrow> Engine \<Rightarrow> Spawner \<times> Engine" where
  "Spawner_init sp e = (let (os, e') = foldl init_origin ([], e) (sp_origins sp) in (sp\<lparr>sp_origins := os\<rparr>, e'))"

text \<open>The demand steps that have come due scale every rate.\<close>

fun apply_steps :: "u64 \<Rightarrow> (u64 \<times> f64) list \<Rightarrow> Spawner \<Rightarrow> Spawner" where
  "apply_steps tick [] sp = sp"
| "apply_steps tick ((t, x) # rest) sp =
     (if t \<le> tick
      then apply_steps tick rest
        (sp\<lparr>sp_next := Suc (sp_next sp), sp_origins := map (\<lambda>st. st\<lparr>o_rate := fmul (o_rate st) x\<rparr>) (sp_origins sp)\<rparr>)
      else sp)"

subsection \<open>Safe entry\<close>

definition TotalLaneKm :: "Network \<Rightarrow> f64" where
  "TotalLaneKm net = fdiv (foldl fadd 0 (map l_Length (n_Lanes net))) (f64_lit 1000 1)"

definition density_full :: "Engine \<Rightarrow> f64 \<Rightarrow> bool" where
  "density_full e target \<longleftrightarrow> flt 0 target \<and> fle target (fdiv (f64_of_nat (length (e_order e))) (TotalLaneKm (e_Net e)))"

definition rearClear :: "Engine \<Rightarrow> occupancy \<Rightarrow> Vehicle \<Rightarrow> bool" where
  "rearClear e occ v =
     (let rear = fsub (v_S v) (vt_Length (vtype e v)); a = occ (v_Lane v); i = first_beyond e rear a in
      if i < length a \<and> fle (v_S (veh e (a ! i))) (v_S v) then False
      else case followerAt e occ (v_Lane v) rear of
          None \<Rightarrow> True
        | Some (f, _, gap) \<Rightarrow>
            let t = vtype e (veh e f); room = fsub gap (vt_S0 t); vf = v_V (veh e f) in
            if fle room 0 then False else fle (fmul vf vf) (fmul (fmul (f64_lit 2 1) (vt_B t)) room))"

text \<open>The nearer of the leader and a stop line that would hold: the gap and the speed there.\<close>

definition entry_leader :: "Engine \<Rightarrow> occupancy \<Rightarrow> Vehicle \<Rightarrow> f64 \<times> f64" where
  "entry_leader e occ v =
     (let li = leaderAt e occ (v_Lane v) (fsub (v_S v) (f64_lit 1 1000000000)) None in
      if li_OK li then (li_Gap li, li_V li) else (f64_inf, 0))"

definition entry_constraint :: "Engine \<Rightarrow> occupancy \<Rightarrow> Vehicle \<Rightarrow> f64 \<times> f64" where
  "entry_constraint e occ v =
     (let (gap, vl) = entry_leader e occ v in
      case gateTarget e v of
        Some (x, dist) \<Rightarrow> if flt dist gap \<and> junctionHold e occ v x then (dist, 0) else (gap, vl)
      | None \<Rightarrow> (gap, vl))"

definition injectionPlan :: "Engine \<Rightarrow> occupancy \<Rightarrow> Vehicle \<Rightarrow> f64 option" where
  "injectionPlan e occ v =
     (if flt 0 (v_S v) \<and> \<not> rearClear e occ v then None
      else let (gap, vl) = entry_constraint e occ v in
        if gap = f64_inf then Some gap
        else let room = fsub gap (vt_S0 (vtype e v)) in
          if fle room 0 then None
          else Some (f64_sqrt (fadd (fmul vl vl) (fmul (fmul (f64_lit 2 1) (vt_B (vtype e v))) room))))"

definition enter :: "Engine \<Rightarrow> f64 \<Rightarrow> Vehicle \<Rightarrow> Vehicle" where
  "enter e speed v = v\<lparr>v_V := f64_min speed (v0eff e v (v_Lane v)), v_Cooldown := p_SpawnCooldown (e_Params e),
     v_laneEntryTick := e_Tick e\<rparr>"

subsection \<open>The spawner\<close>

record spawn_run =
  sw_eng :: Engine
  sw_occ :: occupancy
  sw_origins :: "originState list"
  sw_Spawned :: nat

definition next_pend :: "Engine \<Rightarrow> originState \<Rightarrow> originState \<times> Engine" where
  "next_pend e st =
     (let ((vid, rng), e') = newVehicle e; (u, rng') = stream_Float64 rng;
          interval = fmul (mean_interval e st) (fadd f64_one (fmul (p_SpawnJitter (e_Params e)) (fsub (fmul (f64_lit 2 1) u) f64_one)));
          ticks = f64_to_u64 (fadd interval (f64_lit 1 2)) in
      (st\<lparr>o_pendID := vid, o_pendRng := rng', o_tick := o_tick st + (if ticks < 1 then 1 else ticks)\<rparr>, e'))"

definition spawn_origin :: "(stream \<Rightarrow> f64 \<times> stream) \<Rightarrow> f64 \<Rightarrow> spawn_run \<Rightarrow> originState \<Rightarrow> spawn_run" where
  "spawn_origin norm target s st =
     (let e = sw_eng s; hold = s\<lparr>sw_origins := sw_origins s @ [st]\<rparr> in
      if e_Tick e < o_tick st then hold
      else if density_full e target then hold
      else let v = pend_vehicle norm e st in
        case injectionPlan e (sw_occ s) v of
          None \<Rightarrow> hold
        | Some speed \<Rightarrow>
            let (e1, occ1) = register (enter e speed v) (e, sw_occ s); (st', e2) = next_pend e1 st in
            \<lparr>sw_eng = e2, sw_occ = occ1, sw_origins = sw_origins s @ [st'], sw_Spawned = Suc (sw_Spawned s)\<rparr>)"

definition Spawner_step :: "(stream \<Rightarrow> f64 \<times> stream) \<Rightarrow> Engine \<Rightarrow> occupancy \<Rightarrow> Engine \<times> occupancy" where
  "Spawner_step norm e occ =
     (case e_spawner e of
        None \<Rightarrow> (e, occ)
      | Some sp0 \<Rightarrow>
          let sp = apply_steps (e_Tick e) (drop (sp_next sp0) (sp_sched sp0)) sp0;
              s = foldl (spawn_origin norm (sp_target sp)) \<lparr>sw_eng = e, sw_occ = occ, sw_origins = [], sw_Spawned = 0\<rparr> (sp_origins sp) in
          ((sw_eng s)\<lparr>e_spawner := Some (sp\<lparr>sp_origins := sw_origins s\<rparr>)\<rparr>, sw_occ s))"

subsection \<open>The director's queue\<close>

definition DirectorSpawnHoldTicks :: u64 where "DirectorSpawnHoldTicks = 600"

record director_run =
  dr_eng :: Engine
  dr_occ :: occupancy
  dr_kept :: "TickedSpawn list"
  dr_Injected :: "TickedSpawn list"
  dr_Expired :: "TickedSpawn list"

definition probe_vehicle :: "TickedSpawn \<Rightarrow> Vehicle" where
  "probe_vehicle d = (blank_vehicle (- 1) \<lparr>st_hi = 0, st_lo = 0, st_n = 0\<rparr>)\<lparr>v_Lane := ts_LaneIdx d, v_S := sd_OffsetM (ts_Dir d),
     v_TypeIdx := ts_TypeIdx d, v_Route := sd_Destination (ts_Dir d)\<rparr>"

definition injectDirective :: "(stream \<Rightarrow> f64 \<times> stream) \<Rightarrow> TickedSpawn \<Rightarrow> f64 \<Rightarrow> Engine \<times> occupancy \<Rightarrow> Engine \<times> occupancy" where
  "injectDirective norm d speed s =
     (let ((vid, rng), e) = newVehicle (fst s);
          v = (blank_vehicle vid (snd (norm rng)))\<lparr>v_TypeIdx := ts_TypeIdx d, v_F := speed_factor norm e rng,
            v_Lane := ts_LaneIdx d, v_S := sd_OffsetM (ts_Dir d), v_Route := sd_Destination (ts_Dir d)\<rparr> in
      register (enter e speed v) (e, snd s))"

definition waits :: "u64 \<Rightarrow> TickedSpawn \<Rightarrow> bool" where "waits tick d \<longleftrightarrow> tick < sd_EarliestTick (ts_Dir d)"

definition past_hold :: "u64 \<Rightarrow> TickedSpawn \<Rightarrow> bool" where
  "past_hold tick d \<longleftrightarrow> sd_EarliestTick (ts_Dir d) + DirectorSpawnHoldTicks < tick"

definition direct_one :: "(stream \<Rightarrow> f64 \<times> stream) \<Rightarrow> director_run \<Rightarrow> TickedSpawn \<Rightarrow> director_run" where
  "direct_one norm s d =
     (let e = dr_eng s; keep = s\<lparr>dr_kept := dr_kept s @ [d]\<rparr> in
      if waits (e_Tick e) d then keep
      else if past_hold (e_Tick e) d then s\<lparr>dr_Expired := dr_Expired s @ [d]\<rparr>
      else if density_full e (sc_DensityTargetPerKm (e_scen e)) then keep
      else case injectionPlan e (dr_occ s) (probe_vehicle d) of
          None \<Rightarrow> keep
        | Some speed \<Rightarrow>
            let (e', occ') = injectDirective norm d speed (e, dr_occ s) in
            s\<lparr>dr_eng := e', dr_occ := occ', dr_Injected := dr_Injected s @ [d]\<rparr>)"

definition stamped :: "Engine \<Rightarrow> TickedSpawn list" where
  "stamped e = e_dirQueue e @ map (\<lambda>d. d\<lparr>ts_Tick := e_Tick e\<rparr>) (e_dirNew e)"

definition stepDirectorSpawns :: "(stream \<Rightarrow> f64 \<times> stream) \<Rightarrow> Engine \<Rightarrow> occupancy \<Rightarrow> director_run" where
  "stepDirectorSpawns norm e occ =
     (let s = foldl (direct_one norm) \<lparr>dr_eng = e\<lparr>e_dirNew := []\<rparr>, dr_occ = occ, dr_kept = [], dr_Injected = [], dr_Expired = []\<rparr>
        (stamped e) in
      s\<lparr>dr_eng := (dr_eng s)\<lparr>e_dirQueue := dr_kept s\<rparr>\<rparr>)"

end
