(* ===== verification/Gridlock.thy ===== *)
theory Gridlock
  imports RightOfWay OccSync
begin

text \<open>
  \<open>engine/gridlock.go\<close>: the bounded escape from a circular wait. A vehicle taken off its lane is
  listed in \<open>sr_gone\<close> (Go's nil lane) until the population is compacted; the occupancy is then
  renumbered, because vehicles are positions here and pointers there. The counters by section are
  left out.
\<close>

definition stuckSpeed :: f64 where "stuckSpeed = f64_lit 1 10"

record strand_run =
  sr_eng :: Engine
  sr_occ :: occupancy
  sr_gone :: "nat list"

definition jammedAtJunction :: "Engine \<Rightarrow> occupancy \<Rightarrow> nat \<Rightarrow> bool" where
  "jammedAtJunction e occ k =
     (let v = veh e k; i = v_Lane v; a = occ i in
      if a = [] \<or> last a \<noteq> k then False
      else if l_Successors (lane_of e i) = [] then False
      else let x = branch e i v in
        if l_Internal (lane_of e x) then (let (blocked, holdSeal) = boxWalk e occ v x in blocked \<and> \<not> holdSeal)
        else if \<not> l_Internal (lane_of e i) then False
        else let (blocked, holdSeal) = exitWalk e occ v i False False in blocked \<and> \<not> holdSeal)"

subsection \<open>Clearing the timers behind\<close>

definition set_stuck :: "u64 \<Rightarrow> Engine \<Rightarrow> nat \<Rightarrow> Engine" where
  "set_stuck t e k = set_vehicle k ((veh e k)\<lparr>v_stuckTicks := t\<rparr>) e"

definition clear_lane :: "occupancy \<Rightarrow> Engine \<Rightarrow> nat \<Rightarrow> Engine" where
  "clear_lane occ e i = foldl (set_stuck 0) e (occ i)"

definition see_prev :: "nat list \<times> nat list \<Rightarrow> nat \<Rightarrow> nat list \<times> nat list" where
  "see_prev s p = (if p \<in> set (snd s) then s else (fst s @ [p], snd s @ [p]))"

fun reset_walk :: "nat \<Rightarrow> occupancy \<Rightarrow> nat list \<Rightarrow> nat list \<Rightarrow> Engine \<Rightarrow> Engine" where
  "reset_walk 0 occ work seen e = e"
| "reset_walk (Suc f) occ work seen e =
     (if work = [] then e
      else let s = foldl see_prev ([], seen) (concat (map (\<lambda>i. l_Prevs (lane_of e i)) work)) in
        reset_walk f occ (fst s) (snd s) (foldl (clear_lane occ) e work))"

definition resetStuckBehind :: "occupancy \<Rightarrow> nat \<Rightarrow> Engine \<Rightarrow> Engine" where
  "resetStuckBehind occ i e = reset_walk maxLaneHops occ [i] [i] e"

subsection \<open>The sweep\<close>

definition strand_vehicle :: "nat \<Rightarrow> strand_run \<Rightarrow> strand_run" where
  "strand_vehicle k st =
     (let i = v_Lane (veh (sr_eng st) k); e1 = noteLaneLeave k (sr_eng st);
          occ1 = (sr_occ st)(i := removeVehicle e1 k (sr_occ st i)) in
      \<lparr>sr_eng = resetStuckBehind occ1 i e1, sr_occ = occ1, sr_gone = sr_gone st @ [k]\<rparr>)"

definition strand_one :: "u64 \<Rightarrow> strand_run \<Rightarrow> nat \<Rightarrow> strand_run" where
  "strand_one limit st k =
     (let e = sr_eng st; v = veh e k in
      if fle stuckSpeed (v_V v) then st\<lparr>sr_eng := set_stuck 0 e k\<rparr>
      else let t = v_stuckTicks v + 1; st1 = st\<lparr>sr_eng := set_stuck t e k\<rparr> in
        if t < limit then st1
        else if \<not> jammedAtJunction (sr_eng st1) (sr_occ st1) k then st1
        else strand_vehicle k st1)"

definition strand_limit :: "Engine \<Rightarrow> u64" where
  "strand_limit e =
     (let s = p_StrandAfterS (e_Params e); dt = p_Dt (e_Params e) in
      if fle s 0 \<or> fle dt 0 then 0 else f64_to_u64 (f64_round (fdiv s dt)))"

definition renumber :: "nat list \<Rightarrow> nat \<Rightarrow> nat" where
  "renumber gone k = length (filter (\<lambda>m. m \<notin> set gone) [0..<k])"

definition strand_sweep :: "Engine \<Rightarrow> occupancy \<Rightarrow> strand_run" where
  "strand_sweep e occ =
     foldl (strand_one (strand_limit e)) \<lparr>sr_eng = e, sr_occ = occ, sr_gone = []\<rparr> [0..<length (e_order e)]"

definition strandStuck :: "Engine \<Rightarrow> occupancy \<Rightarrow> strand_run" where
  "strandStuck e occ =
     (if strand_limit e = 0 then \<lparr>sr_eng = e, sr_occ = occ, sr_gone = []\<rparr>
      else let st = strand_sweep e occ in
        if sr_gone st = [] then st
        else st\<lparr>sr_eng := dropDespawned (sr_gone st) (sr_eng st), sr_occ := (\<lambda>i. map (renumber (sr_gone st)) (sr_occ st i))\<rparr>)"

section \<open>What a sweep changes\<close>

definition parked :: "Vehicle \<Rightarrow> Vehicle" where "parked v = v\<lparr>v_stuckTicks := 0, v_laneEntryTick := 0\<rparr>"

definition parked_same :: "Engine \<Rightarrow> Engine \<Rightarrow> bool" where
  "parked_same e e' \<longleftrightarrow> same_routing e e' \<and> e_Types e' = e_Types e \<and> e_sigOv e' = e_sigOv e \<and>
     e_Signals e' = e_Signals e \<and> map parked (e_order e') = map parked (e_order e)"

lemma parked_same_trans: "parked_same a b \<Longrightarrow> parked_same b c \<Longrightarrow> parked_same a c"
  using same_routing_trans by (auto simp: parked_same_def)

lemma parked_veh:
  assumes "parked_same e e'"
  shows "v_Lane (veh e' k) = v_Lane (veh e k)" "v_V (veh e' k) = v_V (veh e k)" "v_S (veh e' k) = v_S (veh e k)"
    "v_ID (veh e' k) = v_ID (veh e k)" "length (e_order e') = length (e_order e)"
proof -
  have m: "map parked (e_order e') = map parked (e_order e)" using assms by (simp add: parked_same_def)
  have p: "parked (veh e' k) = parked (veh e k)" unfolding veh_def by (rule nth_map_eq [OF m])
  show "v_Lane (veh e' k) = v_Lane (veh e k)" using arg_cong [OF p, of v_Lane] by (simp add: parked_def)
  show "v_V (veh e' k) = v_V (veh e k)" using arg_cong [OF p, of v_V] by (simp add: parked_def)
  show "v_S (veh e' k) = v_S (veh e k)" using arg_cong [OF p, of v_S] by (simp add: parked_def)
  show "v_ID (veh e' k) = v_ID (veh e k)" using arg_cong [OF p, of v_ID] by (simp add: parked_def)
  show "length (e_order e') = length (e_order e)" using arg_cong [OF m, of length] by simp
qed

lemma parked_set: "parked w = parked (veh e k) \<Longrightarrow> parked_same e (set_vehicle k w e)"
  by (cases "k < length (e_order e)")
    (simp_all add: parked_same_def set_vehicle_def veh_def same_routing_def same_roads_def map_update
      list_update_same_conv list_update_beyond)

lemma parked_stuck: "parked_same e (set_stuck t e k)"
  unfolding set_stuck_def by (rule parked_set) (simp add: parked_def)

lemma parked_note: "parked_same e (noteLaneLeave k e)"
proof -
  have "e_Types (noteLaneLeave k e) = e_Types e" "e_sigOv (noteLaneLeave k e) = e_sigOv e"
    "e_Signals (noteLaneLeave k e) = e_Signals e" by (simp_all add: noteLaneLeave_def Let_def)
  moreover
  have "map parked ((e_order e)[k := clocked e (e_order e ! k)]) = map parked (e_order e)"
    by (cases "k < length (e_order e)")
      (simp_all add: parked_def clocked_def map_update list_update_same_conv list_update_beyond)
  ultimately show ?thesis by (simp add: parked_same_def note_order)
qed

lemma parked_refl: "parked_same e e"
  by (simp add: parked_same_def)

lemma parked_clear: "parked_same e (foldl (set_stuck t) e ks)"
  by (induction ks arbitrary: e) (auto intro: parked_refl parked_same_trans [OF parked_stuck])

lemma parked_lanes: "parked_same e (foldl (clear_lane occ) e ls)"
  by (induction ls arbitrary: e) (auto simp: clear_lane_def intro: parked_refl parked_same_trans [OF parked_clear])

lemma parked_reset: "parked_same e (reset_walk f occ work seen e)"
  by (induction f arbitrary: work seen e) (auto simp: Let_def intro: parked_refl parked_same_trans [OF parked_lanes])

text \<open>Timers only fall to zero, and those of the lane itself do.\<close>

abbreviation timer :: "Engine \<Rightarrow> nat \<Rightarrow> u64" where "timer e k \<equiv> v_stuckTicks (veh e k)"

lemma timer_set: "m < length (e_order e) \<Longrightarrow> timer (set_stuck t e k) m = (if m = k then t else timer e m)"
  by (simp add: set_stuck_def set_vehicle_def veh_def nth_list_update)

lemma timer_clear: "m < length (e_order e) \<Longrightarrow> timer (foldl (set_stuck 0) e ks) m = (if m \<in> set ks then 0 else timer e m)"
proof (induction ks arbitrary: e)
  case (Cons k ks)
  then show ?case using parked_veh(5) [OF parked_stuck] by (simp add: timer_set)
qed simp

lemma timer_lanes:
  "m < length (e_order e) \<Longrightarrow> timer (foldl (clear_lane occ) e ls) m = (if \<exists>i \<in> set ls. m \<in> set (occ i) then 0 else timer e m)"
proof (induction ls arbitrary: e)
  case (Cons i ls)
  have "m < length (e_order (clear_lane occ e i))" using Cons.prems parked_veh(5) [OF parked_clear] by (simp add: clear_lane_def)
  then show ?case using Cons.IH Cons.prems timer_clear by (simp add: clear_lane_def)
qed simp

lemma timer_reset:
  "m < length (e_order e) \<Longrightarrow> timer (reset_walk f occ work seen e) m \<in> {0, timer e m}"
proof (induction f arbitrary: work seen e)
  case (Suc f)
  have "m < length (e_order (foldl (clear_lane occ) e work))" using Suc.prems parked_veh(5) [OF parked_lanes] by simp
  note ih = Suc.IH [OF this]
  show ?case using ih timer_lanes [OF Suc.prems, of occ work] by (auto simp: Let_def split: if_splits)
qed simp

lemma timer_own_lane:
  assumes "m < length (e_order e)" and "m \<in> set (occ i)"
  shows "timer (resetStuckBehind occ i e) m = 0"
proof -
  have "timer (clear_lane occ e i) m = 0" using timer_clear [OF assms(1)] assms(2) by (simp add: clear_lane_def)
  moreover have "m < length (e_order (clear_lane occ e i))"
    using assms(1) parked_veh(5) [OF parked_clear] by (simp add: clear_lane_def)
  note timer_reset [OF this]
  ultimately have "timer (reset_walk f occ work seen (clear_lane occ e i)) m = 0" for f work seen by auto
  moreover have h: "maxLaneHops = Suc 11" by (simp add: maxLaneHops_def)
  ultimately show ?thesis
    unfolding resetStuckBehind_def h by (subst reset_walk.simps(2)) (simp add: Let_def)
qed

subsection \<open>The junction test ignores timers and estimates\<close>

lemma parked_roads:
  assumes "parked_same e e'"
  shows "l_Successors (lane_of e' i) = l_Successors (lane_of e i)" "l_Prevs (lane_of e' i) = l_Prevs (lane_of e i)"
    "l_Length (lane_of e' i) = l_Length (lane_of e i)" "l_Internal (lane_of e' i) = l_Internal (lane_of e i)"
    "l_Exit (lane_of e' i) = l_Exit (lane_of e i)" "l_Signal (lane_of e' i) = l_Signal (lane_of e i)"
    "l_LinkIdx (lane_of e' i) = l_LinkIdx (lane_of e i)" "l_FoesCross (lane_of e' i) = l_FoesCross (lane_of e i)"
    "l_FoesMerge (lane_of e' i) = l_FoesMerge (lane_of e i)"
proof -
  have s: "(e_Lanes e' ! i)\<lparr>l_ttEMA := 0\<rparr> = (e_Lanes e ! i)\<lparr>l_ttEMA := 0\<rparr>"
    using assms by (intro nth_map_eq) (simp add: parked_same_def same_roads_def same_routing_def)
  show "l_Successors (lane_of e' i) = l_Successors (lane_of e i)" using arg_cong [OF s, of l_Successors] by (simp add: lane_of_def)
  show "l_Prevs (lane_of e' i) = l_Prevs (lane_of e i)" using arg_cong [OF s, of l_Prevs] by (simp add: lane_of_def)
  show "l_Length (lane_of e' i) = l_Length (lane_of e i)" using arg_cong [OF s, of l_Length] by (simp add: lane_of_def)
  show "l_Internal (lane_of e' i) = l_Internal (lane_of e i)" using arg_cong [OF s, of l_Internal] by (simp add: lane_of_def)
  show "l_Exit (lane_of e' i) = l_Exit (lane_of e i)" using arg_cong [OF s, of l_Exit] by (simp add: lane_of_def)
  show "l_Signal (lane_of e' i) = l_Signal (lane_of e i)" using arg_cong [OF s, of l_Signal] by (simp add: lane_of_def)
  show "l_LinkIdx (lane_of e' i) = l_LinkIdx (lane_of e i)" using arg_cong [OF s, of l_LinkIdx] by (simp add: lane_of_def)
  show "l_FoesCross (lane_of e' i) = l_FoesCross (lane_of e i)" using arg_cong [OF s, of l_FoesCross] by (simp add: lane_of_def)
  show "l_FoesMerge (lane_of e' i) = l_FoesMerge (lane_of e i)" using arg_cong [OF s, of l_FoesMerge] by (simp add: lane_of_def)
qed

lemma parked_fields:
  assumes "parked v = parked w"
  shows "v_ID v = v_ID w" "v_TypeIdx v = v_TypeIdx w" "v_Lane v = v_Lane w" "v_S v = v_S w"
    "v_HeldTurn v = v_HeldTurn w" "v_Route v = v_Route w"
  using arg_cong [OF assms, of v_ID] arg_cong [OF assms, of v_TypeIdx] arg_cong [OF assms, of v_Lane]
    arg_cong [OF assms, of v_S] arg_cong [OF assms, of v_HeldTurn] arg_cong [OF assms, of v_Route]
  by (simp_all add: parked_def)

lemma parked_nth: "parked_same e e' \<Longrightarrow> parked (veh e' k) = parked (veh e k)"
  unfolding veh_def by (rule nth_map_eq) (simp add: parked_same_def)

lemma parked_type:
  assumes p: "parked_same e e'" and v: "parked v = parked w"
  shows "vtype e' v = vtype e w"
proof -
  have "e_Types e' = e_Types e" using p by (simp add: parked_same_def)
  then show ?thesis by (simp only: vtype_def parked_fields(2) [OF v])
qed

lemma parked_vlen:
  assumes p: "parked_same e e'"
  shows "vlen e' k = vlen e k"
  unfolding vlen_def parked_type [OF p parked_nth [OF p]] ..

lemma cold_table: "fst (routeTable e cold d) = table_now e d"
proof -
  have "\<not> p_AdaptiveRouting (e_Params e) \<Longrightarrow> routeWeight e = free_weight e" by (simp add: fun_eq_iff routeWeight_def)
  then show ?thesis by (simp add: routeTable_def staticRouteTable_def static_table_def cold_def table_now_def Let_def)
qed

lemma parked_branch:
  assumes p: "parked_same e e'" and v: "v_HeldTurn v = v_HeldTurn w" "v_Route v = v_Route w"
  shows "branch e' i v = branch e i w"
proof -
  have r: "same_routing e e'" using p by (simp add: parked_same_def)
  have "table_now e' d = table_now e d" for d using r by (auto simp: same_routing_def intro: table_now_same)
  then have "fst (routeTable e' cold d) = fst (routeTable e cold d)" for d by (simp add: cold_table)
  then have "fst (routeNextHop e' cold i d) = fst (routeNextHop e cold i d)" for d
    using parked_roads(1) [OF p, of i]
    by (simp add: routeNextHop_def LaneByID_same [OF r] lane_of_def Let_def case_prod_unfold split: option.split)
  then show ?thesis
    using parked_roads(1) [OF p, of i] v by (simp add: branch_def pick_unfold(1) lane_of_def cong: list.case_cong option.case_cong if_cong)
qed

lemma parked_light:
  assumes p: "parked_same e e'"
  shows "sigState e' (lane_of e' i) = sigState e (lane_of e i)"
proof -
  have "sigPhaseAt e' = sigPhaseAt e" "e_Tick e' = e_Tick e" "e_Signals e' = e_Signals e"
    using p by (simp_all add: fun_eq_iff sigPhaseAt_def parked_same_def same_routing_def)
  then show ?thesis by (simp add: sigState_def parked_roads(6,7) [OF p] Let_def cong: option.case_cong if_cong)
qed

lemma parked_junction:
  assumes "parked_same e e'"
  shows "foes_inside e' occ x = foes_inside e occ x" "downstreamHold e' x = downstreamHold e x"
  by (simp_all add: foes_inside_def downstreamHold_def parked_roads [OF assms] parked_light [OF assms])

lemma parked_enqueue: "parked_same e e' \<Longrightarrow> enqueue_prev e' = enqueue_prev e"
  using same_routing_lanes(1) [of e e'] by (simp add: fun_eq_iff enqueue_prev_def parked_same_def)

lemma parked_scan:
  assumes p: "parked_same e e'" and v: "v_ID v = v_ID w"
  shows "merge_scan e' occ v d work seen = merge_scan e occ w d work seen"
  using p v
proof (induction e occ w d work seen rule: merge_scan.induct)
  case (2 e occ w d it work seen)
  note f = parked_roads [OF 2(3)] parked_fields [OF parked_nth [OF 2(3)]] parked_enqueue [OF 2(3)]
  show ?case
  proof (cases "occ (fst it) = []")
    case True
    then show ?thesis using 2(2) [OF refl _ refl 2(3,4)] by (simp add: Let_def f)
  next
    case False
    then show ?thesis using 2(1) [OF refl _ refl refl _ 2(3,4)] 2(4) by (simp add: Let_def f)
  qed
qed simp

lemma parked_exit:
  assumes p: "parked_same e e'" and v: "v_ID v = v_ID w"
  shows "v_HeldTurn a = v_HeldTurn b \<Longrightarrow> v_Route a = v_Route b \<Longrightarrow>
    exit_walk e' occ v ib need f fr d a cur = exit_walk e occ w ib need f fr d b cur"
proof (induction f arbitrary: fr d a b cur)
  case (Suc f)
  have ih: "exit_walk e' occ v ib need f fr d (a\<lparr>v_HeldTurn := 0\<rparr>) x = exit_walk e occ w ib need f fr d (b\<lparr>v_HeldTurn := 0\<rparr>) x"
    for fr d x using Suc.IH [of "a\<lparr>v_HeldTurn := 0\<rparr>" "b\<lparr>v_HeldTurn := 0\<rparr>"] Suc.prems by simp
  have m: "mergeThreat e' occ v cur x d = mergeThreat e occ w cur x d" for x
    by (simp add: mergeThreat_def parked_scan [OF p v] parked_roads [OF p])
  note b = parked_branch [OF p Suc.prems] and f = parked_fields(4) [OF parked_nth [OF p]]
  show ?case
    by (simp add: Let_def ih b f m parked_roads [OF p] parked_junction [OF p] parked_vlen [OF p]
        cong: if_cong list.case_cong split del: if_split)
qed simp

text \<open>
  What the escape is for: the box ahead holds a foe or has no room behind it, or the vehicle stands
  in a box whose exit has none, and it is not a stop line on red that takes the room.
\<close>

definition sealed :: "Engine \<Rightarrow> occupancy \<Rightarrow> nat \<Rightarrow> bool" where
  "sealed e occ k \<longleftrightarrow>
     (let v = veh e k; i = v_Lane v; x = branch e i v in
      (l_Internal (lane_of e x) \<and> (foes_inside e occ x \<or> exitWalk e occ v x False True = (True, False))) \<or>
      (\<not> l_Internal (lane_of e x) \<and> l_Internal (lane_of e i) \<and> exitWalk e occ v i False False = (True, False)))"

lemma jammed_sealed: "jammedAtJunction e occ k \<Longrightarrow> sealed e occ k"
  by (auto simp: jammedAtJunction_def sealed_def boxWalk_def Let_def split: if_splits prod.splits)

lemma parked_sealed:
  assumes p: "parked_same e e'"
  shows "sealed e' occ k = sealed e occ k"
proof -
  note q = parked_nth [OF p, of k] and f = parked_fields [OF parked_nth [OF p, of k]]
  have x: "exitWalk e' occ (veh e' k) i ib t = exitWalk e occ (veh e k) i ib t" for i ib t
    unfolding exitWalk_def parked_roads(3) [OF p] f(4) parked_type [OF p q]
    by (intro parked_exit [OF p]) (simp_all add: f)
  show ?thesis
    by (simp add: sealed_def Let_def x f(3) parked_branch [OF p f(5,6)] parked_roads(4) [OF p] parked_junction(1) [OF p])
qed

section \<open>Only heads\<close>

definition expired :: "Engine \<Rightarrow> occupancy \<Rightarrow> u64 \<Rightarrow> nat \<Rightarrow> bool" where
  "expired e occ limit g \<longleftrightarrow> \<not> fle stuckSpeed (v_V (veh e g)) \<and> limit \<le> timer e g + 1 \<and>
     occ (v_Lane (veh e g)) \<noteq> [] \<and> last (occ (v_Lane (veh e g))) = g \<and> l_Successors (lane_of e (v_Lane (veh e g))) \<noteq> []"

text \<open>The occupancy without some vehicles, and the sweep before vehicle \<open>j\<close>.\<close>

definition without :: "nat list \<Rightarrow> occupancy \<Rightarrow> occupancy" where
  "without gone occ = (\<lambda>i. filter (\<lambda>k. k \<notin> set gone) (occ i))"

definition sweep_ok :: "Engine \<Rightarrow> occupancy \<Rightarrow> u64 \<Rightarrow> nat \<Rightarrow> strand_run \<Rightarrow> bool" where
  "sweep_ok e occ limit j st \<longleftrightarrow> parked_same e (sr_eng st) \<and>
     (\<forall>i. sr_occ st i = filter (\<lambda>k. k \<notin> set (sr_gone st)) (occ i)) \<and> set (sr_gone st) \<subseteq> {..<j} \<and> distinct (sr_gone st) \<and>
     (\<forall>m < length (e_order e). j \<le> m \<longrightarrow> timer (sr_eng st) m \<in> {0, timer e m} \<and>
       (\<forall>g \<in> set (sr_gone st). v_Lane (veh e m) = v_Lane (veh e g) \<longrightarrow> timer (sr_eng st) m = 0)) \<and>
     (\<forall>g \<in> set (sr_gone st). expired e occ limit g) \<and>
     (\<forall>n < length (sr_gone st). sealed e (without (take n (sr_gone st)) occ) (sr_gone st ! n))"

lemma jammed_head:
  assumes "jammedAtJunction e occ k"
  shows "occ (v_Lane (veh e k)) \<noteq> []" and "last (occ (v_Lane (veh e k))) = k" and "l_Successors (lane_of e (v_Lane (veh e k))) \<noteq> []"
  using assms by (auto simp: jammedAtJunction_def Let_def split: if_splits)

lemma sweep_mark:
  assumes ok: "sweep_ok e occ limit j st" and j: "j < length (e_order e)"
  shows "sweep_ok e occ limit (Suc j) (st\<lparr>sr_eng := set_stuck t (sr_eng st) j\<rparr>)"
proof -
  have p: "parked_same e (sr_eng st)" using ok by (simp add: sweep_ok_def)
  have "timer (set_stuck t (sr_eng st) j) m = timer (sr_eng st) m" if "Suc j \<le> m" "m < length (e_order e)" for m
    using that parked_veh(5) [OF p] by (simp add: timer_set)
  then show ?thesis
    using ok parked_same_trans [OF p parked_stuck] unfolding sweep_ok_def by (auto simp: less_Suc_eq_le Suc_le_eq)
qed

text \<open>Taking the head off its lane, on the lists.\<close>

lemma taken_off:
  assumes same: "parked_same e e1" and pop: "pop_ok e" and occ: "occ_ok e occ" and j: "j < length (e_order e)"
    and alone: "\<And>g. g \<in> set gone \<Longrightarrow> v_Lane (veh e g) \<noteq> v_Lane (veh e j)"
  shows "(\<lambda>i. filter (\<lambda>k. k \<notin> set gone) (occ i))(v_Lane (veh e j) := removeVehicle e1 j (occ (v_Lane (veh e j)))) =
    (\<lambda>i. filter (\<lambda>k. k \<notin> set (gone @ [j])) (occ i))"
proof
  fix i
  let ?i = "v_Lane (veh e j)"
  have on: "set (occ i) = {m. m < length (e_order e) \<and> v_Lane (veh e m) = i}" "sorted_wrt (behind e) (occ i)" for i
    using occ by (auto simp: occ_ok_def)
  have keys: "keys e1 = keys e" using parked_veh(3-5) [OF same] by (simp add: list_eq_iff_nth_eq veh_def)
  have rem: "removeVehicle e1 j (occ ?i) = remove1 j (occ ?i)"
    by (rule removeVehicle_removes) (use on j pop keys_pop [OF keys] keys_behind [OF keys] in auto)
  have dist: "distinct (occ i)" for i using lane_order.sorted_distinct [OF _ on(2)] on(1) pop by auto
  have one: "remove1 j (occ ?i) = filter (\<lambda>k. k \<noteq> j) (occ ?i)"
    unfolding distinct_remove1_removeAll [OF dist] removeAll_filter_not_eq by (rule filter_cong) auto
  show "((\<lambda>i. filter (\<lambda>k. k \<notin> set gone) (occ i))(?i := removeVehicle e1 j (occ ?i))) i =
      filter (\<lambda>k. k \<notin> set (gone @ [j])) (occ i)"
    unfolding rem using on alone by (auto simp: one intro!: filter_cong)
qed

text \<open>The timers of the vehicles still to come.\<close>

lemma timers_after:
  assumes same: "parked_same e s" and m: "Suc j \<le> m" "m < length (e_order e)"
  shows "timer (resetStuckBehind occ i (noteLaneLeave j (set_stuck t s j))) m \<in> {0, timer s m}"
    and "m \<in> set (occ i) \<Longrightarrow> timer (resetStuckBehind occ i (noteLaneLeave j (set_stuck t s j))) m = 0"
proof -
  let ?e = "noteLaneLeave j (set_stuck t s j)"
  have len: "length (e_order ?e) = length (e_order e)" "length (e_order s) = length (e_order e)"
    using parked_veh(5) [OF same] parked_veh(5) [OF parked_stuck] by (simp_all add: note_order)
  have "timer ?e m = timer s m"
    using m len by (simp add: veh_def note_order set_stuck_def set_vehicle_def nth_list_update)
  then show "timer (resetStuckBehind occ i ?e) m \<in> {0, timer s m}"
    using timer_reset [of m ?e] m len unfolding resetStuckBehind_def by simp
  show "m \<in> set (occ i) \<Longrightarrow> timer (resetStuckBehind occ i ?e) m = 0" using m len by (intro timer_own_lane) simp_all
qed

lemma sweep_busy:
  assumes ok: "sweep_ok e occ limit j st" and j: "j < length (e_order e)"
    and lim: "2 \<le> limit" "\<not> timer (sr_eng st) j + 1 < limit"
  shows "timer (sr_eng st) j = timer e j" and "g \<in> set (sr_gone st) \<Longrightarrow> v_Lane (veh e g) \<noteq> v_Lane (veh e j)"
proof -
  have busy: "timer (sr_eng st) j \<noteq> 0"
  proof
    assume "timer (sr_eng st) j = 0"
    then have "limit \<le> 1" using lim(2) by (simp add: not_less)
    then have "(2 :: u64) \<le> 1" using lim(1) by (rule order.trans [rotated])
    then show False by (simp add: word_le_nat_alt)
  qed
  then show "timer (sr_eng st) j = timer e j" using ok j by (auto simp: sweep_ok_def)
  show "v_Lane (veh e g) \<noteq> v_Lane (veh e j)" if "g \<in> set (sr_gone st)"
    using ok j busy that unfolding sweep_ok_def by (metis order_refl)
qed

lemma sweep_strand:
  assumes ok: "sweep_ok e occ limit j st" and j: "j < length (e_order e)" and pop: "pop_ok e" and occ: "occ_ok e occ"
    and slow: "\<not> fle stuckSpeed (v_V (veh (sr_eng st) j))" and lim: "2 \<le> limit" "\<not> timer (sr_eng st) j + 1 < limit"
    and jam: "jammedAtJunction (set_stuck t (sr_eng st) j) (sr_occ st) j"
  shows "sweep_ok e occ limit (Suc j) (strand_vehicle j (st\<lparr>sr_eng := set_stuck t (sr_eng st) j\<rparr>))"
proof -
  let ?s = "set_stuck t (sr_eng st) j" and ?i = "v_Lane (veh e j)"
  define e1 where "e1 = noteLaneLeave j ?s"
  define occ1 where "occ1 = (\<lambda>i. filter (\<lambda>k. k \<notin> set (sr_gone st @ [j])) (occ i))"
  have p: "parked_same e (sr_eng st)" using ok by (simp add: sweep_ok_def)
  have ps: "parked_same e ?s" and p1: "parked_same e e1"
    unfolding e1_def using p parked_same_trans parked_stuck parked_note by blast+
  have lane: "v_Lane (veh ?s j) = ?i" by (rule parked_veh(1) [OF ps])
  note busy = sweep_busy [OF ok j lim]
  have on: "set (occ i) = {m. m < length (e_order e) \<and> v_Lane (veh e m) = i}" for i using occ by (auto simp: occ_ok_def)
  have o: "sr_occ st = (\<lambda>i. filter (\<lambda>k. k \<notin> set (sr_gone st)) (occ i))" using ok by (auto simp: sweep_ok_def)
  have whole: "sr_occ st ?i = occ ?i" unfolding o using on busy(2) by (auto simp: filter_id_conv)
  have "(sr_occ st)(?i := removeVehicle e1 j (sr_occ st ?i)) = occ1"
    unfolding whole occ1_def using taken_off [OF p1 pop occ j busy(2)] o by simp
  then have run: "strand_vehicle j (st\<lparr>sr_eng := ?s\<rparr>) =
      \<lparr>sr_eng = resetStuckBehind occ1 ?i e1, sr_occ = occ1, sr_gone = sr_gone st @ [j]\<rparr>"
    by (simp add: strand_vehicle_def lane e1_def Let_def)
  have exp: "expired e occ limit j"
    using jammed_head [OF jam] slow lim(2) busy(1) whole lane parked_roads(1) [OF ps] parked_veh(2) [OF p]
    by (simp add: expired_def not_less parked_same_def)
  have p2: "parked_same e (resetStuckBehind occ1 ?i e1)"
    unfolding resetStuckBehind_def by (rule parked_same_trans [OF p1 parked_reset])
  have "m \<in> set (occ1 ?i)" if "Suc j \<le> m" "m < length (e_order e)" "v_Lane (veh e m) = ?i" for m
    using that ok on by (auto simp: occ1_def sweep_ok_def)
  then have new: "timer (resetStuckBehind occ1 ?i e1) m \<in> {0, timer (sr_eng st) m}"
      "v_Lane (veh e m) = ?i \<Longrightarrow> timer (resetStuckBehind occ1 ?i e1) m = 0" if "Suc j \<le> m" "m < length (e_order e)" for m
    using timers_after [OF p that] that unfolding e1_def by blast+
  have "timer (resetStuckBehind occ1 ?i e1) m \<in> {0, timer e m} \<and>
      (\<forall>g \<in> set (sr_gone st @ [j]). v_Lane (veh e m) = v_Lane (veh e g) \<longrightarrow> timer (resetStuckBehind occ1 ?i e1) m = 0)"
    if m: "Suc j \<le> m" "m < length (e_order e)" for m
  proof -
    have "timer (sr_eng st) m \<in> {0, timer e m}"
      "\<forall>g \<in> set (sr_gone st). v_Lane (veh e m) = v_Lane (veh e g) \<longrightarrow> timer (sr_eng st) m = 0"
      using ok m Suc_leD [OF m(1)] unfolding sweep_ok_def by blast+
    then show ?thesis using new [OF m] by auto
  qed
  moreover have "sealed e (sr_occ st) j" using jammed_sealed [OF jam] parked_sealed [OF ps] by simp
  then have "sealed e (without (sr_gone st) occ) j" unfolding o without_def .
  then have "sealed e (without (take n (sr_gone st @ [j])) occ) ((sr_gone st @ [j]) ! n)" if "n < length (sr_gone st @ [j])" for n
    using that ok unfolding sweep_ok_def by (cases "n = length (sr_gone st)") (simp_all add: nth_append)
  moreover have "\<forall>i. occ1 i = filter (\<lambda>k. k \<notin> set (sr_gone st @ [j])) (occ i)" by (simp add: occ1_def)
  moreover have "set (sr_gone st @ [j]) \<subseteq> {..<Suc j}" "distinct (sr_gone st @ [j])" "\<forall>g \<in> set (sr_gone st @ [j]). expired e occ limit g"
    using ok exp unfolding sweep_ok_def by auto
  ultimately show ?thesis unfolding run sweep_ok_def using p2 by simp
qed

lemma sweep_core:
  assumes "pop_ok e" and "occ_ok e occ" and lim: "2 \<le> strand_limit e"
  shows "sweep_ok e occ (strand_limit e) (length (e_order e)) (strand_sweep e occ)"
proof -
  let ?st = "\<lambda>j. foldl (strand_one (strand_limit e)) \<lparr>sr_eng = e, sr_occ = occ, sr_gone = []\<rparr> [0..<j]"
  have "sweep_ok e occ (strand_limit e) j (?st j)" if "j \<le> length (e_order e)" for j
    using that
  proof (induction j)
    case 0
    show ?case by (simp add: sweep_ok_def parked_refl)
  next
    case (Suc j)
    then have ok: "sweep_ok e occ (strand_limit e) j (?st j)" and j: "j < length (e_order e)" by simp_all
    have "sweep_ok e occ (strand_limit e) (Suc j) (strand_one (strand_limit e) (?st j) j)"
      using sweep_mark [OF ok j] sweep_strand [OF ok j assms(1,2) _ lim] by (simp add: strand_one_def Let_def)
    then show ?case by simp
  qed
  then show ?thesis by (simp add: strand_sweep_def)
qed

section \<open>Compaction\<close>

definition survivors :: "nat list \<Rightarrow> nat \<Rightarrow> nat list" where
  "survivors gone n = filter (\<lambda>m. m \<notin> set gone) [0..<n]"

lemma survivors_nth: "k < n \<Longrightarrow> k \<notin> set gone \<Longrightarrow> renumber gone k < length (survivors gone n) \<and> survivors gone n ! renumber gone k = k"
proof (induction n)
  case (Suc n)
  show ?case
  proof (cases "k = n")
    case True
    then show ?thesis using Suc.prems by (simp add: survivors_def renumber_def nth_append)
  next
    case False
    then show ?thesis using Suc by (simp add: survivors_def nth_append)
  qed
qed simp

lemma renumber_survivor: "m < length (survivors gone n) \<Longrightarrow> renumber gone (survivors gone n ! m) = m"
proof (induction n)
  case (Suc n)
  then show ?case
    by (cases "m < length (survivors gone n)") (auto simp: survivors_def renumber_def nth_append split: if_splits)
qed (simp add: survivors_def)

lemma survivor_in: "m < length (survivors gone n) \<Longrightarrow> survivors gone n ! m < n \<and> survivors gone n ! m \<notin> set gone"
  using nth_mem [of m "survivors gone n"] by (simp add: survivors_def)

lemma dropped_order: "e_order (dropDespawned gone e) = map (veh e) (survivors gone (length (e_order e)))"
  by (simp add: dropDespawned_def survivors_def veh_def)

lemma dropped_veh: "k < length (e_order e) \<Longrightarrow> k \<notin> set gone \<Longrightarrow> veh (dropDespawned gone e) (renumber gone k) = veh e k"
  using survivors_nth [of k "length (e_order e)" gone] by (simp add: veh_def [of "dropDespawned gone e"] dropped_order)

lemma dropped_pop: "pop_ok e \<Longrightarrow> pop_ok (dropDespawned gone e)"
proof -
  assume ok: "pop_ok e"
  have "inj_on (v_ID \<circ> veh e) (set (survivors gone (length (e_order e))))"
    using pop_veh(2) [OF ok] by (auto simp: inj_on_def survivors_def)
  moreover have "distinct (survivors gone (length (e_order e)))" by (simp add: survivors_def)
  ultimately have "distinct (map (v_ID \<circ> veh e) (survivors gone (length (e_order e))))" by (simp only: distinct_map)
  then show ?thesis using pop_veh(1) [OF ok] by (auto simp: pop_ok_def dropped_order list_all_iff survivors_def)
qed

lemma dropped_occ:
  assumes "pop_ok e" and on: "\<And>i. sorted_wrt (behind e) (occ i)"
    and set: "\<And>i. set (occ i) = {m. m < length (e_order e) \<and> v_Lane (veh e m) = i \<and> m \<notin> set gone}"
  shows "occ_ok (dropDespawned gone e) (\<lambda>i. map (renumber gone) (occ i))"
proof -
  let ?d = "dropDespawned gone e" and ?s = "survivors gone (length (e_order e))"
  have b: "behind ?d (renumber gone a) (renumber gone b) = behind e a b" if "a \<in> set (occ i)" "b \<in> set (occ i)" for a b i
  proof -
    have "a < length (e_order e)" "a \<notin> set gone" "b < length (e_order e)" "b \<notin> set gone" using that set by auto
    then show ?thesis by (simp add: behind_def dropped_veh)
  qed
  have "sorted_wrt (\<lambda>a b. behind ?d (renumber gone a) (renumber gone b)) (occ i)" for i
    by (rule sorted_wrt_mono_rel [OF _ on [of i]]) (simp add: b)
  moreover have "renumber gone ` set (occ i) = {m. m < length (e_order ?d) \<and> v_Lane (veh ?d m) = i}" for i
  proof (intro equalityI subsetI)
    fix m assume "m \<in> renumber gone ` set (occ i)"
    then obtain k where k: "k \<in> set (occ i)" "m = renumber gone k" by blast
    then show "m \<in> {m. m < length (e_order ?d) \<and> v_Lane (veh ?d m) = i}"
      using set [of i] survivors_nth [of k "length (e_order e)" gone] by (simp add: dropped_veh) (simp add: dropped_order)
  next
    fix m assume "m \<in> {m. m < length (e_order ?d) \<and> v_Lane (veh ?d m) = i}"
    then have m: "m < length ?s" "v_Lane (veh e (?s ! m)) = i" by (auto simp: dropped_order veh_def [of ?d])
    then have "?s ! m \<in> set (occ i)" using set survivor_in by blast
    then show "m \<in> renumber gone ` set (occ i)" using renumber_survivor [OF m(1)] by force
  qed
  ultimately show ?thesis by (simp add: occ_ok_def sorted_wrt_map)
qed

lemma drop_none: "dropDespawned [] e = e"
  by (simp add: dropDespawned_def map_nth)

lemma renumber_none: "renumber [] = (\<lambda>k. k)"
  by (simp add: fun_eq_iff renumber_def)

lemma strandStuck_dropped:
  assumes "strand_limit e \<noteq> 0" and st_def: "st = strand_sweep e occ"
  shows "sr_eng (strandStuck e occ) = dropDespawned (sr_gone st) (sr_eng st)"
    and "sr_occ (strandStuck e occ) = (\<lambda>i. map (renumber (sr_gone st)) (sr_occ st i))"
proof -
  have r: "strandStuck e occ = (if sr_gone st = [] then st
      else st\<lparr>sr_eng := dropDespawned (sr_gone st) (sr_eng st), sr_occ := (\<lambda>i. map (renumber (sr_gone st)) (sr_occ st i))\<rparr>)"
    unfolding strandStuck_def st_def Let_def using assms(1) by (rule if_not_P)
  show "sr_eng (strandStuck e occ) = dropDespawned (sr_gone st) (sr_eng st)"
    unfolding r by (cases "sr_gone st") (simp_all add: drop_none)
  show "sr_occ (strandStuck e occ) = (\<lambda>i. map (renumber (sr_gone st)) (sr_occ st i))"
    unfolding r by (cases "sr_gone st") (simp_all add: renumber_none)
qed

lemma strand_core:
  assumes pop: "pop_ok e" and occ: "occ_ok e occ" and lim: "2 \<le> strand_limit e"
  shows "\<forall>g \<in> set (sr_gone (strandStuck e occ)). g < length (e_order e) \<and> expired e occ (strand_limit e) g"
    and "\<forall>n < length (sr_gone (strandStuck e occ)).
      sealed e (without (take n (sr_gone (strandStuck e occ))) occ) (sr_gone (strandStuck e occ) ! n)"
    and "length (e_order (sr_eng (strandStuck e occ))) + length (sr_gone (strandStuck e occ)) = length (e_order e)"
    and "pop_ok (sr_eng (strandStuck e occ))" and "occ_ok (sr_eng (strandStuck e occ)) (sr_occ (strandStuck e occ))"
    and "map parked (e_order (sr_eng (strandStuck e occ))) =
      map (parked \<circ> veh e) (survivors (sr_gone (strandStuck e occ)) (length (e_order e)))"
proof -
  let ?st = "strand_sweep e occ" and ?n = "length (e_order e)"
  note ok = sweep_core [OF assms]
  have p: "parked_same e (sr_eng ?st)" using ok by (simp add: sweep_ok_def)
  have keys: "keys (sr_eng ?st) = keys e" using parked_veh(3-5) [OF p] by (simp add: list_eq_iff_nth_eq veh_def)
  have zero: "strand_limit e \<noteq> 0" using lim by (auto simp: word_le_nat_alt)
  have gone: "sr_gone (strandStuck e occ) = sr_gone ?st" using zero by (simp add: strandStuck_def Let_def)
  have eng: "sr_eng (strandStuck e occ) = dropDespawned (sr_gone ?st) (sr_eng ?st)"
    and oc: "sr_occ (strandStuck e occ) = (\<lambda>i. map (renumber (sr_gone ?st)) (sr_occ ?st i))"
    by (rule strandStuck_dropped [OF zero refl])+
  show "\<forall>g \<in> set (sr_gone (strandStuck e occ)). g < ?n \<and> expired e occ (strand_limit e) g"
    using ok unfolding gone by (auto simp: sweep_ok_def)
  show "\<forall>n < length (sr_gone (strandStuck e occ)).
      sealed e (without (take n (sr_gone (strandStuck e occ))) occ) (sr_gone (strandStuck e occ) ! n)"
    using ok unfolding gone by (simp add: sweep_ok_def)
  show "length (e_order (sr_eng (strandStuck e occ))) + length (sr_gone (strandStuck e occ)) = ?n"
  proof -
    have "length (filter (\<lambda>m. m \<in> set (sr_gone ?st)) [0..<?n]) = length (sr_gone ?st)"
    proof -
      have "card (set (filter (\<lambda>m. m \<in> set (sr_gone ?st)) [0..<?n])) = card (set (sr_gone ?st))"
        using ok by (intro arg_cong [of _ _ card]) (auto simp: sweep_ok_def)
      then show ?thesis using ok by (simp add: sweep_ok_def distinct_card del: set_filter)
    qed
    then show ?thesis
      unfolding eng gone dropped_order survivors_def using sum_length_filter_compl [of "\<lambda>m. m \<in> set (sr_gone ?st)" "[0..<?n]"]
        parked_veh(5) [OF p] by simp
  qed
  show "pop_ok (sr_eng (strandStuck e occ))" unfolding eng by (rule dropped_pop) (use pop keys_pop [OF keys] in simp)
  show "occ_ok (sr_eng (strandStuck e occ)) (sr_occ (strandStuck e occ))"
    unfolding eng oc
  proof (rule dropped_occ)
    have o: "sr_occ ?st i = filter (\<lambda>k. k \<notin> set (sr_gone ?st)) (occ i)" for i using ok by (simp add: sweep_ok_def)
    show "pop_ok (sr_eng ?st)" using pop keys_pop [OF keys] by simp
    show "sorted_wrt (behind (sr_eng ?st)) (sr_occ ?st i)" for i
      unfolding o keys_behind [OF keys] using occ by (simp add: occ_ok_def sorted_wrt_filter)
    show "set (sr_occ ?st i) = {m. m < length (e_order (sr_eng ?st)) \<and> v_Lane (veh (sr_eng ?st) m) = i \<and> m \<notin> set (sr_gone ?st)}" for i
      unfolding o using occ parked_veh [OF p] by (auto simp: occ_ok_def)
  qed
  show "map parked (e_order (sr_eng (strandStuck e occ))) = map (parked \<circ> veh e) (survivors (sr_gone (strandStuck e occ)) ?n)"
  proof -
    have "parked (veh (sr_eng ?st) k) = parked (veh e k)" for k
      unfolding veh_def by (rule nth_map_eq) (use p in \<open>simp add: parked_same_def\<close>)
    then show ?thesis using parked_veh(5) [OF p] by (simp add: eng gone dropped_order)
  qed
qed

section \<open>Claims\<close>

text \<open>
  C8: (safety) The escape is minimal. With a threshold of at least two ticks every vehicle a sweep
  removes is stopped, has its timer expired, is the head of a lane with a way on, and is sealed at
  its junction on the roads as they are once the earlier removals of the sweep are gone: the box
  ahead holds a foe or lacks the room behind it, or the vehicle stands in a box whose exit lacks
  it, and it is not a red stop line that takes the room. No lane loses two vehicles in one tick;
  the vehicles that stay are exactly the others, and the occupancy lists are those of a rebuild.
\<close>

theorem strand_heads:
  assumes "pop_ok e" and "2 \<le> strand_limit e"
  shows "(\<forall>g \<in> set (sr_gone (strandStuck e (rebuildOccupancy e))). g < length (e_order e) \<and> expired e (rebuildOccupancy e) (strand_limit e) g) \<and>
    (\<forall>n < length (sr_gone (strandStuck e (rebuildOccupancy e))).
      sealed e (without (take n (sr_gone (strandStuck e (rebuildOccupancy e)))) (rebuildOccupancy e))
        (sr_gone (strandStuck e (rebuildOccupancy e)) ! n)) \<and>
    inj_on (\<lambda>g. v_Lane (veh e g)) (set (sr_gone (strandStuck e (rebuildOccupancy e)))) \<and>
    map parked (e_order (sr_eng (strandStuck e (rebuildOccupancy e)))) =
      map (parked \<circ> veh e) (survivors (sr_gone (strandStuck e (rebuildOccupancy e))) (length (e_order e))) \<and>
    sr_occ (strandStuck e (rebuildOccupancy e)) = rebuildOccupancy (sr_eng (strandStuck e (rebuildOccupancy e)))"
proof -
  note r = strand_core [OF assms(1) rebuild_ok [OF assms(1)] assms(2)]
  have "inj_on (\<lambda>g. v_Lane (veh e g)) (set (sr_gone (strandStuck e (rebuildOccupancy e))))"
    using r(1) unfolding inj_on_def expired_def by metis
  then show ?thesis by (intro conjI r(1,2,6) iffD1 [OF occ_ok_rebuild [OF r(4)] r(5)])
qed

section \<open>Witness\<close>

text \<open>
  A road into a box that a foe occupies; the first two vehicles queue on the road, the third stands
  in the box. The threshold is ten ticks and both queued timers are about to reach it.
\<close>

definition jam_net :: Network where
  "jam_net = \<lparr>n_Lanes = [
     demo_lane\<lparr>l_Exit := False, l_Successors := [1], l_Signal := None\<rparr>,
     demo_lane\<lparr>l_Exit := False, l_Internal := True, l_Signal := None, l_Row := RowMinor, l_Prevs := [0], l_FoesCross := [2]\<rparr>,
     demo_lane\<lparr>l_Exit := False, l_Internal := True, l_Signal := None, l_Row := RowMinor, l_FoesCross := [1]\<rparr>],
     n_Origins = [0], n_Signals = []\<rparr>"

definition stuck_engine :: Engine where
  "stuck_engine = demo_engine\<lparr>e_Net := jam_net, e_Params := demo_params\<lparr>p_StrandAfterS := f64_lit 1 1\<rparr>,
     e_order := [(demo_vehicle 1)\<lparr>v_S := f64_lit 99 1, v_V := 0, v_stuckTicks := 9\<rparr>,
       (demo_vehicle 2)\<lparr>v_S := f64_lit 92 1, v_V := 0, v_stuckTicks := 9\<rparr>, (demo_vehicle 3)\<lparr>v_Lane := 2\<rparr>]\<rparr>"

lemma stuck_strands: "sr_gone (strandStuck stuck_engine (rebuildOccupancy stuck_engine)) = [0]"
  by code_simp

lemma strand_heads_witness:
  "sr_gone (strandStuck stuck_engine (rebuildOccupancy stuck_engine)) = [0] \<and>
   expired stuck_engine (rebuildOccupancy stuck_engine) (strand_limit stuck_engine) 0 \<and>
   sealed stuck_engine (without [] (rebuildOccupancy stuck_engine)) 0 \<and>
   sr_occ (strandStuck stuck_engine (rebuildOccupancy stuck_engine)) =
     rebuildOccupancy (sr_eng (strandStuck stuck_engine (rebuildOccupancy stuck_engine)))"
proof -
  have "pop_ok stuck_engine" "2 \<le> strand_limit stuck_engine" by code_simp+
  from strand_heads [OF this] show ?thesis using stuck_strands by simp
qed

end
