(* ===== verification/Step.thy ===== *)
theory Step
  imports Spawn Gridlock Crc
begin

text \<open>
  \<open>Step\<close> of \<open>engine/engine.go\<close>: one tick of the kernel, phase by phase in the code's order. The state
  is the engine and the occupancy of its lanes, which survives from tick to tick because the spawn
  phase reads the lists of the tick before. The route cache is not part of it: by
  \<open>boundary_independent\<close> and \<open>route_cache_invisible\<close> no outcome depends on it, so every lookup
  starts cold. Left out are \<open>updateStats\<close> and the other counters, which no phase reads.
\<close>

definition clear_requests :: "Engine \<Rightarrow> Engine" where
  "clear_requests e = e\<lparr>e_order := map (\<lambda>v. v\<lparr>v_reqAccOK := False, v_reqLane := 0\<rparr>) (e_order e)\<rparr>"

definition events :: "(stream \<Rightarrow> f64 \<times> stream) \<Rightarrow> Engine \<Rightarrow> occupancy \<Rightarrow> Engine" where
  "events norm e occ =
     (let (e1, occ1) = Spawner_step norm e occ in stepSignalOverrides (dr_eng (stepDirectorSpawns norm e1 occ1)))"

definition move :: "Engine \<Rightarrow> Engine" where
  "move e = (let occ = rebuildOccupancy e in b_eng (boundaries occ (integrate (computeAccels e occ)) cold))"

definition settle :: "Engine \<Rightarrow> strand_run" where
  "settle e = (let l = laneChanges e (rebuildOccupancy e) in strandStuck (lc_eng l) (lc_occ l))"

definition Step :: "(stream \<Rightarrow> f64 \<times> stream) \<Rightarrow> Engine \<times> occupancy \<Rightarrow> Engine \<times> occupancy" where
  "Step norm s =
     (let e1 = clear_requests (step_routing (fst s)); e2 = applyIntents (events norm e1 (snd s)); r = settle (move e2);
          e3 = sr_eng r in
      (e3\<lparr>e_crc := computeCRC e3\<rparr>, sr_occ r))"

end
