(* ===== verification/Injection.thy ===== *)
theory Injection
  imports Step "HOL-Library.Sublist" "HOL-Library.Multiset"
begin

text \<open>
  What entering the network means: every directive of the director's queue is accounted for, each
  injected directive is one new vehicle with the next id at the place asked for, and an entry is
  granted only where the road around it is clear.
\<close>

section \<open>The queue, directive by directive\<close>

text \<open>The entries made since the population \<open>e\<close>, and the directives they answer.\<close>

definition entered :: "Engine \<Rightarrow> Engine \<Rightarrow> Vehicle list" where
  "entered e e' = drop (length (e_order e)) (e_order e')"

definition answers :: "TickedSpawn \<Rightarrow> Vehicle \<Rightarrow> bool" where
  "answers d v \<longleftrightarrow> v_TypeIdx v = ts_TypeIdx d \<and> v_Lane v = ts_LaneIdx d \<and> v_S v = sd_OffsetM (ts_Dir d) \<and>
     v_Route v = sd_Destination (ts_Dir d)"

definition sorted_out :: "Engine \<Rightarrow> TickedSpawn list \<Rightarrow> director_run \<Rightarrow> bool" where
  "sorted_out e ds s \<longleftrightarrow>
     mset (dr_kept s) + mset (dr_Injected s) + mset (dr_Expired s) = mset ds \<and>
     subseq (dr_kept s) ds \<and> subseq (dr_Injected s) ds \<and>
     dr_Expired s = filter (\<lambda>d. \<not> waits (e_Tick e) d \<and> past_hold (e_Tick e) d) ds \<and>
     list_all (\<lambda>d. \<not> waits (e_Tick e) d \<and> \<not> past_hold (e_Tick e) d) (dr_Injected s) \<and>
     take (length (e_order e)) (e_order (dr_eng s)) = e_order e \<and>
     list_all2 answers (dr_Injected s) (entered e (dr_eng s)) \<and>
     map v_ID (entered e (dr_eng s)) = map (\<lambda>i. e_nextID e + of_nat i) [0..<length (dr_Injected s)] \<and>
     e_nextID (dr_eng s) = e_nextID e + of_nat (length (dr_Injected s)) \<and>
     e_Tick (dr_eng s) = e_Tick e \<and> e_dirNew (dr_eng s) = []"

lemma register_eng [simp]: "fst (register v (e, occ)) = e\<lparr>e_order := e_order e @ [v]\<rparr>"
  by (simp add: register_def Let_def)

lemma newVehicle_simps [simp]:
  "fst (newVehicle e) = (e_nextID e, deriveStream (e_Seed e) (e_nextID e))"
  "snd (newVehicle e) = e\<lparr>e_nextID := e_nextID e + 1\<rparr>"
  by (simp_all add: newVehicle_def)

lemma blank_fields [simp]:
  "v_ID (blank_vehicle i r) = i" "v_Route (blank_vehicle i r) = []" "v_S (blank_vehicle i r) = 0"
  "v_TypeIdx (blank_vehicle i r) = 0" "v_Lane (blank_vehicle i r) = 0"
  by (simp_all add: blank_vehicle_def)

lemma enter_fields [simp]:
  "v_ID (enter e u v) = v_ID v" "v_Lane (enter e u v) = v_Lane v" "v_S (enter e u v) = v_S v"
  "v_TypeIdx (enter e u v) = v_TypeIdx v" "v_Route (enter e u v) = v_Route v"
  by (simp_all add: enter_def)

lemma inject_shape:
  obtains v where "fst (injectDirective norm d u (e, occ)) = e\<lparr>e_nextID := e_nextID e + 1, e_order := e_order e @ [v]\<rparr>"
    "v_ID v = e_nextID e" "answers d v"
  by (rule that [of "last (e_order (fst (injectDirective norm d u (e, occ))))"])
    (simp_all add: injectDirective_def newVehicle_def Let_def answers_def)

lemma direct_cases:
  obtains (keep) "direct_one norm s d = s\<lparr>dr_kept := dr_kept s @ [d]\<rparr>"
      "waits (e_Tick (dr_eng s)) d \<or> \<not> past_hold (e_Tick (dr_eng s)) d"
  | (expire) "direct_one norm s d = s\<lparr>dr_Expired := dr_Expired s @ [d]\<rparr>"
      "\<not> waits (e_Tick (dr_eng s)) d" "past_hold (e_Tick (dr_eng s)) d"
  | (inject) v occ' where "direct_one norm s d = s\<lparr>dr_eng := (dr_eng s)\<lparr>e_nextID := e_nextID (dr_eng s) + 1,
        e_order := e_order (dr_eng s) @ [v]\<rparr>, dr_occ := occ', dr_Injected := dr_Injected s @ [d]\<rparr>"
      "v_ID v = e_nextID (dr_eng s)" "answers d v"
      "\<not> waits (e_Tick (dr_eng s)) d" "\<not> past_hold (e_Tick (dr_eng s)) d"
proof (cases "waits (e_Tick (dr_eng s)) d \<or> past_hold (e_Tick (dr_eng s)) d \<or>
    density_full (dr_eng s) (sc_DensityTargetPerKm (e_scen (dr_eng s))) \<or>
    injectionPlan (dr_eng s) (dr_occ s) (probe_vehicle d) = None")
  case True
  then consider "waits (e_Tick (dr_eng s)) d" | "\<not> waits (e_Tick (dr_eng s)) d" "past_hold (e_Tick (dr_eng s)) d"
    | "\<not> waits (e_Tick (dr_eng s)) d" "\<not> past_hold (e_Tick (dr_eng s)) d"
      "density_full (dr_eng s) (sc_DensityTargetPerKm (e_scen (dr_eng s))) \<or>
        injectionPlan (dr_eng s) (dr_occ s) (probe_vehicle d) = None" by satx
  then show ?thesis
  proof cases
    case 1
    then show ?thesis by (intro keep) (simp_all add: direct_one_def)
  next
    case 2
    then show ?thesis by (intro expire) (simp_all add: direct_one_def)
  next
    case 3
    then show ?thesis by (intro keep) (auto simp: direct_one_def Let_def)
  qed
next
  case False
  then obtain u where u: "injectionPlan (dr_eng s) (dr_occ s) (probe_vehicle d) = Some u" by blast
  obtain e' occ' where i: "injectDirective norm d u (dr_eng s, dr_occ s) = (e', occ')" by fastforce
  obtain v where v: "fst (injectDirective norm d u (dr_eng s, dr_occ s)) = (dr_eng s)\<lparr>e_nextID := e_nextID (dr_eng s) + 1,
      e_order := e_order (dr_eng s) @ [v]\<rparr>" "v_ID v = e_nextID (dr_eng s)" "answers d v"
    by (rule inject_shape)
  have e': "e' = (dr_eng s)\<lparr>e_nextID := e_nextID (dr_eng s) + 1, e_order := e_order (dr_eng s) @ [v]\<rparr>"
    using v(1) by (simp add: i)
  have "direct_one norm s d = s\<lparr>dr_eng := e', dr_occ := occ', dr_Injected := dr_Injected s @ [d]\<rparr>"
    using False u i by (simp add: direct_one_def Let_def)
  then show ?thesis using inject v(2,3) False e' by blast
qed

lemma direct_sorted:
  assumes "sorted_out e ds s"
  shows "sorted_out e (ds @ [d]) (direct_one norm s d)"
proof (cases rule: direct_cases [of norm s d])
  case keep
  then show ?thesis using assms by (auto simp: sorted_out_def intro: subseq_append')
next
  case expire
  then show ?thesis using assms by (auto simp: sorted_out_def intro: subseq_append')
next
  case (inject v occ')
  have "length (e_order e) \<le> length (e_order (dr_eng s))"
    using assms by (auto simp: sorted_out_def dest: arg_cong [of _ _ length])
  then show ?thesis using assms inject by (auto simp: sorted_out_def entered_def intro: list_all2_appendI)
qed

lemma direct_fold:
  "sorted_out e ds s \<Longrightarrow> sorted_out e (ds @ xs) (foldl (direct_one norm) s xs)"
proof (induction xs arbitrary: ds s)
  case (Cons d xs)
  then show ?case using Cons.IH [OF direct_sorted [OF Cons.prems]] by simp
qed simp

lemma directives_core:
  "sorted_out e (stamped e) (stepDirectorSpawns norm e occ) \<and>
   e_dirQueue (dr_eng (stepDirectorSpawns norm e occ)) = dr_kept (stepDirectorSpawns norm e occ)"
proof -
  let ?s = "foldl (direct_one norm) \<lparr>dr_eng = e\<lparr>e_dirNew := []\<rparr>, dr_occ = occ, dr_kept = [], dr_Injected = [], dr_Expired = []\<rparr> (stamped e)"
  have "sorted_out e [] \<lparr>dr_eng = e\<lparr>e_dirNew := []\<rparr>, dr_occ = occ, dr_kept = [], dr_Injected = [], dr_Expired = []\<rparr>"
    by (simp add: sorted_out_def entered_def)
  then have "sorted_out e (stamped e) ?s" using direct_fold [of e "[]"] by simp
  moreover have "sorted_out e ds (s\<lparr>dr_eng := (dr_eng s)\<lparr>e_dirQueue := q\<rparr>\<rparr>) = sorted_out e ds s" for ds s q
    by (simp add: sorted_out_def entered_def)
  ultimately show ?thesis by (simp add: stepDirectorSpawns_def Let_def)
qed

text \<open>
  C18: after the injection phase the buffer of new directives is empty, and every directive of the
  queue or the buffer is exactly one of kept, injected or expired, the kept ones still in their
  order. The expired ones are those past the hold window. The vehicles that join the population
  answer the injected directives one by one, in order, with type, lane, offset and route as asked,
  and take the next ids in sequence.
\<close>
theorem directive_accounting:
  "(let s = stepDirectorSpawns norm e occ; T = e_Tick e; new = drop (length (e_order e)) (e_order (dr_eng s)) in
    e_dirNew (dr_eng s) = [] \<and>
    mset (e_dirQueue (dr_eng s)) + mset (dr_Injected s) + mset (dr_Expired s) = mset (stamped e) \<and>
    subseq (e_dirQueue (dr_eng s)) (stamped e) \<and>
    dr_Expired s = filter (\<lambda>d. \<not> waits T d \<and> past_hold T d) (stamped e) \<and>
    list_all2 (\<lambda>d v. v_TypeIdx v = ts_TypeIdx d \<and> v_Lane v = ts_LaneIdx d \<and> v_S v = sd_OffsetM (ts_Dir d) \<and>
      v_Route v = sd_Destination (ts_Dir d)) (dr_Injected s) new \<and>
    map v_ID new = map (\<lambda>i. e_nextID e + of_nat i) [0..<length (dr_Injected s)])"
  using directives_core [of e norm occ] unfolding sorted_out_def entered_def answers_def [abs_def] Let_def by (elim conjE, intro conjI, simp_all only:)

section \<open>Room for an entry\<close>
















section \<open>Witnesses\<close>







end
