(* ===== verification/Kernel.thy ===== *)
theory Kernel
  imports Injection
begin

text \<open>
  The invariant of the running engine: every vehicle and every pending one has an id of its own
  below the next id, stands on a lane of the network and has a type of the scenario; what waits to
  be injected refers to lanes and types that exist. The phases after the events keep the cast; the
  spawner and the director extend it. The contract of a phase is the locale \<open>phase\<close>.
\<close>

section \<open>The contract of a phase\<close>

definition linked :: "Network \<Rightarrow> bool" where
  "linked net \<longleftrightarrow> (\<forall>i < length (n_Lanes net).
     (\<forall>u \<in> set (l_Successors (n_Lanes net ! i)) \<union> set (laterals net i). u < length (n_Lanes net)))"

definition fits :: "Engine \<Rightarrow> Vehicle \<Rightarrow> bool" where
  "fits e v \<longleftrightarrow> v_Lane v < length (e_Lanes e) \<and> v_TypeIdx v < length (e_Types e)"

definition keeps :: "Engine \<Rightarrow> Engine \<Rightarrow> bool" where
  "keeps e e' \<longleftrightarrow> same_roads (e_Net e) (e_Net e') \<and> n_Origins (e_Net e') = n_Origins (e_Net e) \<and>
     e_Types e' = e_Types e \<and> e_nextID e' = e_nextID e \<and> e_spawner e' = e_spawner e \<and> e_dirQueue e' = e_dirQueue e \<and>
     e_dirNew e' = e_dirNew e \<and> subseq (map v_ID (e_order e')) (map v_ID (e_order e)) \<and>
     (linked (e_Net e) \<longrightarrow> list_all (fits e) (e_order e) \<longrightarrow> list_all (fits e) (e_order e'))"

lemma same_roads_trans: "same_roads a b \<Longrightarrow> same_roads b c \<Longrightarrow> same_roads a c"
  by (simp add: same_roads_def)

lemma same_roads_self [simp]: "same_roads a a"
  by (simp add: same_roads_def)

lemma linked_same: "same_roads net net' \<Longrightarrow> linked net' = linked net"
  using same_roads_nth(1) [of net net'] same_roads_fields(1) [of net net'] laterals_same [of net net']
  by (simp add: linked_def)

lemma fits_same: "same_roads (e_Net e) (e_Net e') \<Longrightarrow> e_Types e' = e_Types e \<Longrightarrow> fits e' = fits e"
  using same_roads_nth(1) by (fastforce simp: fits_def)

lemma keeps_refl [simp]: "keeps e e"
  by (simp add: keeps_def)

lemma keeps_trans:
  assumes "keeps a b" and "keeps b c"
  shows "keeps a c"
proof -
  have "fits b = fits a" "linked (e_Net b) = linked (e_Net a)"
    using assms(1) fits_same linked_same by (auto simp: keeps_def)
  moreover have "same_roads (e_Net a) (e_Net c)" "subseq (map v_ID (e_order c)) (map v_ID (e_order a))"
    using assms same_roads_trans subseq_order.trans unfolding keeps_def by blast+
  ultimately show ?thesis using assms by (simp add: keeps_def)
qed

lemma keeps_fold:
  assumes "\<And>s x. x \<in> set xs \<Longrightarrow> keeps (g s) (g (f s x))"
  shows "keeps (g s) (g (foldl f s xs))"
  using assms
proof (induction xs arbitrary: s)
  case (Cons x xs)
  show ?case using keeps_trans [OF Cons.prems [of x s] Cons.IH [OF Cons.prems]] by simp
qed simp

lemma keeps_cast:
  assumes "same_roads (e_Net e) (e_Net e')" "n_Origins (e_Net e') = n_Origins (e_Net e)" "e_Types e' = e_Types e"
    "e_nextID e' = e_nextID e" "e_spawner e' = e_spawner e" "e_dirQueue e' = e_dirQueue e" "e_dirNew e' = e_dirNew e"
    "list_all2 (\<lambda>v w. v_ID w = v_ID v \<and> v_Lane w = v_Lane v \<and> v_TypeIdx w = v_TypeIdx v) (e_order e) (e_order e')"
  shows "keeps e e'"
proof -
  have "map v_ID (e_order e') = map v_ID (e_order e)" and "list_all (fits e) (e_order e') = list_all (fits e) (e_order e)"
    using assms(8) by (induction rule: list_all2_induct) (auto simp: fits_def)
  then show ?thesis using assms(1-7) by (simp add: keeps_def)
qed

lemma keeps_set:
  assumes "v_ID w = v_ID (veh e k)" and "v_TypeIdx w = v_TypeIdx (veh e k)"
    and "k < length (e_order e) \<Longrightarrow> linked (e_Net e) \<Longrightarrow> v_Lane (veh e k) < length (e_Lanes e) \<Longrightarrow> v_Lane w < length (e_Lanes e)"
  shows "keeps e (set_vehicle k w e)"
proof (cases "k < length (e_order e)")
  case True
  then have "map v_ID ((e_order e)[k := w]) = map v_ID (e_order e)"
    using assms(1) by (simp add: map_update list_update_same_conv veh_def)
  moreover have "list_all (fits e) ((e_order e)[k := w])" if "linked (e_Net e)" "list_all (fits e) (e_order e)"
  proof -
    have "fits e (veh e k)" using that(2) True by (simp add: veh_def list_all_length)
    then have "fits e w" using assms(2,3) True that(1) by (simp add: fits_def)
    then show ?thesis using that(2) set_update_subset_insert [of "e_order e" k w] by (auto simp: list_all_iff)
  qed
  ultimately show ?thesis by (simp add: keeps_def set_vehicle_def)
qed (simp add: set_vehicle_def list_update_beyond)

lemma keeps_note: "keeps e (noteLaneLeave k e)"
proof (rule keeps_cast)
  show "same_roads (e_Net e) (e_Net (noteLaneLeave k e))" using same_routing_note [of e k] by (simp add: same_routing_def)
  show "list_all2 (\<lambda>v w. v_ID w = v_ID v \<and> v_Lane w = v_Lane v \<and> v_TypeIdx w = v_TypeIdx v) (e_order e) (e_order (noteLaneLeave k e))"
    by (cases "k < length (e_order e)") (auto simp: note_order list_all2_conv_all_nth nth_list_update clocked_def list_update_beyond)
qed (simp_all add: noteLaneLeave_def Let_def)

lemma keeps_drop: "keeps e (dropDespawned gone e)"
proof -
  let ?ks = "filter (\<lambda>k. k \<notin> set gone) [0..<length (e_order e)]"
  have "subseq (map (\<lambda>k. e_order e ! k) ?ks) (map (\<lambda>k. e_order e ! k) [0..<length (e_order e)])"
    by (intro subseq_map subseq_filter_left)
  then have s: "subseq (map (\<lambda>k. e_order e ! k) ?ks) (e_order e)" by (simp add: map_nth)
  then have "list_all P (map (\<lambda>k. e_order e ! k) ?ks)" if "list_all P (e_order e)" for P
    using that by (auto simp: list_all_iff)
  then show ?thesis using subseq_map [OF s, of v_ID] by (simp add: keeps_def dropDespawned_def)
qed

section \<open>The invariant\<close>

definition pending :: "Engine \<Rightarrow> originState list" where
  "pending e = (case e_spawner e of None \<Rightarrow> [] | Some sp \<Rightarrow> sp_origins sp)"

definition directed :: "Engine \<Rightarrow> TickedSpawn \<Rightarrow> bool" where
  "directed e d \<longleftrightarrow> ts_LaneIdx d < length (e_Lanes e) \<and> ts_TypeIdx d < length (e_Types e)"

definition cast_ok :: "Engine \<Rightarrow> originState list \<Rightarrow> bool" where
  "cast_ok e os \<longleftrightarrow> linked (e_Net e) \<and> net_ok (e_Net e) \<and> e_Types e \<noteq> [] \<and> list_all (fits e) (e_order e) \<and>
     list_all (\<lambda>st. o_lane st < length (e_Lanes e)) os \<and> list_all (directed e) (e_dirQueue e @ e_dirNew e) \<and>
     distinct (map v_ID (e_order e) @ map o_pendID os) \<and>
     list_all (\<lambda>i. i < e_nextID e) (map v_ID (e_order e) @ map o_pendID os)"

definition kernel_ok :: "Engine \<Rightarrow> bool" where "kernel_ok e \<longleftrightarrow> cast_ok e (pending e)"

lemma keeps_ok:
  assumes "kernel_ok e" and "keeps e e'"
  shows "kernel_ok e'"
proof -
  let ?e = e and ?e' = e'
  have c: "same_roads (e_Net ?e) (e_Net ?e')" "n_Origins (e_Net ?e') = n_Origins (e_Net ?e)" "e_Types ?e' = e_Types ?e"
    "e_nextID ?e' = e_nextID ?e" "e_spawner ?e' = e_spawner ?e" "e_dirQueue ?e' = e_dirQueue ?e" "e_dirNew ?e' = e_dirNew ?e"
    and ids: "subseq (map v_ID (e_order ?e')) (map v_ID (e_order ?e))"
    and fit: "linked (e_Net ?e) \<Longrightarrow> list_all (fits ?e) (e_order ?e) \<Longrightarrow> list_all (fits ?e) (e_order ?e')"
    using assms(2) unfolding keeps_def by blast+
  note len = same_roads_nth(1) [OF c(1)]
  have "directed ?e' = directed ?e" using len c(3) by (simp add: fun_eq_iff directed_def)
  moreover have "net_ok (e_Net ?e') = net_ok (e_Net ?e)" using len c(2) by (simp add: net_ok_def)
  moreover have sub: "set (map v_ID (e_order ?e')) \<subseteq> set (map v_ID (e_order ?e))"
    using ids by (metis set_nths_subset subseq_conv_nths)
  moreover have "distinct (map v_ID (e_order ?e') @ xs)" if "distinct (map v_ID (e_order ?e) @ xs)" for xs
  proof -
    have "distinct (map v_ID (e_order ?e'))" using ids that by (auto simp: subseq_conv_nths intro: distinct_nthsI)
    then show ?thesis using that sub by (simp add: disjoint_iff) blast
  qed
  moreover have "list_all P (map v_ID (e_order ?e') @ xs)" if "list_all P (map v_ID (e_order ?e) @ xs)" for P xs
    using that sub by (simp add: list_all_iff) blast
  moreover have "pending ?e' = pending ?e" using c(5) by (simp add: pending_def)
  ultimately show ?thesis
    using assms(1) c(3,4,6,7) fit fits_same [OF c(1,3)] linked_same [OF c(1)] len
    unfolding kernel_ok_def cast_ok_def by metis
qed

text \<open>The engine before a phase and the occupancy it reads; the engine after it.\<close>

locale phase =
  fixes run :: "Engine \<times> occupancy \<Rightarrow> Engine"
  assumes cast: "keeps (fst s) (run s)"
begin

lemma preserved: "kernel_ok (fst s) \<Longrightarrow> kernel_ok (run s)"
  using keeps_ok cast by blast

lemma population: "subseq (map v_ID (e_order (run s))) (map v_ID (e_order (fst s)))"
  using cast [of s] by (simp add: keeps_def)

end

section \<open>The phases keep the cast\<close>

lemma computeAccels_keeps: "keeps e (computeAccels e occ)"
  unfolding computeAccels_def
proof (rule keeps_fold [where g = "\<lambda>e. e"])
  fix a :: Engine and k
  have "v_ID (accel_vehicle a occ i k) = v_ID (veh a k)" "v_TypeIdx (accel_vehicle a occ i k) = v_TypeIdx (veh a k)"
    "v_Lane (accel_vehicle a occ i k) = v_Lane (veh a k)" for i
    using arg_cong [OF visible_accel [of a occ i k], of v_ID] arg_cong [OF visible_accel [of a occ i k], of v_TypeIdx]
      arg_cong [OF visible_accel [of a occ i k], of v_Lane] by (simp_all add: visible_def)
  then show "keeps a (accel_one occ (idmPolicy e) a k)" unfolding accel_one_def by (intro keeps_set) simp_all
qed

lemma integrate_keeps: "keeps e (integrate e)"
  by (rule keeps_cast) (simp_all add: integrate_def list_all2_conv_all_nth integrate_one_def Let_def)

lemma depart_keeps: "keeps (b_eng b) (b_eng (depart k b))"
  by (simp add: depart_def keeps_note)

lemma cross_keeps:
  assumes "v_Lane (veh (b_eng b) k) = i"
  shows "keeps (b_eng b) (b_eng (cross occ i k b))"
proof -
  let ?e = "b_eng b" and ?v = "(veh (b_eng b) k)\<lparr>v_S := fsub (v_S (veh (b_eng b) k)) (l_Length (e_Lanes (b_eng b) ! i))\<rparr>"
  let ?e1 = "set_vehicle k ?v ?e"
  obtain r rc where p: "pickSuccessor ?e1 (b_cache b) i ?v = (r, rc)" by fastforce
  show ?thesis
  proof (cases r)
    case None
    then show ?thesis using p by (simp add: cross_def veh_def Let_def)
  next
    case (Some j)
    let ?e2 = "noteLaneLeave k ?e1"
    have j: "j \<in> set (l_Successors (e_Lanes ?e1 ! i))" using pick_in [of ?e1 "b_cache b" i ?v j] p Some by simp
    have r: "same_roads (e_Net ?e1) (e_Net ?e2)" using same_routing_note [of ?e1 k] by (simp add: same_routing_def)
    have "keeps ?e ?e1" by (rule keeps_set) simp_all
    moreover have "keeps ?e1 ?e2" by (rule keeps_note)
    moreover have "keeps ?e2 (set_vehicle k (enter_lane ?e2 j (veh ?e2 k)) ?e2)"
    proof (rule keeps_set)
      assume l: "linked (e_Net ?e2)" and i: "v_Lane (veh ?e2 k) < length (e_Lanes ?e2)" and k: "k < length (e_order ?e2)"
      have "v_Lane (veh ?e2 k) = i" using assms k by (auto simp: veh_def note_order set_vehicle_def clocked_def)
      then have "j \<in> set (l_Successors (e_Lanes ?e2 ! i))" "i < length (e_Lanes ?e2)"
        using i j same_roads_fields(1) [OF r] same_roads_nth(1) [OF r] by simp_all
      then show "v_Lane (enter_lane ?e2 j (veh ?e2 k)) < length (e_Lanes ?e2)" using l by (simp add: linked_def)
    qed (simp_all add: enter_lane_def Let_def)
    ultimately have "keeps ?e (set_vehicle k (enter_lane ?e2 j (veh ?e2 k)) ?e2)" using keeps_trans by blast
    moreover have "b_eng (cross occ i k b) = set_vehicle k (enter_lane ?e2 j (veh ?e2 k)) ?e2"
      using p Some by (simp add: cross_def veh_def Let_def)
    ultimately show ?thesis by simp
  qed
qed

lemma boundary_one_keeps: "keeps (b_eng b) (b_eng (boundary_one occ i b k))"
  using depart_keeps [of b k] cross_keeps [of b k i occ] keeps_set [of "(veh (b_eng b) k)\<lparr>v_S := l_Length (e_Lanes (b_eng b) ! i), v_V := 0\<rparr>" "b_eng b" k]
  by (simp add: boundary_one_def Let_def veh_def)

lemma boundaries_keeps: "keeps e (b_eng (boundaries occ e rc))"
proof -
  let ?b = "foldl (boundary_lane occ) (boundary_start e rc) (rev [0..<length (e_Lanes e)])"
  have "keeps (b_eng b) (b_eng (boundary_lane occ b i))" for b i
    unfolding boundary_lane_def
    using keeps_fold [where g = b_eng and s = "b\<lparr>b_past := (b_past b)(i := [])\<rparr>" and f = "boundary_one occ i" and xs = "b_past b i"] boundary_one_keeps by simp
  then have "keeps (b_eng (boundary_start e rc)) (b_eng ?b)" by (rule keeps_fold)
  then have "keeps e (b_eng ?b)" by (simp add: boundary_start_def)
  moreover have "keeps (b_eng ?b) (dropDespawned (b_gone ?b) (b_eng ?b))" by (rule keeps_drop)
  ultimately show ?thesis using keeps_trans by (simp add: boundaries_def Let_def)
qed

lemma exec_keeps: "keeps (lc_eng st) (lc_eng (execLaneChange k dir st))"
proof (cases "neighbour_lane (e_Lanes (lc_eng st) ! v_Lane (veh (lc_eng st) k)) dir")
  case (Some t)
  let ?e = "lc_eng st"
  let ?e1 = "noteLaneLeave k ?e"
  have "keeps ?e1 (set_vehicle k ((veh ?e1 k)\<lparr>v_Lane := t, v_Cooldown := p_LCCooldown (e_Params ?e)\<rparr>) ?e1)"
  proof (rule keeps_set)
    assume k: "k < length (e_order ?e1)" and l: "linked (e_Net ?e1)" and i: "v_Lane (veh ?e1 k) < length (e_Lanes ?e1)"
    have r: "same_roads (e_Net ?e) (e_Net ?e1)" using same_routing_note [of ?e k] by (simp add: same_routing_def)
    have "t \<in> set (laterals (e_Net ?e1) (v_Lane (veh ?e k)))"
      using neighbour_lateral [OF Some] laterals_same [OF r] by simp
    moreover have "v_Lane (veh ?e k) = v_Lane (veh ?e1 k)" using k by (simp add: veh_def note_order clocked_def)
    ultimately show "v_Lane ((veh ?e1 k)\<lparr>v_Lane := t, v_Cooldown := p_LCCooldown (e_Params ?e)\<rparr>) < length (e_Lanes ?e1)"
      using l i by (simp add: linked_def)
  qed simp_all
  then show ?thesis using keeps_trans [OF keeps_note] Some by (simp add: execLaneChange_def Let_def)
qed (simp add: execLaneChange_def)

lemma lateral_keeps: "keeps (lc_eng st) (lc_eng (lateral_one idm st k))"
proof -
  let ?e = "lc_eng st"
  have cool: "keeps ?e (set_vehicle k ((veh ?e k)\<lparr>v_Cooldown := c\<rparr>) ?e)" for c by (rule keeps_set) simp_all
  have forced: "keeps ?e (lc_eng (tryForcedLaneChange k st))"
    using exec_keeps by (simp add: tryForcedLaneChange_def Let_def)
  have recovery: "keeps ?e (lc_eng (snd (tryRouteRecovery k st)))"
    using exec_keeps by (simp add: tryRouteRecovery_def Let_def split: option.split)
  have mobil: "keeps ?e (lc_eng (tryLaneChange k st))"
  proof -
    obtain d rng where d: "DecideLaneChange (PolicyContext ?e (lc_occ st) k) (e_Params ?e) (v_rng (veh ?e k)) = (d, rng)"
      by fastforce
    have "keeps ?e (set_vehicle k ((veh ?e k)\<lparr>v_rng := rng\<rparr>) ?e)" by (rule keeps_set) simp_all
    then show ?thesis
      using keeps_trans [OF _ exec_keeps [of "st\<lparr>lc_eng := set_vehicle k ((veh ?e k)\<lparr>v_rng := rng\<rparr>) ?e\<rparr>" k d]]
      by (simp add: tryLaneChange_def d Let_def)
  qed
  have "snd (tryRouteRecovery k st) = st" if "\<not> fst (tryRouteRecovery k st)"
    using that by (simp add: tryRouteRecovery_def Let_def split: option.splits)
  then show ?thesis using cool forced recovery mobil by (auto simp: lateral_one_def Let_def split: prod.split)
qed

lemma laneChanges_keeps: "keeps e (lc_eng (laneChanges e occ))"
  unfolding laneChanges_def
  using keeps_fold [where g = lc_eng and s = "\<lparr>lc_eng = e, lc_occ = occ, lc_LaneChanges = 0\<rparr>" and f = "lateral_one (idmPolicy e)"
      and xs = "stable_sort (ahead_of e) [0..<length (e_order e)]"] lateral_keeps by simp

lemma set_stuck_keeps: "keeps e (set_stuck t e k)"
  unfolding set_stuck_def by (rule keeps_set) simp_all

lemma reset_keeps: "keeps e (reset_walk f occ work seen e)"
proof (induction f arbitrary: work seen e)
  case (Suc f)
  have "keeps a (clear_lane occ a i)" for a i
    unfolding clear_lane_def by (rule keeps_fold [where g = "\<lambda>e. e"]) (rule set_stuck_keeps)
  then have "keeps e (foldl (clear_lane occ) e work)" by (rule keeps_fold [where g = "\<lambda>e. e"])
  then show ?case using Suc.IH keeps_trans by (auto simp: Let_def)
qed simp

lemma strand_one_keeps: "keeps (sr_eng st) (sr_eng (strand_one limit st k))"
proof -
  have v: "keeps (sr_eng a) (sr_eng (strand_vehicle k a))" for a
    using keeps_trans [OF keeps_note reset_keeps] by (simp add: strand_vehicle_def resetStuckBehind_def Let_def)
  have "keeps (sr_eng st) (sr_eng (strand_vehicle k (st\<lparr>sr_eng := set_stuck t (sr_eng st) k\<rparr>)))" for t
    using keeps_trans [OF set_stuck_keeps [of "sr_eng st" t k]] v [of "st\<lparr>sr_eng := set_stuck t (sr_eng st) k\<rparr>"] by simp
  then show ?thesis using set_stuck_keeps by (simp add: strand_one_def Let_def)
qed

lemma strandStuck_keeps: "keeps e (sr_eng (strandStuck e occ))"
proof -
  have "keeps e (sr_eng (strand_sweep e occ))"
    unfolding strand_sweep_def
    using keeps_fold [where g = sr_eng and s = "\<lparr>sr_eng = e, sr_occ = occ, sr_gone = []\<rparr>" and f = "strand_one (strand_limit e)"
      and xs = "[0..<length (e_order e)]"]
      strand_one_keeps by simp
  moreover have "keeps (sr_eng (strand_sweep e occ)) (dropDespawned (sr_gone (strand_sweep e occ)) (sr_eng (strand_sweep e occ)))"
    by (rule keeps_drop)
  ultimately show ?thesis using keeps_trans by (simp add: strandStuck_def Let_def)
qed

lemma apply_loop_keeps: "keeps e (apply_loop ks won e)"
proof (induction ks arbitrary: won e)
  case (Cons k ks)
  have r: "keeps a (record_entry b k a)" for a b
    by (rule keeps_cast) (simp_all add: record_entry_def Let_def list_all2_conv_all_nth)
  have "keeps a (apply_to a it)" for a it
  proof (cases "vehicleByID a (in_VehicleID it)")
    case (Some i)
    then show ?thesis using keeps_set [of "applyAxes a (veh a i) it" a i] by (simp add: apply_to_def set_vehicle_def veh_def)
  qed (simp add: apply_to_def)
  then have "keeps e (record_entry False k (apply_to e (ki_Intent k)))" using r keeps_trans by blast
  then show ?case using keeps_trans [OF r [of e True] Cons.IH] keeps_trans [OF _ Cons.IH] by (simp add: Let_def)
qed simp

lemma applyIntents_keeps: "keeps e (applyIntents e)"
proof -
  have f: "keeps a (a\<lparr>e_applied := x\<rparr>)" "keeps a (a\<lparr>e_intentQ := q\<rparr>)" for a x q by (simp_all add: keeps_def fits_def)
  let ?l = "apply_loop (stable_sort intent_before (e_intentQ e)) [] (e\<lparr>e_applied := []\<rparr>)"
  have "keeps e ?l" using keeps_trans [OF f(1) apply_loop_keeps] .
  then have "keeps e (?l\<lparr>e_intentQ := []\<rparr>)" using keeps_trans [OF _ f(2)] by blast
  then show ?thesis using f(1) by (simp add: applyIntents_def Let_def)
qed

lemma clear_keeps: "keeps e (clear_requests e)"
  by (rule keeps_cast) (simp_all add: clear_requests_def list_all2_conv_all_nth)

lemma signals_keeps: "keeps e (stepSignalOverrides e)"
proof -
  have a: "keeps a (applySignal b a d)" for a b d
    by (rule keeps_cast)
      (simp_all add: applySignal_def markSignalVerbUnenforced_def Let_def list_all2_conv_all_nth split: prod.split option.split)
  have s: "keeps a (sweepSignal a p)" for a p
    by (rule keeps_cast) (simp_all add: sweepSignal_def Let_def list_all2_conv_all_nth split: option.split)
  let ?e1 = "e\<lparr>e_appliedSig := [], e_sigLapses := []\<rparr>"
  let ?e2 = "foldl (applySignal (signalHoldMaxTicks e)) ?e1 (e_sigNew e)"
  have "keeps e ?e1" by (simp add: keeps_def fits_def)
  moreover have "keeps ?e1 ?e2" by (rule keeps_fold [where g = "\<lambda>e. e"]) (rule a)
  moreover have "keeps ?e2 (?e2\<lparr>e_sigNew := []\<rparr>)" by (simp add: keeps_def fits_def)
  ultimately have k: "keeps e (?e2\<lparr>e_sigNew := []\<rparr>)" using keeps_trans by blast
  have "keeps b (foldl sweepSignal b ps)" for b ps by (rule keeps_fold [where g = "\<lambda>e. e"]) (rule s)
  then show ?thesis using k keeps_trans [OF k] by (simp add: stepSignalOverrides_def Let_def)
qed

lemma routing_keeps: "keeps e (step_routing e)"
proof (rule keeps_cast)
  show "same_roads (e_Net e) (e_Net (step_routing e))"
    using same_roads_times [of "e\<lparr>e_Tick := e_Tick e + 1\<rparr>"] by (simp add: step_routing_def relaxTravelTimes_def freeze_times_def Let_def)
qed (simp_all add: step_routing_def relaxTravelTimes_def freeze_times_def set_times_def Let_def list_all2_conv_all_nth)

subsection \<open>Each phase meets the contract\<close>

interpretation clear_phase: phase "\<lambda>s. clear_requests (fst s)"
  by unfold_locales (rule clear_keeps)

interpretation routing_phase: phase "\<lambda>s. step_routing (fst s)"
  by unfold_locales (rule routing_keeps)

interpretation signal_phase: phase "\<lambda>s. stepSignalOverrides (fst s)"
  by unfold_locales (rule signals_keeps)

interpretation intent_phase: phase "\<lambda>s. applyIntents (fst s)"
  by unfold_locales (rule applyIntents_keeps)

interpretation accel_phase: phase "\<lambda>s. computeAccels (fst s) (snd s)"
  by unfold_locales (rule computeAccels_keeps)

interpretation motion_phase: phase "\<lambda>s. integrate (fst s)"
  by unfold_locales (rule integrate_keeps)

interpretation boundary_phase: phase "\<lambda>s. b_eng (boundaries (snd s) (fst s) cold)"
  by unfold_locales (rule boundaries_keeps)

interpretation lateral_phase: phase "\<lambda>s. lc_eng (laneChanges (fst s) (snd s))"
  by unfold_locales (rule laneChanges_keeps)

interpretation gridlock_phase: phase "\<lambda>s. sr_eng (strandStuck (fst s) (snd s))"
  by unfold_locales (rule strandStuck_keeps)

lemma move_ok: "kernel_ok e \<Longrightarrow> kernel_ok (move e)"
  using accel_phase.preserved [of "(e, rebuildOccupancy e)"] motion_phase.preserved [of "(computeAccels e (rebuildOccupancy e), rebuildOccupancy e)"]
    boundary_phase.preserved [of "(integrate (computeAccels e (rebuildOccupancy e)), rebuildOccupancy e)"]
  by (simp add: move_def Let_def)

lemma settled_ok: "kernel_ok e \<Longrightarrow> kernel_ok (sr_eng (settle e))"
  using lateral_phase.preserved [of "(e, rebuildOccupancy e)"]
    gridlock_phase.preserved [of "(lc_eng (laneChanges e (rebuildOccupancy e)), lc_occ (laneChanges e (rebuildOccupancy e)))"]
  by (simp add: settle_def Let_def)

section \<open>The events extend the cast\<close>

text \<open>Ids left: the next id does not wrap within the tick.\<close>

definition ids_left :: "Engine \<Rightarrow> bool" where
  "ids_left e \<longleftrightarrow> unat (e_nextID e) + length (pending e) + length (e_dirQueue e) + length (e_dirNew e) < 18446744073709551616"

lemma next_id: "unat (n :: u64) + 1 < 18446744073709551616 \<Longrightarrow> n < n + 1 \<and> unat (n + 1) = unat n + 1"
  by (simp add: word_less_nat_alt unat_word_ariths)

lemma pick_weighted_range: "i + length ws \<le> n \<Longrightarrow> d < n \<Longrightarrow> pick_weighted ws i u c d < n"
  by (induction ws arbitrary: i c) auto

lemma draw_type_range: "e_Types e \<noteq> [] \<Longrightarrow> fst (draw_type e s) < length (e_Types e)"
  using pick_weighted_range [of 0 "sc_TypeWeights (e_scen e)" "length (e_Types e)" "length (e_Types e) - 1"]
  by (auto simp: draw_type_def Let_def split: prod.split)

lemma pend_fields:
  "v_ID (pend_vehicle norm e st) = o_pendID st" "v_Lane (pend_vehicle norm e st) = o_lane st"
  "e_Types e \<noteq> [] \<Longrightarrow> v_TypeIdx (pend_vehicle norm e st) < length (e_Types e)"
  using draw_type_range [of e "spawnAttrStream (e_Seed e) (o_pendID st)"]
  by (auto simp: pend_vehicle_def split: prod.split)

text \<open>A vehicle enters whose id is that of a pending one, or the next id.\<close>

lemma cast_enters:
  assumes ok: "cast_ok e (as @ st # bs)" and v: "v_ID v = o_pendID st" "fits e v" and id: "unat (e_nextID e) + 1 < 18446744073709551616"
    and st': "o_lane st' = o_lane st" "o_pendID st' = e_nextID e"
  shows "cast_ok (e\<lparr>e_order := e_order e @ [v], e_nextID := e_nextID e + 1\<rparr>) (as @ st' # bs)"
proof -
  have f: "fits (e\<lparr>e_order := x, e_nextID := n\<rparr>) = fits e" "directed (e\<lparr>e_order := x, e_nextID := n\<rparr>) = directed e" for x n
    by (simp_all add: fun_eq_iff fits_def directed_def)
  have n: "i < e_nextID e + 1" if "i < e_nextID e" for i using next_id [OF id] that by (metis order.strict_trans)
  show ?thesis using ok v st' n next_id [OF id] unfolding cast_ok_def by (auto simp: f list_all_iff)
qed

lemma cast_joins:
  assumes ok: "cast_ok e os" and v: "v_ID v = e_nextID e" "fits e v" and id: "unat (e_nextID e) + 1 < 18446744073709551616"
  shows "cast_ok (e\<lparr>e_nextID := e_nextID e + 1, e_order := e_order e @ [v]\<rparr>) os"
proof -
  have f: "fits (e\<lparr>e_nextID := n, e_order := x\<rparr>) = fits e" "directed (e\<lparr>e_nextID := n, e_order := x\<rparr>) = directed e" for x n
    by (simp_all add: fun_eq_iff fits_def directed_def)
  have n: "i < e_nextID e + 1" if "i < e_nextID e" for i using next_id [OF id] that by (metis order.strict_trans)
  show ?thesis using ok v n next_id [OF id] unfolding cast_ok_def by (auto simp: f list_all_iff)
qed

text \<open>What the spawner leaves alone, and how far the next id may move.\<close>

definition spawned_from :: "Engine \<Rightarrow> nat \<Rightarrow> Engine \<Rightarrow> bool" where
  "spawned_from e n e' \<longleftrightarrow> e_spawner e' = e_spawner e \<and> e_dirQueue e' = e_dirQueue e \<and> e_dirNew e' = e_dirNew e \<and>
     unat (e_nextID e') \<le> unat (e_nextID e) + n"

lemma spawn_origin_ok:
  assumes ok: "cast_ok (sw_eng s) (sw_origins s @ st # os)" and id: "unat (e_nextID (sw_eng s)) + 1 < 18446744073709551616"
  shows "cast_ok (sw_eng (spawn_origin norm t s st)) (sw_origins (spawn_origin norm t s st) @ os) \<and>
    spawned_from (sw_eng s) 1 (sw_eng (spawn_origin norm t s st))"
proof (cases "e_Tick (sw_eng s) < o_tick st \<or> density_full (sw_eng s) t \<or>
    injectionPlan (sw_eng s) (sw_occ s) (pend_vehicle norm (sw_eng s) st) = None")
  case True
  then have "sw_eng (spawn_origin norm t s st) = sw_eng s" "sw_origins (spawn_origin norm t s st) = sw_origins s @ [st]"
    by (auto simp: spawn_origin_def Let_def)
  then show ?thesis using ok by (simp add: spawned_from_def)
next
  case False
  let ?e = "sw_eng s"
  obtain u where u: "injectionPlan ?e (sw_occ s) (pend_vehicle norm ?e st) = Some u" using False by blast
  let ?v = "enter ?e u (pend_vehicle norm ?e st)"
  obtain e1 occ1 where r: "register ?v (?e, sw_occ s) = (e1, occ1)" by fastforce
  have e1: "e1 = ?e\<lparr>e_order := e_order ?e @ [?v]\<rparr>" using r register_eng [of ?v ?e "sw_occ s"] by (metis fst_conv)
  obtain st' e2 where n: "next_pend e1 st = (st', e2)" by fastforce
  have n': "e2 = e1\<lparr>e_nextID := e_nextID e1 + 1\<rparr>" "o_lane st' = o_lane st" "o_pendID st' = e_nextID e1"
    using n by (auto simp: next_pend_def newVehicle_def Let_def split: prod.splits)
  have s: "sw_eng (spawn_origin norm t s st) = e2" "sw_origins (spawn_origin norm t s st) = sw_origins s @ [st']"
    using False u r n by (simp_all add: spawn_origin_def Let_def)
  have "fits ?e ?v" using ok pend_fields [where norm = norm and e = ?e and st = st] by (simp add: fits_def cast_ok_def)
  then have "cast_ok (?e\<lparr>e_order := e_order ?e @ [?v], e_nextID := e_nextID ?e + 1\<rparr>) (sw_origins s @ st' # os)"
    using cast_enters [OF ok _ _ id, of ?v st'] n'(2,3) pend_fields(1) [where norm = norm and e = ?e and st = st] by (simp add: e1)
  then show ?thesis using s n'(1) e1 next_id [OF id] by (simp add: spawned_from_def)
qed

lemma spawn_fold_ok:
  "cast_ok (sw_eng s) (sw_origins s @ os) \<Longrightarrow> unat (e_nextID (sw_eng s)) + length os < 18446744073709551616 \<Longrightarrow>
   cast_ok (sw_eng (foldl (spawn_origin norm t) s os)) (sw_origins (foldl (spawn_origin norm t) s os)) \<and>
   spawned_from (sw_eng s) (length os) (sw_eng (foldl (spawn_origin norm t) s os))"
proof (induction os arbitrary: s)
  case (Cons st os)
  have id: "unat (e_nextID (sw_eng s)) + 1 < 18446744073709551616" using Cons.prems(2) by simp
  note k = spawn_origin_ok [OF Cons.prems(1) id, where norm = norm and t = t]
  have "unat (e_nextID (sw_eng (spawn_origin norm t s st))) + length os < 18446744073709551616"
    using k Cons.prems(2) by (simp add: spawned_from_def)
  from Cons.IH [OF conjunct1 [OF k] this] show ?case using k by (auto simp: spawned_from_def)
qed (simp add: spawned_from_def)

lemma apply_steps_frame:
  "map o_lane (sp_origins (apply_steps t ss sp)) = map o_lane (sp_origins sp) \<and>
   map o_pendID (sp_origins (apply_steps t ss sp)) = map o_pendID (sp_origins sp)"
proof (induction t ss sp rule: apply_steps.induct)
  case (2 t d x rest sp)
  then show ?case by (simp add: comp_def)
qed simp

lemma cast_origins:
  assumes "cast_ok e os" and "map o_lane os' = map o_lane os" and "map o_pendID os' = map o_pendID os"
  shows "cast_ok e os'"
proof -
  have "list_all P (map o_lane os') = list_all P (map o_lane os)" for P using assms(2) by simp
  then have "list_all (\<lambda>st. o_lane st < length (e_Lanes e)) os' = list_all (\<lambda>st. o_lane st < length (e_Lanes e)) os"
    by (simp add: list.pred_map comp_def)
  then show ?thesis using assms(1,3) by (simp add: cast_ok_def)
qed

lemma cast_spawner [simp]: "cast_ok (e\<lparr>e_spawner := x\<rparr>) os = cast_ok e os"
proof -
  have "fits (e\<lparr>e_spawner := x\<rparr>) = fits e" "directed (e\<lparr>e_spawner := x\<rparr>) = directed e"
    by (simp_all add: fun_eq_iff fits_def directed_def)
  then show ?thesis by (simp add: cast_ok_def)
qed

lemma Spawner_step_ok:
  assumes ok: "kernel_ok e" and id: "unat (e_nextID e) + length (pending e) < 18446744073709551616"
  shows "kernel_ok (fst (Spawner_step norm e occ)) \<and>
    e_dirQueue (fst (Spawner_step norm e occ)) = e_dirQueue e \<and> e_dirNew (fst (Spawner_step norm e occ)) = e_dirNew e \<and>
    unat (e_nextID (fst (Spawner_step norm e occ))) \<le> unat (e_nextID e) + length (pending e)"
proof (cases "e_spawner e")
  case None
  then show ?thesis using ok by (simp add: Spawner_step_def)
next
  case (Some sp0)
  define sp where "sp = apply_steps (e_Tick e) (drop (sp_next sp0) (sp_sched sp0)) sp0"
  let ?start = "\<lparr>sw_eng = e, sw_occ = occ, sw_origins = [], sw_Spawned = 0\<rparr>"
  let ?s = "foldl (spawn_origin norm (sp_target sp)) ?start (sp_origins sp)"
  note f = apply_steps_frame [of "e_Tick e" "drop (sp_next sp0) (sp_sched sp0)" sp0, folded sp_def]
  have c: "cast_ok e (sp_origins sp)"
    using ok Some cast_origins [of e "sp_origins sp0" "sp_origins sp"] f by (simp add: kernel_ok_def pending_def)
  have l: "length (sp_origins sp) = length (pending e)"
    using f Some by (metis length_map option.simps(5) pending_def)
  have k: "cast_ok (sw_eng ?s) (sw_origins ?s) \<and> spawned_from e (length (pending e)) (sw_eng ?s)"
    using spawn_fold_ok [where s = ?start and os = "sp_origins sp" and norm = norm and t = "sp_target sp"] c id l by simp
  have "Spawner_step norm e occ = ((sw_eng ?s)\<lparr>e_spawner := Some (sp\<lparr>sp_origins := sw_origins ?s\<rparr>)\<rparr>, sw_occ ?s)"
    using Some by (simp add: Spawner_step_def sp_def Let_def)
  then show ?thesis using k by (simp add: kernel_ok_def pending_def spawned_from_def)
qed

lemma direct_one_ok:
  assumes ok: "cast_ok (dr_eng s) os" and d: "directed (dr_eng s) d" and id: "unat (e_nextID (dr_eng s)) + 1 < 18446744073709551616"
  shows "cast_ok (dr_eng (direct_one norm s d)) os \<and> e_spawner (dr_eng (direct_one norm s d)) = e_spawner (dr_eng s) \<and>
    directed (dr_eng (direct_one norm s d)) = directed (dr_eng s) \<and>
    unat (e_nextID (dr_eng (direct_one norm s d))) \<le> unat (e_nextID (dr_eng s)) + 1"
proof (cases rule: direct_cases [of norm s d])
  case (inject v occ')
  have "fits (dr_eng s) v" using inject(3) d by (simp add: answers_def fits_def directed_def)
  then show ?thesis using cast_joins [OF ok inject(2) _ id] inject(1) next_id [OF id] by (simp add: fun_eq_iff directed_def)
qed (use ok in simp_all)

lemma direct_fold_ok:
  "cast_ok (dr_eng s) os \<Longrightarrow> list_all (directed (dr_eng s)) ds \<Longrightarrow>
   unat (e_nextID (dr_eng s)) + length ds < 18446744073709551616 \<Longrightarrow>
   cast_ok (dr_eng (foldl (direct_one norm) s ds)) os \<and> e_spawner (dr_eng (foldl (direct_one norm) s ds)) = e_spawner (dr_eng s) \<and>
   directed (dr_eng (foldl (direct_one norm) s ds)) = directed (dr_eng s)"
proof (induction ds arbitrary: s)
  case (Cons d ds)
  have p: "directed (dr_eng s) d" "unat (e_nextID (dr_eng s)) + 1 < 18446744073709551616" using Cons.prems by simp_all
  note k = direct_one_ok [OF Cons.prems(1) p, where norm = norm]
  have "list_all (directed (dr_eng (direct_one norm s d))) ds"
    and "unat (e_nextID (dr_eng (direct_one norm s d))) + length ds < 18446744073709551616"
    using k Cons.prems by simp_all
  from Cons.IH [OF conjunct1 [OF k] this] show ?case using k by simp
qed simp

lemma directives_ok:
  assumes ok: "kernel_ok e" and id: "unat (e_nextID e) + length (e_dirQueue e) + length (e_dirNew e) < 18446744073709551616"
  shows "kernel_ok (dr_eng (stepDirectorSpawns norm e occ))"
proof -
  let ?start = "\<lparr>dr_eng = e\<lparr>e_dirNew := []\<rparr>, dr_occ = occ, dr_kept = [], dr_Injected = [], dr_Expired = []\<rparr>"
  let ?s = "foldl (direct_one norm) ?start (stamped e)"
  have f: "fits (e'\<lparr>e_dirNew := x\<rparr>) = fits e'" "directed (e'\<lparr>e_dirNew := x\<rparr>) = directed e'"
    "fits (e'\<lparr>e_dirQueue := x\<rparr>) = fits e'" "directed (e'\<lparr>e_dirQueue := x\<rparr>) = directed e'" for e' :: Engine and x
    by (simp_all add: fun_eq_iff fits_def directed_def)
  have st: "list_all (directed e) (stamped e)"
    using ok by (auto simp: kernel_ok_def cast_ok_def stamped_def list_all_iff directed_def)
  have len: "length (stamped e) = length (e_dirQueue e) + length (e_dirNew e)" by (simp add: stamped_def)
  have c: "cast_ok (dr_eng ?start) (pending e)" using ok by (simp add: kernel_ok_def cast_ok_def f)
  have k: "cast_ok (dr_eng ?s) (pending e) \<and> e_spawner (dr_eng ?s) = e_spawner e \<and> directed (dr_eng ?s) = directed e"
    using direct_fold_ok [OF c, where ds = "stamped e" and norm = norm] st id len by (simp add: f pending_def)
  have "sorted_out e (stamped e) (stepDirectorSpawns norm e occ)" using directives_core by blast
  then have sub: "subseq (dr_kept (stepDirectorSpawns norm e occ)) (stamped e)" "e_dirNew (dr_eng (stepDirectorSpawns norm e occ)) = []"
    by (simp_all add: sorted_out_def)
  have r: "stepDirectorSpawns norm e occ = ?s\<lparr>dr_eng := (dr_eng ?s)\<lparr>e_dirQueue := dr_kept ?s\<rparr>\<rparr>"
    by (simp add: stepDirectorSpawns_def Let_def)
  have "list_all (directed e) (dr_kept ?s)"
    using st sub(1) r by (auto simp: list_all_iff subseq_conv_nths dest: in_set_nthsD)
  then show ?thesis using k sub(2) unfolding r by (simp add: kernel_ok_def cast_ok_def pending_def f)
qed

lemma events_ok:
  assumes ok: "kernel_ok e" and id: "ids_left e"
  shows "kernel_ok (events norm e occ)"
proof -
  obtain e1 occ1 where s: "Spawner_step norm e occ = (e1, occ1)" by fastforce
  have e1: "kernel_ok e1" "e_dirQueue e1 = e_dirQueue e" "e_dirNew e1 = e_dirNew e" "unat (e_nextID e1) \<le> unat (e_nextID e) + length (pending e)"
    using Spawner_step_ok [OF ok, where norm = norm and occ = occ] id s by (simp_all add: ids_left_def)
  have "kernel_ok (dr_eng (stepDirectorSpawns norm e1 occ1))"
    by (rule directives_ok [OF e1(1)]) (use e1(2-4) id in \<open>simp add: ids_left_def\<close>)
  then show ?thesis
    using signal_phase.preserved [of "(dr_eng (stepDirectorSpawns norm e1 occ1), occ1)"] by (simp add: events_def s)
qed

section \<open>Runs of the kernel\<close>

text \<open>
  Between ticks a caller may enqueue intents, spawn directives and signal verbs; a tick is \<open>Step\<close>. A
  tick is taken while ids are left.
\<close>

inductive kernel_run :: "(stream \<Rightarrow> f64 \<times> stream) \<Rightarrow> Engine \<times> occupancy \<Rightarrow> Engine \<times> occupancy \<Rightarrow> bool" for norm s where
  start: "kernel_run norm s s"
| tick: "kernel_run norm s t \<Longrightarrow> ids_left (fst t) \<Longrightarrow> kernel_run norm s (Step norm t)"
| intent: "kernel_run norm s t \<Longrightarrow> kernel_run norm s (EnqueueIntent k (fst t), snd t)"
| spawn: "kernel_run norm s t \<Longrightarrow> EnqueueSpawn d (fst t) = Inr e \<Longrightarrow> kernel_run norm s (e, snd t)"
| verb: "kernel_run norm s t \<Longrightarrow> EnqueueSignal v (fst t) = Inr e \<Longrightarrow> kernel_run norm s (e, snd t)"

inductive_cases kernel_runE: "kernel_run norm s t"

lemma Step_ok:
  assumes ok: "kernel_ok (fst s)" and id: "ids_left (fst s)"
  shows "kernel_ok (fst (Step norm s))"
proof -
  let ?e = "step_routing (fst s)" and ?e1 = "clear_requests (step_routing (fst s))"
  have k: "keeps (fst s) ?e1" using keeps_trans [OF routing_keeps clear_keeps] .
  have "ids_left ?e1" using id k by (simp add: ids_left_def pending_def keeps_def)
  moreover have "kernel_ok ?e1"
    using routing_phase.preserved [OF ok] clear_phase.preserved [of "(?e, snd s)"] by simp
  ultimately have "kernel_ok (events norm ?e1 (snd s))" using events_ok by blast
  then have "kernel_ok (applyIntents (events norm ?e1 (snd s)))"
    using intent_phase.preserved [of "(events norm ?e1 (snd s), snd s)"] by simp
  then have "kernel_ok (sr_eng (settle (move (applyIntents (events norm ?e1 (snd s))))))"
    by (intro settled_ok move_ok)
  then have "kernel_ok ((sr_eng (settle (move (applyIntents (events norm ?e1 (snd s))))))\<lparr>e_crc := c\<rparr>)" for c
    by (rule keeps_ok) (simp add: keeps_def fits_def)
  then show ?thesis by (simp add: Step_def Let_def)
qed

lemma enqueue_intent_ok: "kernel_ok e \<Longrightarrow> kernel_ok (EnqueueIntent k e)"
  by (erule keeps_ok) (simp add: keeps_def fits_def EnqueueIntent_def)

lemma enqueue_spawn_ok:
  assumes e: "EnqueueSpawn d e = Inr e'" and ok: "kernel_ok e"
  shows "kernel_ok e'"
proof (rule EnqueueSpawn_Inr [OF e])
  fix lane ti
  assume l: "spawn_lane d (e_Net e) = Inr lane" and t: "find_index (\<lambda>t. vt_Name t = sd_TypeName d) (e_Types e) = Some ti"
    and e': "e' = e\<lparr>e_dirNew := e_dirNew e @ [\<lparr>ts_Tick = 0, ts_TypeIdx = ti, ts_LaneIdx = lane, ts_Dir = d\<rparr>]\<rparr>"
  have f: "fits e' = fits e" "directed e' = directed e" "pending e' = pending e"
    by (simp_all add: fun_eq_iff fits_def directed_def pending_def e')
  have "net_ok (e_Net e)" using ok by (simp add: kernel_ok_def cast_ok_def)
  then have "directed e \<lparr>ts_Tick = 0, ts_TypeIdx = ti, ts_LaneIdx = lane, ts_Dir = d\<rparr>"
    using spawn_lane_sound [OF l] t by (simp add: directed_def find_index_Some_iff)
  then show ?thesis using ok by (simp add: kernel_ok_def cast_ok_def f) (simp add: e')
qed

lemma enqueue_signal_ok: "EnqueueSignal v e = Inr e' \<Longrightarrow> kernel_ok e \<Longrightarrow> kernel_ok e'"
  by (erule EnqueueSignal_Inr, erule keeps_ok) (simp add: keeps_def fits_def)

lemma run_ok: "kernel_run norm s t \<Longrightarrow> kernel_ok (fst s) \<Longrightarrow> kernel_ok (fst t)"
  by (induction rule: kernel_run.induct) (auto intro: Step_ok enqueue_intent_ok enqueue_spawn_ok enqueue_signal_ok)

text \<open>
  C5: whatever is enqueued between the ticks, after any number of ticks the vehicles and the pending
  vehicles of the origins have distinct ids below the next id, every vehicle stands on a lane of the
  network and has a type of the scenario, and what waits in the director's queue refers to lanes and
  types that exist.
\<close>
theorem kernel_invariant:
  assumes "kernel_run norm s t" and "kernel_ok (fst s)"
  shows "kernel_ok (fst t)"
  using assms by (rule run_ok)

text \<open>An origin that spawns at tick 26, a directive for a garage exit at 60 m and an intent.\<close>

definition busy_engine :: Engine where
  "busy_engine = demo_engine\<lparr>e_nextID := 4, e_spawner := Some \<lparr>sp_target = 0, sp_sched = [], sp_next = 0,
     sp_origins = [\<lparr>o_lane = 0, o_rate = f64_lit 1 10, o_pendID = 3, o_pendRng = \<lparr>st_hi = 1, st_lo = 2, st_n = 0\<rparr>, o_tick = 26\<rparr>]\<rparr>\<rparr>"

definition garage :: SpawnDirective where
  "garage = \<lparr>sd_RequestID = ''g'', sd_Origin = ''a'', sd_TypeName = ''car'', sd_EarliestTick = 26, sd_Destination = [],
     sd_OffsetM = f64_lit 60 1\<rparr>"

definition garage_buffered :: Engine where
  "garage_buffered = busy_engine\<lparr>e_dirNew := [\<lparr>ts_Tick = 0, ts_TypeIdx = 0, ts_LaneIdx = 0, ts_Dir = garage\<rparr>]\<rparr>"

lemma garage_enqueued: "EnqueueSpawn garage busy_engine = Inr garage_buffered"
proof -
  have "spawn_lane garage (e_Net busy_engine) = Inr 0" by code_simp
  then show ?thesis
    by (simp add: EnqueueSpawn_def check_destination_def garage_buffered_def busy_engine_def garage_def demo_engine_def demo_type_def
        MaxRequestIDBytes_def)
qed

lemma kernel_invariant_witness:
  "kernel_ok (fst (Step (\<lambda>s. (0, s)) (garage_buffered, rebuildOccupancy busy_engine)))"
proof -
  let ?norm = "\<lambda>s :: stream. (0 :: f64, s)" and ?occ = "rebuildOccupancy busy_engine"
  have ok: "kernel_ok busy_engine"
    by (simp add: kernel_ok_def cast_ok_def linked_def laterals_def net_ok_def fits_def directed_def pending_def busy_engine_def
        demo_engine_def demo_net_def demo_lane_def demo_vehicle_def)
  have "kernel_run ?norm (busy_engine, ?occ) (garage_buffered, ?occ)"
    using kernel_run.spawn [OF kernel_run.start, of garage "(busy_engine, ?occ)"] garage_enqueued by simp
  then have "kernel_run ?norm (busy_engine, ?occ) (Step ?norm (garage_buffered, ?occ))"
    by (rule kernel_run.tick) (simp add: ids_left_def pending_def garage_buffered_def busy_engine_def demo_engine_def)
  from kernel_invariant [OF this] ok show ?thesis by simp
qed

end
