(* ===== verification/Actuated.thy ===== *)
theory Actuated
  imports SigFrame SigCtl IntentBus FloatMath
begin

text \<open>
  \<open>engine/natsio/sigctl/sigctl.go\<close>: the reference actuated signal controller, a client of the live
  plane. It reads the signal table and the snapshots, counts the vehicles at its detectors and
  issues \<open>signal_set\<close> verbs; the phase in force is predicted from its own commands. A verb is the
  directive the engine receives. The position of a vehicle is the float64 value of the wire's
  float32. The attach handshake, the connection and the JSON of a verb are left out; Go's \<open>nil\<close>
  slice of counts is the empty list.
\<close>

subsection \<open>Configuration\<close>

record Config =
  cf_CadenceTicks :: u64
  cf_HoldTicks :: u64
  cf_RenewBelow :: u64
  cf_MinGreenTicks :: u64
  cf_MaxChainTicks :: u64
  cf_DetectRadiusM :: f64
  cf_SwitchMinQueue :: int
  cf_MaxGreenOnCallTicks :: u64
  cf_Programs :: "string list"

definition or_default :: "'a :: zero \<Rightarrow> 'a \<Rightarrow> 'a" where "or_default d x = (if x = 0 then d else x)"

definition defaults :: "Config \<Rightarrow> Config" where
  "defaults c = c\<lparr>cf_CadenceTicks := or_default 20 (cf_CadenceTicks c), cf_HoldTicks := or_default 100 (cf_HoldTicks c),
     cf_RenewBelow := or_default 30 (cf_RenewBelow c), cf_MinGreenTicks := or_default 100 (cf_MinGreenTicks c),
     cf_DetectRadiusM := (if feq (cf_DetectRadiusM c) 0 then f64_lit 25 1 else cf_DetectRadiusM c),
     cf_SwitchMinQueue := or_default 1 (cf_SwitchMinQueue c),
     cf_MaxGreenOnCallTicks := or_default 200 (cf_MaxGreenOnCallTicks c)\<rparr>"

text \<open>The part of \<open>Attach\<close> that fixes the controller's copy of the starvation bound.\<close>

definition with_bound :: "f64 \<Rightarrow> Config \<Rightarrow> Config" where
  "with_bound meta_dt c =
     (let dt = (if fle meta_dt 0 then f64_lit 1 10 else meta_dt) in
      if cf_MaxChainTicks c = 0 then c\<lparr>cf_MaxChainTicks := max 1 (to_ticks SignalHoldMaxSeconds dt)\<rparr> else c)"

subsection \<open>Detectors\<close>

record Detector =
  dt_Link :: nat
  dt_X :: f64
  dt_Y :: f64
  dt_Dx :: f64
  dt_Dy :: f64
  dt_progID :: string

text \<open>What \<open>LoadGeom\<close> reads of a lane of the network file.\<close>

record GeomLane =
  gl_ID :: string
  gl_Shape :: "(f64 \<times> f64) list"
  gl_TL :: string
  gl_TLLink :: "nat option"

type_synonym Geom = "string \<Rightarrow> Detector option list"

definition f64_hypot :: "f64 \<Rightarrow> f64 \<Rightarrow> f64" where
  "f64_hypot p0 q0 =
     (if is_inf p0 \<or> is_inf q0 then 9218868437227405312
      else if is_nan p0 \<or> is_nan q0 then f64_nan
      else let a = f64_abs p0; b = f64_abs q0; p = (if flt a b then b else a); q = (if flt a b then a else b) in
        if feq p 0 then 0 else let r = fdiv q p in fmul p (f64_sqrt (fadd f64_one (fmul r r))))"

text \<open>The shapes of the file by lane id; a later lane of the same id wins.\<close>

definition geom_shape :: "GeomLane list \<Rightarrow> string \<Rightarrow> (f64 \<times> f64) list" where
  "geom_shape ls k = (case find_index (\<lambda>l. gl_ID l = k \<and> gl_Shape l \<noteq> []) (rev ls) of
     None \<Rightarrow> [] | Some i \<Rightarrow> gl_Shape (rev ls ! i))"

definition stop_line :: "nat \<Rightarrow> (f64 \<times> f64) list \<Rightarrow> Detector" where
  "stop_line link sh =
     (let dx = fsub (fst (sh ! 1)) (fst (sh ! 0)); dy = fsub (snd (sh ! 1)) (snd (sh ! 0)); n = f64_hypot dx dy in
      \<lparr>dt_Link = link, dt_X = fst (sh ! 0), dt_Y = snd (sh ! 0), dt_Dx = (if flt 0 n then fdiv dx n else dx),
       dt_Dy = (if flt 0 n then fdiv dy n else dy), dt_progID = []\<rparr>)"

definition add_detector :: "GeomLane list \<Rightarrow> Geom \<Rightarrow> GeomLane \<Rightarrow> Geom" where
  "add_detector ls g l =
     (case gl_TLLink l of
        None \<Rightarrow> g
      | Some k \<Rightarrow>
          let sh = geom_shape ls (gl_ID l); slots = g (gl_TL l);
              grown = slots @ replicate (Suc k - length slots) None in
          if gl_TL l = [] \<or> length sh < 2 then g
          else g(gl_TL l := grown[k := Some (stop_line k sh)]))"

definition LoadGeom :: "GeomLane list \<Rightarrow> Geom" where "LoadGeom ls = foldl (add_detector ls) (\<lambda>_. []) ls"

subsection \<open>The state of one program\<close>

record progState =
  ps_prog :: SigProgram
  ps_detectors :: "Detector option list"
  ps_candidates :: "int list"
  ps_green :: "nat list list"
  ps_myPhase :: int
  ps_phaseSince :: u64
  ps_holdUntil :: u64
  ps_chainStart :: u64
  ps_callSince :: u64
  ps_target :: int
  ps_seq :: nat
  ps_lastDecide :: u64

definition phaseElapsed :: "SigProgram \<Rightarrow> u64 \<Rightarrow> u64" where
  "phaseElapsed p tick =
     (let tks = map (\<lambda>ph. ucast (sph_DurationTicks ph) :: u64) (spr_Phases p); c = sum_list tks in
      if c = 0 then 0
      else case phase_walk tks 0 ((tick mod c + c - spr_OffsetTicks p mod c) mod c) of Some (_, x) \<Rightarrow> x | None \<Rightarrow> 0)"

definition estimated :: "progState \<Rightarrow> u64 \<Rightarrow> int \<times> u64" where
  "estimated ps tick =
     (if 0 \<le> ps_myPhase ps \<and> tick < ps_holdUntil ps then (ps_myPhase ps, ps_phaseSince ps)
      else let el = phaseElapsed (ps_prog ps) tick in
        (sf_PhaseAt (ps_prog ps) tick, if el < tick then tick - el else 0))"

definition green_links :: "string \<Rightarrow> nat list" where
  "green_links st = filter (\<lambda>i. st ! i = CHR ''g'' \<or> st ! i = CHR ''G'') [0..<length st]"

definition movement :: "SigPhase \<Rightarrow> bool" where
  "movement ph \<longleftrightarrow> green_links (sph_State ph) \<noteq> [] \<and> CHR ''y'' \<notin> set (sph_State ph)"

definition newProgState :: "SigProgram \<Rightarrow> Geom \<Rightarrow> progState option" where
  "newProgState p geom =
     (let idx = filter (\<lambda>i. movement (spr_Phases p ! i)) [0..<length (spr_Phases p)]; dets = geom (spr_ID p) in
      if length idx < 2 then None
      else if \<forall>d \<in> set dets. d = None then None
      else Some \<lparr>ps_prog = p, ps_detectors = dets, ps_candidates = map int idx,
        ps_green = map (\<lambda>i. green_links (sph_State (spr_Phases p ! i))) idx,
        ps_myPhase = - 1, ps_phaseSince = 0, ps_holdUntil = 0, ps_chainStart = 0, ps_callSince = 0, ps_target = - 1,
        ps_seq = 0, ps_lastDecide = 0\<rparr>)"

subsection \<open>The decision\<close>

type_synonym command = "(int \<times> u64) option"

definition nphases :: "progState \<Rightarrow> int" where "nphases ps = int (length (spr_Phases (ps_prog ps)))"

definition natural :: "progState \<Rightarrow> int \<Rightarrow> u64" where
  "natural ps i = ucast (sph_DurationTicks (spr_Phases (ps_prog ps) ! nat i))"

definition walkStep :: "Config \<Rightarrow> progState \<Rightarrow> int \<Rightarrow> int \<times> u64" where
  "walkStep c ps prev =
     (let nx = (prev + 1) mod nphases ps in (nx, if nx = ps_target ps then cf_HoldTicks c else natural ps nx))"

definition beginWalk :: "Config \<Rightarrow> progState \<Rightarrow> int \<Rightarrow> int \<Rightarrow> progState \<times> command" where
  "beginWalk c ps target enforced =
     (if target = enforced then (ps, Some (target, cf_HoldTicks c))
      else let ps1 = ps\<lparr>ps_target := target\<rparr> in (ps1, Some (walkStep c ps1 enforced)))"

definition greenOf :: "progState \<Rightarrow> int \<Rightarrow> nat list option" where
  "greenOf ps phase = map_of (zip (ps_candidates ps) (ps_green ps)) phase"

definition count_at :: "int list \<Rightarrow> nat \<Rightarrow> int" where "count_at cnt k = (if k < length cnt then cnt ! k else 0)"

text \<open>The links with a detector that sees somebody.\<close>

definition present :: "progState \<Rightarrow> int list \<Rightarrow> nat list" where
  "present ps cnt = filter (\<lambda>k. ps_detectors ps ! k \<noteq> None \<and> count_at cnt k \<noteq> 0) [0..<length (ps_detectors ps)]"

definition served_count :: "progState \<Rightarrow> int list \<Rightarrow> nat list \<Rightarrow> int" where
  "served_count ps cnt served = sum_list (map (count_at cnt) (filter (\<lambda>k. k \<in> set served) (present ps cnt)))"

fun best_call :: "int list \<Rightarrow> int \<Rightarrow> (int \<times> nat list) list \<Rightarrow> int \<times> int \<Rightarrow> int \<times> int" where
  "best_call cnt enforced [] best = best"
| "best_call cnt enforced ((cand, green) # rest) best =
     (let n = sum_list (map (count_at cnt) green) in
      best_call cnt enforced rest (if cand \<noteq> enforced \<and> snd best < n then (cand, n) else best))"

definition waiting_call :: "progState \<Rightarrow> int list \<Rightarrow> int \<Rightarrow> int \<times> int" where
  "waiting_call ps cnt enforced = best_call cnt enforced (zip (ps_candidates ps) (ps_green ps)) (- 1, 0)"

definition holding :: "progState \<Rightarrow> u64 \<Rightarrow> bool" where
  "holding ps tick \<longleftrightarrow> 0 \<le> ps_myPhase ps \<and> tick < ps_holdUntil ps"

definition can_extend :: "Config \<Rightarrow> progState \<Rightarrow> u64 \<Rightarrow> bool" where
  "can_extend c ps tick \<longleftrightarrow> holding ps tick \<and> tick + 1 < ps_chainStart ps + cf_MaxChainTicks c"

definition uncontested :: "Config \<Rightarrow> progState \<Rightarrow> u64 \<Rightarrow> int \<Rightarrow> command" where
  "uncontested c ps tick enforced =
     (if \<not> holding ps tick then Some (enforced, cf_HoldTicks c)
      else if cf_RenewBelow c \<le> ps_holdUntil ps - tick then None
      else if can_extend c ps tick then Some (enforced, cf_HoldTicks c) else None)"

definition contested :: "Config \<Rightarrow> progState \<Rightarrow> u64 \<Rightarrow> int \<Rightarrow> u64 \<Rightarrow> int \<Rightarrow> progState \<times> command" where
  "contested c ps tick enforced since best =
     (let railCapped = holding ps tick \<and> \<not> can_extend c ps tick in
      if tick < ps_callSince ps + cf_MaxGreenOnCallTicks c \<and> \<not> railCapped
      then (ps, if holding ps tick \<and> ps_holdUntil ps - tick < cf_RenewBelow c then Some (enforced, cf_HoldTicks c) else None)
      else if tick < since + cf_MinGreenTicks c then (ps, None)
      else if 0 \<le> best then beginWalk c ps best enforced else (ps, None))"

definition decide_free :: "Config \<Rightarrow> progState \<Rightarrow> int list \<Rightarrow> u64 \<Rightarrow> progState \<times> command" where
  "decide_free c ps cnt tick =
     (let (enforced, since) = estimated ps tick in
      case greenOf ps enforced of
        None \<Rightarrow> (ps, None)
      | Some served \<Rightarrow>
          if present ps cnt = [] then (ps\<lparr>ps_callSince := 0\<rparr>, None)
          else let n = served_count ps cnt served; (best, bestN) = waiting_call ps cnt enforced;
                   call = (cf_SwitchMinQueue c \<le> bestN);
                   ps1 = ps\<lparr>ps_callSince := (if call then (if ps_callSince ps = 0 then tick else ps_callSince ps) else 0)\<rparr> in
            if 0 < n \<and> \<not> call then (ps1, uncontested c ps1 tick enforced)
            else if 0 < n then contested c ps1 tick enforced since best
            else if call \<and> since + cf_MinGreenTicks c \<le> tick then beginWalk c ps1 best enforced
            else (ps1, None))"

definition decideProgram :: "Config \<Rightarrow> progState \<Rightarrow> int list \<Rightarrow> u64 \<Rightarrow> progState \<times> command" where
  "decideProgram c ps cnt tick =
     (if 0 \<le> ps_target ps then
        (if ps_myPhase ps = ps_target ps \<and> tick < ps_holdUntil ps then decide_free c (ps\<lparr>ps_target := - 1\<rparr>) cnt tick
         else if 0 \<le> ps_myPhase ps \<and> tick + 1 < ps_holdUntil ps then (ps, None)
         else (ps, Some (walkStep c ps (ps_myPhase ps))))
      else decide_free c ps cnt tick)"

subsection \<open>The controller\<close>

record verb =
  vb_RequestID :: string
  vb_Signal :: string
  vb_Phase :: int
  vb_HoldTicks :: u64

text \<open>\<open>ac_progs\<close> is the program map, \<open>ac_acc\<close> and \<open>ac_accN\<close> the open chunk generation.\<close>

record Controller =
  ac_cfg :: Config
  ac_ctlID :: string
  ac_geom :: Geom
  ac_progs :: "(string \<times> progState) list"
  ac_grid :: "int \<times> int \<Rightarrow> Detector list"
  ac_acc :: "SigProgram list"
  ac_accN :: int
  ac_ready :: bool
  ac_Takeovers :: nat
  ac_Switches :: nat
  ac_Renews :: nat
  ac_sent :: "verb list"

definition floor_int :: "f64 \<Rightarrow> int" where
  "floor_int x = (let t = f64_to_int x in if flt x (f64_lit t 1) then t - 1 else t)"

definition ceil_int :: "f64 \<Rightarrow> int" where
  "ceil_int x = (let t = f64_to_int x in if flt (f64_lit t 1) x then t + 1 else t)"

definition cell :: "f64 \<Rightarrow> f64 \<Rightarrow> int \<times> int" where
  "cell x y = (floor_int (fdiv x (f64_lit 50 1)), floor_int (fdiv y (f64_lit 50 1)))"

definition grid_add :: "string \<Rightarrow> (int \<times> int \<Rightarrow> Detector list) \<Rightarrow> Detector option \<Rightarrow> (int \<times> int \<Rightarrow> Detector list)" where
  "grid_add pid g d =
     (case d of None \<Rightarrow> g
      | Some d \<Rightarrow> let k = cell (dt_X d) (dt_Y d) in g(k := g k @ [d\<lparr>dt_progID := pid\<rparr>]))"

definition install_one :: "Controller \<Rightarrow> SigProgram \<Rightarrow> Controller" where
  "install_one c p =
     (if map_of (ac_progs c) (spr_ID p) \<noteq> None then c
      else if cf_Programs (ac_cfg c) \<noteq> [] \<and> spr_ID p \<notin> set (cf_Programs (ac_cfg c)) then c
      else case newProgState p (ac_geom c) of
          None \<Rightarrow> c
        | Some ps \<Rightarrow> c\<lparr>ac_progs := ac_progs c @ [(spr_ID p, ps)], ac_grid := foldl (grid_add (spr_ID p)) (ac_grid c) (ps_detectors ps)\<rparr>)"

definition installTable :: "SigProgram list \<Rightarrow> Controller \<Rightarrow> Controller" where
  "installTable progs c = (foldl install_one c progs)\<lparr>ac_ready := True\<rparr>"

text \<open>The \<open>sig_chunk\<close> header: absent, not of the form \<open>i/n\<close>, or its two numbers.\<close>

datatype chunk_header = No_header | Bad_header | Chunk int int

definition drop_generation :: "Controller \<Rightarrow> Controller" where "drop_generation c = c\<lparr>ac_acc := [], ac_accN := 0\<rparr>"

definition take_chunk :: "int \<Rightarrow> SigProgram list \<Rightarrow> Controller \<Rightarrow> Controller" where
  "take_chunk n progs c =
     (let c1 = c\<lparr>ac_acc := ac_acc c @ progs, ac_accN := ac_accN c + 1\<rparr> in
      if ac_accN c1 < n then c1 else drop_generation (installTable (ac_acc c1) c1))"

definition onSigTable :: "bytes \<Rightarrow> chunk_header \<Rightarrow> Controller \<Rightarrow> Controller" where
  "onSigTable data hdr c =
     (case ParseSignalFrame data of
        Inl _ \<Rightarrow> c
      | Inr f \<Rightarrow>
          (case hdr of
             No_header \<Rightarrow> installTable (sf_Programs f) c
           | Bad_header \<Rightarrow> drop_generation c
           | Chunk i n \<Rightarrow>
               if i = 1 \<and> n = 1 then installTable (sf_Programs f) c
               else if i < 1 \<or> n < i then drop_generation c
               else if i \<noteq> ac_accN c + 1 then (if i \<noteq> 1 then drop_generation c else take_chunk n (sf_Programs f) (drop_generation c))
               else take_chunk n (sf_Programs f) c))"

subsection \<open>Presence\<close>

record FrameVehicle =
  fv_ID :: u64
  fv_X :: f64
  fv_Y :: f64

definition in_zone :: "f64 \<Rightarrow> FrameVehicle \<Rightarrow> Detector \<Rightarrow> bool" where
  "in_zone radius v d =
     (let dx = fsub (fv_X v) (dt_X d); dy = fsub (fv_Y v) (dt_Y d) in
      \<not> flt (fmul radius radius) (fadd (fmul dx dx) (fmul dy dy)) \<and>
      \<not> flt (f64_lit 2 1) (fadd (fmul dx (dt_Dx d)) (fmul dy (dt_Dy d))))"

definition cells_around :: "int \<Rightarrow> int \<times> int \<Rightarrow> (int \<times> int) list" where
  "cells_around ext c = concat (map (\<lambda>dx. map (\<lambda>dy. (fst c + dx, snd c + dy)) [- ext..ext]) [- ext..ext])"

definition seen_by :: "Controller \<Rightarrow> FrameVehicle \<Rightarrow> Detector list" where
  "seen_by c v =
     (let r = cf_DetectRadiusM (ac_cfg c); ext = max 1 (ceil_int (fdiv r (f64_lit 50 1))) in
      filter (in_zone r v) (concat (map (ac_grid c) (cells_around ext (cell (fv_X v) (fv_Y v))))))"

definition mark :: "Controller \<Rightarrow> (string \<Rightarrow> int list) \<Rightarrow> Detector \<Rightarrow> (string \<Rightarrow> int list)" where
  "mark c cnt d =
     (case map_of (ac_progs c) (dt_progID d) of
        None \<Rightarrow> cnt
      | Some ps \<Rightarrow>
          let pr = (if cnt (dt_progID d) = [] then replicate (length (ps_detectors ps)) 0 else cnt (dt_progID d)) in
          cnt(dt_progID d := (if dt_Link d < length pr then pr[dt_Link d := pr ! dt_Link d + 1] else pr)))"

definition presenceCounts :: "Controller \<Rightarrow> FrameVehicle list \<Rightarrow> string \<Rightarrow> int list" where
  "presenceCounts c vs = foldl (mark c) (\<lambda>_. []) (concat (map (seen_by c) vs))"

subsection \<open>The control loop\<close>

definition dueNow :: "Config \<Rightarrow> progState \<Rightarrow> u64 \<Rightarrow> bool" where
  "dueNow c ps tick \<longleftrightarrow> 0 \<le> ps_target ps \<or> ps_lastDecide ps = 0 \<or> cf_CadenceTicks c \<le> tick - ps_lastDecide ps"

definition pad6 :: "string \<Rightarrow> string" where "pad6 s = replicate (6 - length s) (CHR ''0'') @ s"

definition requestID :: "string \<Rightarrow> progState \<Rightarrow> string" where
  "requestID ctl ps = ''sigctl-'' @ ctl @ ''-'' @ spr_ID (ps_prog ps) @ ''-'' @ pad6 (dec_string (ps_seq ps))"

text \<open>What a sent verb does to the tracking of its program; \<open>fresh\<close> is a hold that no longer covers.\<close>

definition fresh_hold :: "progState \<Rightarrow> u64 \<Rightarrow> bool" where "fresh_hold ps applied \<longleftrightarrow> ps_holdUntil ps < applied"

definition track :: "progState \<Rightarrow> int \<Rightarrow> u64 \<Rightarrow> u64 \<Rightarrow> progState" where
  "track ps phase hold tick =
     (let applied = tick + 1; new = (phase \<noteq> ps_myPhase ps \<or> fresh_hold ps applied) in
      ps\<lparr>ps_chainStart := (if new then applied else ps_chainStart ps), ps_phaseSince := (if new then applied else ps_phaseSince ps),
        ps_callSince := (if phase \<noteq> ps_myPhase ps then 0 else ps_callSince ps), ps_myPhase := phase,
        ps_holdUntil := applied + hold, ps_seq := Suc (ps_seq ps)\<rparr>)"

definition put_prog :: "string \<Rightarrow> progState \<Rightarrow> Controller \<Rightarrow> Controller" where
  "put_prog k ps c = c\<lparr>ac_progs := AList.update k ps (ac_progs c)\<rparr>"

definition send :: "string \<Rightarrow> progState \<Rightarrow> int \<Rightarrow> u64 \<Rightarrow> u64 \<Rightarrow> Controller \<Rightarrow> Controller" where
  "send k ps phase hold tick c =
     (let takeover = (ps_myPhase ps < 0 \<or> fresh_hold ps (tick + 1)); ps' = track ps phase hold tick in
      (put_prog k ps' c)\<lparr>ac_Takeovers := ac_Takeovers c + (if takeover then 1 else 0),
        ac_Switches := ac_Switches c + (if \<not> takeover \<and> phase \<noteq> ps_myPhase ps then 1 else 0),
        ac_Renews := ac_Renews c + (if \<not> takeover \<and> phase = ps_myPhase ps then 1 else 0),
        ac_sent := ac_sent c @ [\<lparr>vb_RequestID = requestID (ac_ctlID c) ps', vb_Signal = spr_ID (ps_prog ps), vb_Phase = phase,
          vb_HoldTicks = hold\<rparr>]\<rparr>)"

definition control_one :: "(string \<Rightarrow> int list) \<Rightarrow> u64 \<Rightarrow> Controller \<Rightarrow> string \<Rightarrow> Controller" where
  "control_one cnt tick c k =
     (case map_of (ac_progs c) k of
        None \<Rightarrow> c
      | Some ps \<Rightarrow>
          if \<not> dueNow (ac_cfg c) ps tick then c
          else (case decideProgram (ac_cfg c) (ps\<lparr>ps_lastDecide := tick\<rparr>) (cnt k) tick of
              (ps1, None) \<Rightarrow> put_prog k ps1 c
            | (ps1, Some (phase, hold)) \<Rightarrow> send k ps1 phase hold tick c))"

definition onSnapshot :: "FrameVehicle list \<Rightarrow> u64 \<Rightarrow> Controller \<Rightarrow> Controller" where
  "onSnapshot vs tick c =
     (if ac_progs c = [] then c
      else foldl (control_one (presenceCounts c vs) tick) c (stable_sort (<) (map fst (ac_progs c))))"

end
