(* ===== verification/ActuatedClaims.thy ===== *)
theory ActuatedClaims
  imports Actuated
begin

text \<open>
  What the actuated controller promises: its prediction of the kernel's override history, which
  phases it commands and when, and how it takes over a chunked signal table.
\<close>

section \<open>The commands of a decision\<close>

lemma estimated_holding: "holding ps tick \<Longrightarrow> estimated ps tick = (ps_myPhase ps, ps_phaseSince ps)"
  by (simp add: estimated_def holding_def)

text \<open>The fields a decision leaves alone.\<close>

definition same_track :: "progState \<Rightarrow> progState \<Rightarrow> bool" where
  "same_track ps ps' \<longleftrightarrow> ps_myPhase ps' = ps_myPhase ps \<and> ps_phaseSince ps' = ps_phaseSince ps \<and>
     ps_holdUntil ps' = ps_holdUntil ps \<and> ps_chainStart ps' = ps_chainStart ps \<and> ps_prog ps' = ps_prog ps \<and>
     ps_candidates ps' = ps_candidates ps"

lemma same_track_holding: "same_track ps ps' \<Longrightarrow> holding ps' tick = holding ps tick \<and> can_extend c ps' tick = can_extend c ps tick"
  by (simp add: same_track_def holding_def can_extend_def)

definition renewal :: "Config \<Rightarrow> progState \<Rightarrow> u64 \<Rightarrow> int \<times> u64 \<Rightarrow> bool" where
  "renewal c ps tick cmd \<longleftrightarrow> cmd = (fst (estimated ps tick), cf_HoldTicks c) \<and> fst (estimated ps tick) \<in> set (ps_candidates ps) \<and>
     (holding ps tick \<longrightarrow> can_extend c ps tick)"

definition switch :: "Config \<Rightarrow> progState \<Rightarrow> progState \<Rightarrow> u64 \<Rightarrow> int \<times> u64 \<Rightarrow> bool" where
  "switch c ps ps' tick cmd \<longleftrightarrow>
     cmd = walkStep c ps' (fst (estimated ps tick)) \<and> fst (estimated ps tick) \<in> set (ps_candidates ps) \<and>
     snd (estimated ps tick) + cf_MinGreenTicks c \<le> tick \<and> ps_target ps' \<noteq> fst (estimated ps tick) \<and> same_track ps ps'"

lemma greenOf_candidate: "greenOf ps p = Some g \<Longrightarrow> p \<in> set (ps_candidates ps)"
  by (auto simp: greenOf_def dest: map_of_SomeD set_zip_leftD)

lemma best_call_other: "fst best \<noteq> enforced \<Longrightarrow> fst (best_call cnt enforced cs best) \<noteq> enforced"
  by (induction cnt enforced cs best rule: best_call.induct) (auto simp: Let_def)

text \<open>
  Why a movement phase is left: another candidate has a queue that reaches the threshold, and none
  has a longer one; and the phase in force serves nobody, or the call has waited the maximum green, or
  the hold cannot be extended.
\<close>

definition queue_of :: "int list \<Rightarrow> nat list \<Rightarrow> int" where "queue_of cnt green = sum_list (map (count_at cnt) green)"

definition called :: "Config \<Rightarrow> progState \<Rightarrow> int list \<Rightarrow> int \<Rightarrow> int \<Rightarrow> bool" where
  "called c ps cnt enforced target \<longleftrightarrow> target \<noteq> enforced \<and>
     (\<exists>green. (target, green) \<in> set (zip (ps_candidates ps) (ps_green ps)) \<and> cf_SwitchMinQueue c \<le> queue_of cnt green \<and>
       (\<forall>p g. (p, g) \<in> set (zip (ps_candidates ps) (ps_green ps)) \<longrightarrow> p \<noteq> enforced \<longrightarrow> queue_of cnt g \<le> queue_of cnt green))"

definition call_start :: "progState \<Rightarrow> u64 \<Rightarrow> u64" where
  "call_start ps tick = (if ps_callSince ps = 0 then tick else ps_callSince ps)"

definition leaves :: "Config \<Rightarrow> progState \<Rightarrow> int list \<Rightarrow> int \<Rightarrow> u64 \<Rightarrow> bool" where
  "leaves c ps cnt enforced tick \<longleftrightarrow>
     (\<exists>served. greenOf ps enforced = Some served \<and> \<not> 0 < served_count ps cnt served) \<or>
     call_start ps tick + cf_MaxGreenOnCallTicks c \<le> tick \<or> (holding ps tick \<and> \<not> can_extend c ps tick)"

lemma best_call_max:
  "(best_call cnt enforced cs best = best \<or>
     (\<exists>p g. best_call cnt enforced cs best = (p, queue_of cnt g) \<and> (p, g) \<in> set cs \<and> p \<noteq> enforced)) \<and>
   snd best \<le> snd (best_call cnt enforced cs best) \<and>
   (\<forall>p g. (p, g) \<in> set cs \<longrightarrow> p \<noteq> enforced \<longrightarrow> queue_of cnt g \<le> snd (best_call cnt enforced cs best))"
proof (induction cnt enforced cs best rule: best_call.induct)
  case (2 cnt enforced cand green rest best)
  show ?case
    using 2 [OF refl] unfolding best_call.simps(2) Let_def queue_of_def [symmetric]
    by (cases "cand \<noteq> enforced \<and> snd best < queue_of cnt green") (fastforce simp: not_less)+
qed simp

lemma waiting_called:
  assumes "waiting_call ps cnt enforced = (best, n)" and "cf_SwitchMinQueue c \<le> n" and "1 \<le> cf_SwitchMinQueue c"
  shows "called c ps cnt enforced best"
proof -
  note k = best_call_max [of cnt enforced "zip (ps_candidates ps) (ps_green ps)" "(- 1, 0)", folded waiting_call_def]
  have "waiting_call ps cnt enforced \<noteq> (- 1, 0)" using assms by auto
  then obtain g where "n = queue_of cnt g" "(best, g) \<in> set (zip (ps_candidates ps) (ps_green ps))" "best \<noteq> enforced"
    using k assms(1) by auto
  then show ?thesis using k assms(1,2) unfolding called_def by auto
qed

lemma decide_free_cases:
  assumes "decide_free c ps cnt tick = (ps', Some cmd)" and e: "0 \<le> fst (estimated ps tick)"
  shows "same_track ps ps' \<and> (renewal c ps tick cmd \<and> ps_target ps' = ps_target ps \<or>
    switch c ps ps' tick cmd \<and> leaves c ps cnt (fst (estimated ps tick)) tick \<and>
      (1 \<le> cf_SwitchMinQueue c \<longrightarrow> called c ps cnt (fst (estimated ps tick)) (ps_target ps')))"
proof -
  obtain enf since where es: "estimated ps tick = (enf, since)" by fastforce
  obtain served where g: "greenOf ps enf = Some served"
    using assms(1) es by (auto simp: decide_free_def split: option.splits)
  have p: "present ps cnt \<noteq> []" using assms(1) es g by (auto simp: decide_free_def)
  obtain best n where w: "waiting_call ps cnt enf = (best, n)" by fastforce
  have other: "best \<noteq> enf" using best_call_other [of "(- 1, 0)" enf cnt "zip (ps_candidates ps) (ps_green ps)"] w e es
    by (simp add: waiting_call_def)
  define call where "call = (cf_SwitchMinQueue c \<le> n)"
  define ps1 where "ps1 = ps\<lparr>ps_callSince := (if call then (if ps_callSince ps = 0 then tick else ps_callSince ps) else 0)\<rparr>"
  have s1: "same_track ps ps1" "ps_target ps1 = ps_target ps" by (simp_all add: ps1_def same_track_def)
  have d: "decide_free c ps cnt tick =
      (if 0 < served_count ps cnt served \<and> \<not> call then (ps1, uncontested c ps1 tick enf)
       else if 0 < served_count ps cnt served then contested c ps1 tick enf since best
       else if call \<and> since + cf_MinGreenTicks c \<le> tick then beginWalk c ps1 best enf else (ps1, None))"
    using es g p w by (simp add: decide_free_def call_def ps1_def Let_def)
  have cand: "enf \<in> set (ps_candidates ps)" using greenOf_candidate [OF g] .
  have walk: "same_track ps ps' \<and> switch c ps ps' tick cmd \<and> ps_target ps' = best"
    if "beginWalk c ps1 best enf = (ps', Some cmd)" "since + cf_MinGreenTicks c \<le> tick"
    using that other s1 cand es by (auto simp: beginWalk_def switch_def same_track_def Let_def)
  have un: "renewal c ps tick cmd" if "uncontested c ps1 tick enf = Some cmd"
    using that same_track_holding [OF s1(1)] es cand by (auto simp: uncontested_def renewal_def split: if_splits)
  have con: "same_track ps ps' \<and> (renewal c ps tick cmd \<and> ps_target ps' = ps_target ps \<or>
      switch c ps ps' tick cmd \<and> ps_target ps' = best \<and> leaves c ps cnt enf tick)"
    if "contested c ps1 tick enf since best = (ps', Some cmd)" call
  proof -
    have start: "ps_callSince ps1 = call_start ps tick" using that(2) by (simp add: ps1_def call_start_def)
    show ?thesis
      using that same_track_holding [OF s1(1)] es cand s1 walk start
      by (auto simp: contested_def renewal_def leaves_def Let_def not_less split: if_splits)
  qed
  have who: "1 \<le> cf_SwitchMinQueue c \<longrightarrow> called c ps cnt enf best" if call
    using waiting_called [OF w] that by (simp add: call_def)
  have idle: "leaves c ps cnt enf tick" if "\<not> 0 < served_count ps cnt served" using g that by (auto simp: leaves_def)
  consider (alone) "0 < served_count ps cnt served" "\<not> call" | (both) "0 < served_count ps cnt served" call
    | (none) "\<not> 0 < served_count ps cnt served" by blast
  then show ?thesis
  proof cases
    case alone
    then show ?thesis using assms(1) un s1 unfolding d by auto
  next
    case both
    then show ?thesis using assms(1) con who es unfolding d by auto
  next
    case none
    then show ?thesis using assms(1) walk who idle es unfolding d by (auto split: if_splits)
  qed
qed

section \<open>The prediction refines the override history\<close>

text \<open>
  The newest entry of the program's history in the kernel, as the controller's tracking predicts it
  for a verb that applies at \<open>now\<close>: phase and chain start agree, and the entry ends where the tracking
  says, cut at the bound of the chain. A history the sweep has emptied ended before \<open>now\<close>.
\<close>

definition until_of :: "u64 \<Rightarrow> progState \<Rightarrow> u64" where
  "until_of b ps = min (ps_holdUntil ps) (ps_chainStart ps + b)"

definition tracks :: "u64 \<Rightarrow> progState \<Rightarrow> sigOverride list \<Rightarrow> bool" where
  "tracks b ps h \<longleftrightarrow> h \<noteq> [] \<and> ov_phase (last h) = ps_myPhase ps \<and> ov_chainStart (last h) = ps_chainStart ps \<and>
     ov_until (last h) = until_of b ps"

definition matches :: "u64 \<Rightarrow> u64 \<Rightarrow> progState \<Rightarrow> sigOverride list \<Rightarrow> bool" where
  "matches b now ps h \<longleftrightarrow>
     (if h = [] then ps_myPhase ps < 0 \<or> until_of b ps < now else tracks b ps h) "

text \<open>A program the controller can actuate; the phase it commanded last is one of its phases.\<close>

definition actuable :: "progState \<Rightarrow> bool" where
  "actuable ps \<longleftrightarrow> 2 \<le> nphases ps \<and> ps_myPhase ps < nphases ps \<and> list_all (\<lambda>i. 0 \<le> i \<and> i < nphases ps) (ps_candidates ps)"

lemma next_phase_differs: "2 \<le> (n :: int) \<Longrightarrow> 0 \<le> p \<Longrightarrow> p < n \<Longrightarrow> (p + 1) mod n \<noteq> p"
  by (cases "p + 1 = n") simp_all

lemma phase_walk_nonneg: "phase_walk tks i x = Some (k, y) \<Longrightarrow> 0 \<le> k"
  by (induction tks i x rule: phase_walk.induct) (auto split: if_splits)

lemma estimated_nonneg: "2 \<le> nphases ps \<Longrightarrow> 0 \<le> fst (estimated ps tick)"
  using phase_walk_nonneg by (auto simp: estimated_def sf_PhaseAt_def nphases_def Let_def split: option.split)

text \<open>Which commands repeat the phase of a hold that still covers the next boundary.\<close>

lemma command_cases:
  assumes d: "decideProgram c ps cnt tick = (ps', Some (phase, hold))" and ok: "actuable ps" and t: "unat tick + 1 < 18446744073709551616"
  shows "same_track ps ps' \<and> 0 \<le> phase \<and> (phase = ps_myPhase ps \<and> 0 \<le> ps_myPhase ps \<and> tick + 1 \<le> ps_holdUntil ps \<longrightarrow>
    tick + 1 < ps_chainStart ps + cf_MaxChainTicks c)"
proof -
  have pos: "0 < nphases ps" using ok by (simp add: actuable_def)
  have tick1: "tick < tick + 1" "unat (tick + 1) = unat tick + 1"
    using t u64_add_no_wrap [of tick 1] by (simp_all add: word_less_nat_alt)
  have free: "same_track ps ps' \<and> 0 \<le> phase \<and> (phase = ps_myPhase ps \<and> 0 \<le> ps_myPhase ps \<and> tick + 1 \<le> ps_holdUntil ps \<longrightarrow>
      tick + 1 < ps_chainStart ps + cf_MaxChainTicks c)"
    if f: "decide_free c q cnt tick = (ps', Some (phase, hold))" and q: "same_track ps q" for q
  proof -
    have e: "0 \<le> fst (estimated q tick)" by (rule estimated_nonneg) (use ok q in \<open>simp add: actuable_def nphases_def same_track_def\<close>)
    have k: "same_track q ps' \<and> (renewal c q tick (phase, hold) \<and> ps_target ps' = ps_target q \<or> switch c q ps' tick (phase, hold))"
      using decide_free_cases [OF f e] by blast
    have h: "holding ps tick \<longleftrightarrow> holding q tick" "can_extend c ps tick \<longleftrightarrow> can_extend c q tick"
      using same_track_holding [OF q] by blast+
    have "can_extend c ps tick" if "phase = ps_myPhase ps" "0 \<le> ps_myPhase ps" "tick + 1 \<le> ps_holdUntil ps"
    proof -
      have hold: "holding q tick" using that tick1(1) h by (auto simp: holding_def intro: less_le_trans)
      then have est: "fst (estimated q tick) = ps_myPhase ps" using estimated_holding q by (simp add: same_track_def)
      have "\<not> switch c q ps' tick (phase, hold)"
        using that(1) est ok next_phase_differs [of "nphases ps" "ps_myPhase ps"] that(2) q
        by (auto simp: switch_def walkStep_def actuable_def nphases_def same_track_def Let_def)
      then show ?thesis using k hold h by (auto simp: renewal_def)
    qed
    moreover have "same_track ps ps'" using k q by (simp add: same_track_def)
    moreover have "0 \<le> phase"
      using k e pos q by (auto simp: renewal_def switch_def walkStep_def nphases_def same_track_def Let_def)
    ultimately show ?thesis by (auto simp: can_extend_def)
  qed
  show ?thesis
  proof (cases "0 \<le> ps_target ps \<and> \<not> (ps_myPhase ps = ps_target ps \<and> tick < ps_holdUntil ps)")
    case True
    then have "(phase, hold) = walkStep c ps (ps_myPhase ps)" "ps' = ps"
      using d by (auto simp: decideProgram_def split: if_splits)
    then have "phase \<noteq> ps_myPhase ps" if "0 \<le> ps_myPhase ps"
      using next_phase_differs [of "nphases ps" "ps_myPhase ps"] ok that by (auto simp: walkStep_def actuable_def Let_def)
    moreover have "0 \<le> phase" using \<open>(phase, hold) = _\<close> pos by (simp add: walkStep_def Let_def)
    ultimately show ?thesis using \<open>ps' = ps\<close> by (auto simp: same_track_def)
  next
    case False
    then consider "decide_free c (ps\<lparr>ps_target := - 1\<rparr>) cnt tick = (ps', Some (phase, hold))"
      | "decide_free c ps cnt tick = (ps', Some (phase, hold))" using d by (auto simp: decideProgram_def split: if_splits)
    then show ?thesis
    proof cases
      case 1
      show ?thesis by (rule free [OF 1]) (simp add: same_track_def)
    next
      case 2
      show ?thesis by (rule free [OF 2]) (simp add: same_track_def)
    qed
  qed
qed

lemma tracked_core:
  assumes d: "decideProgram c ps cnt tick = (ps', Some (phase, hold))" and ok: "actuable ps"
    and m: "matches (cf_MaxChainTicks c) (tick + 1) ps h"
    and cs: "ps_chainStart ps \<le> tick" and room: "unat tick + 1 + unat (cf_MaxChainTicks c) + unat hold < 18446744073709551616"
    and pos: "0 < hold" "0 < cf_MaxChainTicks c" and dir: "sg_Phase r = phase" "sg_HoldTicks r = hold"
  shows "tick + 1 < ov_until (hold_entry (tick + 1) r (cf_MaxChainTicks c) h) \<and>
    tracks (cf_MaxChainTicks c) (track ps' phase hold tick) (applied_hist (tick + 1) r (cf_MaxChainTicks c) h)"
proof -
  let ?b = "cf_MaxChainTicks c" and ?now = "tick + 1"
  have now: "unat ?now = unat tick + 1" using room u64_add_no_wrap [of tick 1] by simp
  have sums: "unat (?now + hold) = unat ?now + unat hold" "unat (?now + ?b) = unat ?now + unat ?b"
    "unat (ps_chainStart ps + ?b) = unat (ps_chainStart ps) + unat ?b"
    using room now cs by (simp_all add: u64_add_no_wrap word_le_nat_alt)
  have same: "same_track ps ps'" and phase0: "0 \<le> phase"
    and ext: "phase = ps_myPhase ps \<Longrightarrow> 0 \<le> ps_myPhase ps \<Longrightarrow> ?now \<le> ps_holdUntil ps \<Longrightarrow> ?now < ps_chainStart ps + ?b"
    using command_cases [OF d ok] room by auto
  define cs' where "cs' = (if phase \<noteq> ps_myPhase ps \<or> fresh_hold ps ?now then ?now else ps_chainStart ps)"
  have chain: "chain_start ?now phase h = cs'"
  proof (cases "phase \<noteq> ps_myPhase ps \<or> fresh_hold ps ?now")
    case True
    then show ?thesis
      using m by (auto simp: cs'_def chain_start_def matches_def tracks_def until_of_def fresh_hold_def not_le[symmetric] min_le_iff_disj)
  next
    case False
    then have c: "?now \<le> ps_holdUntil ps" "?now < ps_chainStart ps + ?b" using ext phase0 by (auto simp: fresh_hold_def)
    then have "?now \<le> until_of ?b ps" by (simp add: until_of_def)
    then have "tracks ?b ps h" using m False phase0 by (auto simp: matches_def split: if_splits)
    then show ?thesis using False \<open>?now \<le> until_of ?b ps\<close> by (simp add: cs'_def chain_start_def tracks_def)
  qed
  have end': "hold_end ?now hold cs' ?b = min (?now + hold) (cs' + ?b)"
    by (auto simp: hold_end_def min_def)
  have "?now < ?now + hold" "?now < ?now + ?b" using sums pos by (simp_all add: word_less_nat_alt)
  moreover have "?now < cs' + ?b" if "cs' \<noteq> ?now"
    using that ext phase0 by (auto simp: cs'_def fresh_hold_def split: if_splits)
  ultimately have gov: "?now < min (?now + hold) (cs' + ?b)" by (cases "cs' = ?now") simp_all
  have entry: "hold_entry ?now r ?b h = \<lparr>ov_phase = phase, ov_since = ?now, ov_until = min (?now + hold) (cs' + ?b),
      ov_chainStart = cs', ov_requestID = sg_RequestID r\<rparr>"
    using chain end' dir by (simp add: hold_entry_def Let_def)
  have "ps_chainStart (track ps' phase hold tick) = cs'" "ps_holdUntil (track ps' phase hold tick) = ?now + hold"
    "ps_myPhase (track ps' phase hold tick) = phase"
    using same by (simp_all add: track_def same_track_def cs'_def fresh_hold_def Let_def)
  then show ?thesis using gov entry by (simp add: tracks_def applied_hist_def until_of_def Let_def)
qed

text \<open>
  C28: the controller's prediction refines the kernel. Let a verb be decided at \<open>tick\<close> and applied at
  the next boundary, by a controller whose copy of the chain bound is the kernel's and whose tracking
  matches the kernel's history of the program. The kernel does not decline it, the new entry governs
  at least one tick, and the tracking after the send matches the new history: same phase, same start
  of the chain, same end up to the cut at the bound of the chain.
\<close>
theorem actuation_tracked:
  assumes "decideProgram c ps cnt tick = (ps', Some (phase, hold))" and "actuable ps"
    and "matches (cf_MaxChainTicks c) (tick + 1) ps h" and "ps_chainStart ps \<le> tick"
    and "unat tick + 1 + unat (cf_MaxChainTicks c) + unat hold < 18446744073709551616"
    and "0 < hold" and "0 < cf_MaxChainTicks c" and "sg_Phase r = phase" and "sg_HoldTicks r = hold"
  shows "tick + 1 < ov_until (hold_entry (tick + 1) r (cf_MaxChainTicks c) h) \<and>
    matches (cf_MaxChainTicks c) (tick + 2) (track ps' phase hold tick) (applied_hist (tick + 1) r (cf_MaxChainTicks c) h)"
proof -
  note k = tracked_core [OF assms(1-7) assms(8,9)]
  then have "applied_hist (tick + 1) r (cf_MaxChainTicks c) h \<noteq> []" by (simp add: tracks_def)
  then show ?thesis using k by (simp add: matches_def)
qed

text \<open>
  C29: a switch is never a jump in the table, and never made for nobody. With a queue threshold of at
  least one, every command is one of three: the movement phase the controller believes in force, for
  the configured hold; the phase after it in table order, the first step of a walk, once the controller
  has seen it in force for the minimum green and for a target that is another movement phase with a
  queue that reaches the threshold and that no other exceeds, while the phase it believes in force
  serves nobody, or the call has waited the maximum green, or the hold cannot be extended; or, during a
  walk, the phase after the one commanded last, when the running step does not cover the next boundary.
  A phase on the way to the target is commanded at its natural duration.
\<close>
theorem actuation_no_jump:
  assumes "decideProgram c ps cnt tick = (ps', Some (phase, hold))" and "2 \<le> nphases ps" and "1 \<le> cf_SwitchMinQueue c"
  shows "(phase = fst (estimated ps tick) \<and> phase \<in> set (ps_candidates ps) \<and> hold = cf_HoldTicks c) \<or>
    (phase = (fst (estimated ps tick) + 1) mod nphases ps \<and> snd (estimated ps tick) + cf_MinGreenTicks c \<le> tick \<and>
     fst (estimated ps tick) \<in> set (ps_candidates ps) \<and> hold = (if phase = ps_target ps' then cf_HoldTicks c else natural ps phase) \<and>
     called c ps cnt (fst (estimated ps tick)) (ps_target ps') \<and> leaves c ps cnt (fst (estimated ps tick)) tick) \<or>
    (0 \<le> ps_target ps \<and> phase = (ps_myPhase ps + 1) mod nphases ps \<and> (ps_myPhase ps < 0 \<or> ps_holdUntil ps \<le> tick + 1) \<and>
     hold = (if phase = ps_target ps then cf_HoldTicks c else natural ps phase))"
proof -
  have free: "?thesis" if f: "decide_free c q cnt tick = (ps', Some (phase, hold))"
    and q: "same_track ps q" "estimated q tick = estimated ps tick"
      "\<And>p t. called c q cnt p t = called c ps cnt p t" "\<And>p. leaves c q cnt p tick = leaves c ps cnt p tick" for q
  proof -
    let ?e = "estimated ps tick"
    have n: "nphases q = nphases ps" "ps_candidates q = ps_candidates ps"
      using q(1) by (simp_all add: nphases_def same_track_def)
    have at: "renewal c q tick (phase, hold) \<or>
        switch c q ps' tick (phase, hold) \<and> leaves c ps cnt (fst ?e) tick \<and> called c ps cnt (fst ?e) (ps_target ps')"
      using decide_free_cases [OF f estimated_nonneg] assms(2,3) unfolding n(1) q(2-4) by blast
    have s: "phase = (fst ?e + 1) mod nphases ps" "hold = (if phase = ps_target ps' then cf_HoldTicks c else natural ps phase)"
      if "switch c q ps' tick (phase, hold)"
    proof -
      have "(phase, hold) = walkStep c ps' (fst ?e)" "same_track q ps'" using that q(2) by (simp_all add: switch_def)
      moreover from this(2) have "nphases ps' = nphases ps" "natural ps' = natural ps"
        using q(1) by (simp_all add: fun_eq_iff nphases_def natural_def same_track_def)
      ultimately show "phase = (fst ?e + 1) mod nphases ps" "hold = (if phase = ps_target ps' then cf_HoldTicks c else natural ps phase)"
        by (simp_all add: walkStep_def Let_def)
    qed
    from at show ?thesis
    proof
      assume "renewal c q tick (phase, hold)"
      then show ?thesis using n(2) q(2) by (simp add: renewal_def)
    next
      assume k: "switch c q ps' tick (phase, hold) \<and> leaves c ps cnt (fst ?e) tick \<and> called c ps cnt (fst ?e) (ps_target ps')"
      then have "snd ?e + cf_MinGreenTicks c \<le> tick \<and> fst ?e \<in> set (ps_candidates ps)"
        using n(2) q(2) by (simp add: switch_def)
      then show ?thesis using k s by blast
    qed
  qed
  show ?thesis
  proof (cases "0 \<le> ps_target ps \<and> \<not> (ps_myPhase ps = ps_target ps \<and> tick < ps_holdUntil ps)")
    case True
    then have "(phase, hold) = walkStep c ps (ps_myPhase ps) \<and> (ps_myPhase ps < 0 \<or> ps_holdUntil ps \<le> tick + 1)"
      using assms(1) by (auto simp: decideProgram_def not_less split: if_splits)
    then show ?thesis using True by (simp add: walkStep_def Let_def)
  next
    case False
    let ?q = "ps\<lparr>ps_target := - 1\<rparr>"
    have e: "same_track ps ?q" "estimated ?q tick = estimated ps tick"
      "called c ?q cnt p t = called c ps cnt p t" "leaves c ?q cnt p tick = leaves c ps cnt p tick" for p t
      by (simp_all add: same_track_def estimated_def called_def leaves_def greenOf_def served_count_def present_def
          call_start_def holding_def can_extend_def)
    from False consider (arrived) "decide_free c ?q cnt tick = (ps', Some (phase, hold))"
      | (plain) "decide_free c ps cnt tick = (ps', Some (phase, hold))" using assms(1) by (auto simp: decideProgram_def split: if_splits)
    then show ?thesis
    proof cases
      case arrived
      show ?thesis by (rule free [OF arrived e])
    next
      case plain
      show ?thesis by (rule free [OF plain]) (simp_all add: same_track_def)
    qed
  qed
qed

section \<open>Assembly of the signal table\<close>

definition feed :: "int \<Rightarrow> Controller \<Rightarrow> bytes \<times> int \<Rightarrow> Controller" where
  "feed n c x = onSigTable (fst x) (Chunk (snd x) n) c"

lemma install_acc: "installTable ps (c\<lparr>ac_acc := x, ac_accN := y\<rparr>) = (installTable ps c)\<lparr>ac_acc := x, ac_accN := y\<rparr>"
proof -
  have one: "install_one (c\<lparr>ac_acc := x, ac_accN := y\<rparr>) p = (install_one c p)\<lparr>ac_acc := x, ac_accN := y\<rparr>" for c p
    by (simp add: install_one_def split: option.split)
  have "foldl install_one (c\<lparr>ac_acc := x, ac_accN := y\<rparr>) ps = (foldl install_one c ps)\<lparr>ac_acc := x, ac_accN := y\<rparr>"
    by (induction ps arbitrary: c) (simp_all add: one)
  then show ?thesis by (simp add: installTable_def)
qed

lemma feed_rest:
  "list_all2 (\<lambda>d ps. ParseSignalFrame d = Inr \<lparr>sf_Tick = t, sf_Programs = ps\<rparr>) ds pss \<Longrightarrow> ds \<noteq> [] \<Longrightarrow>
   0 < ac_accN c \<Longrightarrow> ac_accN c + int (length ds) = n \<Longrightarrow>
   foldl (feed n) c (zip ds [ac_accN c + 1..n]) = (installTable (ac_acc c @ concat pss) c)\<lparr>ac_acc := [], ac_accN := 0\<rparr>"
proof (induction ds arbitrary: pss c)
  case (Cons d ds)
  obtain ps pss' where p: "pss = ps # pss'" "ParseSignalFrame d = Inr \<lparr>sf_Tick = t, sf_Programs = ps\<rparr>"
    "list_all2 (\<lambda>d ps. ParseSignalFrame d = Inr \<lparr>sf_Tick = t, sf_Programs = ps\<rparr>) ds pss'"
    using Cons.prems(1) by (auto simp: list_all2_Cons1)
  let ?c1 = "c\<lparr>ac_acc := ac_acc c @ ps, ac_accN := ac_accN c + 1\<rparr>"
  have up: "[ac_accN c + 1..n] = (ac_accN c + 1) # [ac_accN c + 2..n]"
    using Cons.prems(4) upto_rec1 [of "ac_accN c + 1" n] by (simp add: add.commute)
  have step: "feed n c (d, ac_accN c + 1) = take_chunk n ps c"
    using p(2) Cons.prems(3,4) by (simp add: feed_def onSigTable_def)
  show ?case
  proof (cases "ds = []")
    case True
    then show ?thesis
      using p Cons.prems step up by (simp add: take_chunk_def drop_generation_def install_acc)
  next
    case False
    then have "take_chunk n ps c = ?c1" using Cons.prems(4) by (cases ds) (simp_all add: take_chunk_def)
    moreover have "foldl (feed n) ?c1 (zip ds [ac_accN ?c1 + 1..n]) =
        (installTable (ac_acc ?c1 @ concat pss') ?c1)\<lparr>ac_acc := [], ac_accN := 0\<rparr>"
      by (rule Cons.IH [OF p(3) False]) (use Cons.prems in simp_all)
    ultimately show ?thesis using up step p(1) by (simp add: install_acc add.commute)
  qed
qed simp

text \<open>The open generation: nothing is accumulated before its first chunk.\<close>

definition generation_ok :: "Controller \<Rightarrow> bool" where
  "generation_ok c \<longleftrightarrow> 0 \<le> ac_accN c \<and> (ac_accN c = 0 \<longrightarrow> ac_acc c = [])"

lemma install_generation [simp]: "ac_accN (installTable ps c) = ac_accN c" "ac_acc (installTable ps c) = ac_acc c"
proof -
  have "ac_accN (foldl install_one c ps) = ac_accN c \<and> ac_acc (foldl install_one c ps) = ac_acc c"
    by (induction ps arbitrary: c) (simp_all add: install_one_def split: option.split)
  then show "ac_accN (installTable ps c) = ac_accN c" "ac_acc (installTable ps c) = ac_acc c"
    by (simp_all add: installTable_def)
qed

lemma onSigTable_ok: "generation_ok c \<Longrightarrow> generation_ok (onSigTable d hdr c)"
  by (auto simp: generation_ok_def onSigTable_def take_chunk_def drop_generation_def Let_def split: sum.split chunk_header.split)

lemma feed_all:
  assumes "list_all2 (\<lambda>d ps. ParseSignalFrame d = Inr \<lparr>sf_Tick = t, sf_Programs = ps\<rparr>) ds pss" and "ds \<noteq> []" and "generation_ok c"
  shows "\<exists>x y. foldl (feed (int (length ds))) c (zip ds [1..int (length ds)]) = (installTable (concat pss) c)\<lparr>ac_acc := x, ac_accN := y\<rparr>"
proof -
  obtain d ds' where ds: "ds = d # ds'" using assms(2) by (cases ds) simp_all
  then obtain ps pss' where p: "pss = ps # pss'" "ParseSignalFrame d = Inr \<lparr>sf_Tick = t, sf_Programs = ps\<rparr>"
    "list_all2 (\<lambda>d ps. ParseSignalFrame d = Inr \<lparr>sf_Tick = t, sf_Programs = ps\<rparr>) ds' pss'"
    using assms(1) by (auto simp: list_all2_Cons1)
  let ?n = "int (length ds)"
  show ?thesis
  proof (cases "ds' = []")
    case True
    then have "foldl (feed ?n) c (zip ds [1..?n]) = (installTable (concat pss) c)\<lparr>ac_acc := ac_acc c, ac_accN := ac_accN c\<rparr>"
      using ds p install_acc [where ps = ps and c = c and x = "ac_acc c" and y = "ac_accN c"] by (simp add: feed_def onSigTable_def)
    then show ?thesis by blast
  next
    case False
    let ?c1 = "c\<lparr>ac_acc := ps, ac_accN := 1\<rparr>"
    have n: "1 < ?n" using False ds by (cases ds') simp_all
    have first: "feed ?n c (d, 1) = ?c1"
      using p(2) n assms(2,3) by (cases "ac_accN c = 0") (simp_all add: feed_def onSigTable_def take_chunk_def drop_generation_def generation_ok_def)
    have "foldl (feed ?n) ?c1 (zip ds' [ac_accN ?c1 + 1..?n]) = (installTable (ac_acc ?c1 @ concat pss') ?c1)\<lparr>ac_acc := [], ac_accN := 0\<rparr>"
      by (rule feed_rest [OF p(3) False]) (use ds in simp_all)
    moreover have "[1..?n] = 1 # [2..?n]" using n upto_rec1 [of 1 ?n] by simp
    ultimately have "foldl (feed ?n) c (zip ds [1..?n]) = (installTable (concat pss) c)\<lparr>ac_acc := [], ac_accN := 0\<rparr>"
      using first ds p(1) by (simp add: install_acc)
    then show ?thesis by blast
  qed
qed

text \<open>
  C30: the chunked signal table arrives whole. A controller that receives the chunks the kernel
  publishes, numbered 1 to n, ends with the program set and the detector grid of the kernel's
  complete table, whatever generation was open before, and is released as ready.
\<close>
theorem table_assembled:
  assumes "\<forall>k < length (e_Signals e). encodable (e_Net e) k" and "length (e_Signals e) < 4294967296" and "generation_ok c"
  shows "(let n = int (length (SignalChunks e));
      c' = foldl (\<lambda>c (d, i). onSigTable d (Chunk i n) c) c (zip (SignalChunks e) [1..n]);
      whole = installTable (map (sig_program (e_Net e)) [0..<length (e_Signals e)]) c in
    ac_progs c' = ac_progs whole \<and> ac_grid c' = ac_grid whole \<and> ac_ready c')"
proof -
  obtain pss where p: "map ParseSignalFrame (SignalChunks e) = map (\<lambda>ps. Inr \<lparr>sf_Tick = e_Tick e, sf_Programs = ps\<rparr>) pss"
    "concat pss = map (sig_program (e_Net e)) [0..<length (e_Signals e)]" "pss \<noteq> []"
    using chunks_lossless [OF assms(1,2), of SigChunkMax] unfolding SignalChunks_def by blast
  have "list_all2 (\<lambda>d ps. ParseSignalFrame d = Inr \<lparr>sf_Tick = e_Tick e, sf_Programs = ps\<rparr>) (SignalChunks e) pss"
    using p(1) by (auto simp: list_all2_conv_all_nth list_eq_iff_nth_eq)
  moreover have "SignalChunks e \<noteq> []" using p(1,3) by auto
  ultimately obtain x y where "foldl (feed (int (length (SignalChunks e)))) c (zip (SignalChunks e) [1..int (length (SignalChunks e))]) =
      (installTable (concat pss) c)\<lparr>ac_acc := x, ac_accN := y\<rparr>"
    using feed_all [OF _ _ assms(3)] by blast
  moreover have "feed n = (\<lambda>c (d, i). onSigTable d (Chunk i n) c)" for n by (simp add: fun_eq_iff feed_def split: prod.split)
  ultimately show ?thesis using p(2) by (simp add: installTable_def Let_def)
qed

section \<open>A crossing of two movements\<close>

definition cross_program :: SigProgram where
  "cross_program = \<lparr>spr_ID = ''j1'', spr_Junction = ''j1'', spr_OffsetTicks = 0,
     spr_Phases = [\<lparr>sph_DurationTicks = 300, sph_State = ''Gr''\<rparr>, \<lparr>sph_DurationTicks = 30, sph_State = ''yr''\<rparr>,
       \<lparr>sph_DurationTicks = 270, sph_State = ''rG''\<rparr>, \<lparr>sph_DurationTicks = 30, sph_State = ''ry''\<rparr>], spr_Links = []\<rparr>"

text \<open>The same program as the kernel holds it.\<close>

definition cross_compiled :: SignalProgram where
  "cross_compiled = \<lparr>pg_ID = ''j1'', pg_Junction = ''j1'', pg_Offset = 0,
     pg_Phases = [\<lparr>ph_Duration = f64_lit 30 1, ph_State = ''Gr''\<rparr>, \<lparr>ph_Duration = f64_lit 3 1, ph_State = ''yr''\<rparr>,
       \<lparr>ph_Duration = f64_lit 27 1, ph_State = ''rG''\<rparr>, \<lparr>ph_Duration = f64_lit 3 1, ph_State = ''ry''\<rparr>],
     pg_phaseTicks = [300, 30, 270, 30], pg_cycle = 630, pg_offsetTicks = 0, pg_clearance = 30\<rparr>"

definition cross_detector :: "nat \<Rightarrow> Detector" where
  "cross_detector k = \<lparr>dt_Link = k, dt_X = 0, dt_Y = 0, dt_Dx = f64_one, dt_Dy = 0, dt_progID = ''j1''\<rparr>"

definition cross_geom :: Geom where "cross_geom = (\<lambda>_. [Some (cross_detector 0), Some (cross_detector 1)])"

definition cross_config :: Config where
  "cross_config = with_bound (f64_lit 1 10) (defaults \<lparr>cf_CadenceTicks = 0, cf_HoldTicks = 0, cf_RenewBelow = 0, cf_MinGreenTicks = 0,
     cf_MaxChainTicks = 0, cf_DetectRadiusM = 0, cf_SwitchMinQueue = 0, cf_MaxGreenOnCallTicks = 0, cf_Programs = []\<rparr>)"

text \<open>Phase 0 has been held without a gap since tick 1, by now up to tick 2995.\<close>

definition cross_state :: progState where
  "cross_state = (the (newProgState cross_program cross_geom))\<lparr>ps_myPhase := 0, ps_phaseSince := 1, ps_holdUntil := 2995, ps_chainStart := 1\<rparr>"

definition cross_hist :: "sigOverride list" where
  "cross_hist = [\<lparr>ov_phase = 0, ov_since = 2895, ov_until = 2995, ov_chainStart = 1, ov_requestID = ''a''\<rparr>]"

definition cross_verb :: SignalDirective where
  "cross_verb = \<lparr>sg_RequestID = ''b'', sg_Signal = ''j1'', sg_Phase = 0, sg_HoldTicks = 100\<rparr>"

lemma cross_bound: "cf_MaxChainTicks cross_config = 3000"
  by code_simp

lemma cross_renews: "decideProgram cross_config cross_state [1, 0] 2970 = (cross_state, Some (0, 100))"
  by code_simp

lemma cross_ok: "actuable cross_state" "ps_chainStart cross_state = 1"
  by code_simp+

lemma cross_matches: "matches 3000 2971 cross_state cross_hist"
  by code_simp

lemma actuation_tracked_witness:
  "2971 < ov_until (hold_entry 2971 cross_verb 3000 cross_hist) \<and>
   matches 3000 2972 (track cross_state 0 100 2970) (applied_hist 2971 cross_verb 3000 cross_hist)"
  using actuation_tracked [OF cross_renews cross_ok(1), of cross_hist cross_verb] cross_matches
  by (simp add: cross_bound cross_ok cross_verb_def)

text \<open>
  (counterexample to the exactness of the prediction) The kernel cuts a renewal at the bound of
  the chain, the controller does not, although it is the program's only commander and its copy of the
  bound is right. Here the renewal sent at tick 2970 ends at 3001 in the kernel and at 3071 for the
  controller. At tick 3010 the fixed-time program shows green to link 1, the controller believes
  phase 0 in force, and on a call it commands phase 1, which turns that link red with no amber.
\<close>
theorem prediction_overruns:
  "decideProgram cross_config cross_state [1, 0] 2970 = (cross_state, Some (0, 100)) \<and>
   (let q = track cross_state 0 100 2970; h = applied_hist 2971 cross_verb (cf_MaxChainTicks cross_config) cross_hist;
        e = demo_engine\<lparr>e_sigOv := [(''j1'', h)]\<rparr> in
    ov_until (last h) = 3001 \<and> ps_holdUntil q = 3071 \<and> fst (estimated q 3010) = 0 \<and>
    fst (sigPhaseAt e cross_compiled 3010) = 2 \<and> phase_state cross_compiled 2 ! 1 = CHR ''G'' \<and>
    snd (decideProgram cross_config q [1, 1] 3010) = Some (1, 30) \<and> phase_state cross_compiled 1 ! 1 = CHR ''r'')"
  using cross_renews by code_simp

text \<open>At tick 2000 the queue of link 1 calls for phase 2 and nobody is left on link 0.\<close>

lemma cross_switches:
  "decideProgram cross_config cross_state [0, 1] 2000 = (cross_state\<lparr>ps_callSince := 2000, ps_target := 2\<rparr>, Some (1, 30))"
  by code_simp

lemma actuation_no_jump_witness:
  "snd (estimated cross_state 2000) + cf_MinGreenTicks cross_config \<le> 2000 \<and> called cross_config cross_state [0, 1] 0 2 \<and>
   leaves cross_config cross_state [0, 1] 0 2000 \<and> natural cross_state 1 = 30"
proof -
  have n: "2 \<le> nphases cross_state" "1 \<le> cf_SwitchMinQueue cross_config" by code_simp+
  have v: "fst (estimated cross_state 2000) = 0" "ps_target cross_state = - 1" by code_simp+
  show ?thesis using actuation_no_jump [OF cross_switches n] by (simp add: v)
qed

text \<open>A controller with a stale chunk of an older generation open.\<close>

definition fresh_controller :: Controller where
  "fresh_controller = \<lparr>ac_cfg = cross_config, ac_ctlID = ''c1'', ac_geom = cross_geom, ac_progs = [], ac_grid = (\<lambda>_. []),
     ac_acc = [cross_program], ac_accN = 2, ac_ready = False, ac_Takeovers = 0, ac_Switches = 0, ac_Renews = 0, ac_sent = []\<rparr>"

lemma table_assembled_witness:
  "ac_ready (foldl (\<lambda>c (d, i). onSigTable d (Chunk i (int (length (SignalChunks demo_engine)))) c) fresh_controller
     (zip (SignalChunks demo_engine) [1..int (length (SignalChunks demo_engine))]))"
proof -
  have "\<forall>k < length (e_Signals demo_engine). encodable (e_Net demo_engine) k"
    using demo_encodable by (simp add: demo_engine_def demo_net_def)
  moreover have "length (e_Signals demo_engine) < 4294967296" by (simp add: demo_engine_def demo_net_def)
  moreover have "generation_ok fresh_controller" by (simp add: generation_ok_def fresh_controller_def)
  ultimately have "ac_ready (let n = int (length (SignalChunks demo_engine)) in foldl (\<lambda>c (d, i). onSigTable d (Chunk i n) c) fresh_controller
      (zip (SignalChunks demo_engine) [1..n]))"
    using table_assembled [of demo_engine fresh_controller] by (simp only: Let_def)
  then show ?thesis by (simp only: Let_def)
qed

end
