(* ===== verification/Demand.thy ===== *)
theory Demand
  imports IntentBus Director FloatMath
begin

text \<open>
  \<open>engine/natsio/demand/director.go\<close>, the runtime demand director, and the flow rules of
  \<open>scenario/scenario.go\<close>. A flow walks an arrival program; the verbs of the arrivals that are due are
  sent on every snapshot. The parallel slices of the Go struct are one record per flow. A weight map
  is an association list with distinct keys. \<open>math.Log\<close> is the parameter \<open>ln\<close>. The connection, the
  counters and the evidence taps are left out.
\<close>

subsection \<open>Flows\<close>

record Slice =
  sl_StartS :: f64
  sl_EndS :: f64
  sl_VehPerH :: f64

record Flow =
  fl_Origin :: string
  fl_VehPerH :: f64
  fl_Spacing :: string
  fl_VTypes :: "(string \<times> f64) list"
  fl_Slices :: "Slice list"
  fl_UntilS :: f64
  fl_Destinations :: "(string \<times> f64) list"
  fl_OffsetM :: f64

definition finite_f64 :: "f64 \<Rightarrow> bool" where "finite_f64 x \<longleftrightarrow> \<not> is_nan x \<and> \<not> is_inf x"

text \<open>The rules of \<open>validateFlows\<close> for the rate program of one flow; \<open>prev\<close> is the end of the slice before.\<close>

fun slices_valid :: "bool \<Rightarrow> f64 \<Rightarrow> Slice list \<Rightarrow> bool" where
  "slices_valid first prev [] = True"
| "slices_valid first prev (s # ss) =
     (finite_f64 (sl_StartS s) \<and> finite_f64 (sl_EndS s) \<and> finite_f64 (sl_VehPerH s) \<and>
      \<not> (flt (sl_StartS s) 0 \<or> fle (sl_EndS s) (sl_StartS s)) \<and> (first \<or> \<not> flt (sl_StartS s) prev) \<and>
      \<not> flt (sl_VehPerH s) 0 \<and> slices_valid False (sl_EndS s) ss)"

definition rate_valid :: "Flow \<Rightarrow> bool" where
  "rate_valid f \<longleftrightarrow> finite_f64 (fl_VehPerH f) \<and> finite_f64 (fl_UntilS f) \<and>
     (if fl_Slices f = [] then \<not> fle (fl_VehPerH f) 0 else feq (fl_VehPerH f) 0) \<and>
     slices_valid True 0 (fl_Slices f) \<and> \<not> flt (fl_UntilS f) 0"

subsection \<open>The arrival program\<close>

record flowSampler =
  fs_flow :: Flow
  fs_seed :: u64
  fs_key :: u64
  fs_ordinal :: u64
  fs_nextS :: f64

definition newFlowSampler :: "Flow \<Rightarrow> u64 \<Rightarrow> nat \<Rightarrow> flowSampler" where
  "newFlowSampler f seed idx =
     \<lparr>fs_flow = f, fs_seed = seed,
      fs_key = fnv_write (fnv_write (fnv_write fnv_offset (bytes_of ''traffic-sim/demand-director/flow'')) (bytes_of (fl_Origin f)))
        (put_be64 (word_of_nat idx)),
      fs_ordinal = 0, fs_nextS = 0\<rparr>"

definition sampler_stream :: "flowSampler \<Rightarrow> stream" where
  "sampler_stream fs = deriveStream (fs_seed fs) (fs_key fs XOR fs_ordinal fs)"

fun slice_rate :: "f64 \<Rightarrow> Slice list \<Rightarrow> f64" where
  "slice_rate t [] = 0"
| "slice_rate t (s # ss) = (if fle (sl_StartS s) t \<and> flt t (sl_EndS s) then sl_VehPerH s else slice_rate t ss)"

definition rateAt :: "Flow \<Rightarrow> f64 \<Rightarrow> f64" where
  "rateAt f t = (if fl_Slices f = [] then fl_VehPerH f else slice_rate t (fl_Slices f))"

text \<open>\<open>math.Max\<close>.\<close>

definition f64_max :: "f64 \<Rightarrow> f64 \<Rightarrow> f64" where
  "f64_max x y =
     (if fval_of x = Inf False \<or> fval_of y = Inf False then 9218868437227405312
      else if is_nan x \<or> is_nan y then f64_nan
      else if feq x 0 \<and> feq x y then (if f64_sign x then y else x)
      else if flt y x then x else y)"

fun next_window :: "f64 \<Rightarrow> Slice list \<Rightarrow> f64 \<Rightarrow> f64" where
  "next_window t [] best = best"
| "next_window t (s # ss) best =
     next_window t ss (if flt t (sl_EndS s) \<and> flt (sl_StartS s) best then f64_max (sl_StartS s) t else best)"

fun weighted_walk :: "f64 \<Rightarrow> f64 \<Rightarrow> (string \<times> f64) list \<Rightarrow> string" where
  "weighted_walk u cum [] = []"
| "weighted_walk u cum ((n, w) # rest) =
     (if flt u (fadd cum w) \<or> rest = [] then n else weighted_walk u (fadd cum w) rest)"

definition weightedDraw :: "stream \<Rightarrow> (string \<times> f64) list \<Rightarrow> string \<times> stream" where
  "weightedDraw st weights =
     (let ws = stable_sort (\<lambda>a b. fst a < fst b) weights; (u, st') = stream_Float64 st in
      (weighted_walk (fmul u (foldl fadd 0 (map snd ws))) 0 ws, st'))"

definition pickType :: "stream \<Rightarrow> (string \<times> f64) list \<Rightarrow> string \<times> stream" where
  "pickType st ws = (if ws = [] then (''car'', st) else weightedDraw st ws)"

definition pickWeighted :: "stream \<Rightarrow> (string \<times> f64) list \<Rightarrow> string \<times> stream" where
  "pickWeighted st ws = (if ws = [] then ([], st) else weightedDraw st ws)"

record pendingArrival =
  pa_at :: f64
  pa_vtype :: string
  pa_dest :: string

text \<open>The draw of an arrival at a positive rate.\<close>

definition draw_arrival :: "(f64 \<Rightarrow> f64) \<Rightarrow> flowSampler \<Rightarrow> f64 \<Rightarrow> pendingArrival \<times> flowSampler" where
  "draw_arrival ln fs rate =
     (let f = fs_flow fs; st = sampler_stream fs; mean = fdiv (f64_lit 3600 1) rate;
          (gap, st1) = (if fl_Spacing f = ''poisson''
            then let (u, s) = stream_Float64 st in (fmul (fneg (ln (fsub f64_one u))) mean, s) else (mean, st));
          (vtype, st2) = pickType st1 (fl_VTypes f); (dest, st3) = pickWeighted st2 (fl_Destinations f) in
      (\<lparr>pa_at = fs_nextS fs, pa_vtype = vtype, pa_dest = dest\<rparr>,
       fs\<lparr>fs_ordinal := fs_ordinal fs + 1, fs_nextS := fadd (fs_nextS fs) gap\<rparr>))"

definition next_arrival :: "(f64 \<Rightarrow> f64) \<Rightarrow> flowSampler \<Rightarrow> pendingArrival option \<times> flowSampler" where
  "next_arrival ln fs =
     (let f = fs_flow fs; rate = rateAt f (fs_nextS fs) in
      if flt 0 (fl_UntilS f) \<and> fle (fl_UntilS f) (fs_nextS fs) then (None, fs)
      else if \<not> fle rate 0 then (let (a, fs') = draw_arrival ln fs rate in (Some a, fs'))
      else if fl_Slices f = [] then (None, fs)
      else let best = next_window (fs_nextS fs) (fl_Slices f) 9218868437227405312 in
        if best = 9218868437227405312 then (None, fs)
        else let fs1 = fs\<lparr>fs_nextS := best\<rparr>; rate1 = rateAt f best in
          if fle rate1 0 then (None, fs1) else (let (a, fs') = draw_arrival ln fs1 rate1 in (Some a, fs')))"

subsection \<open>The verb loop\<close>

record spawn_verb =
  sv_RequestID :: string
  sv_Origin :: string
  sv_VType :: string
  sv_EarliestTick :: u64
  sv_Destination :: string
  sv_OffsetM :: f64

record flow_state =
  fw_idx :: nat
  fw_sampler :: flowSampler
  fw_pending :: pendingArrival
  fw_exhausted :: bool

definition pad_six :: "string \<Rightarrow> string" where "pad_six s = replicate (6 - length s) (CHR ''0'') @ s"

definition spawn_id :: "nat \<Rightarrow> u64 \<Rightarrow> string" where
  "spawn_id idx ordinal = ''f'' @ dec_string idx @ ''-'' @ pad_six (dec_string (unat ordinal))"

definition at_tick :: "f64 \<Rightarrow> pendingArrival \<Rightarrow> u64" where
  "at_tick dt a = f64_to_u64 (fadd (fdiv (pa_at a) dt) (f64_lit 1 2))"

definition advance :: "(f64 \<Rightarrow> f64) \<Rightarrow> flow_state \<Rightarrow> flow_state" where
  "advance ln w =
     (case next_arrival ln (fw_sampler w) of
        (None, fs) \<Rightarrow> w\<lparr>fw_sampler := fs, fw_exhausted := True\<rparr>
      | (Some a, fs) \<Rightarrow> w\<lparr>fw_sampler := fs, fw_pending := a\<rparr>)"

definition no_arrival :: pendingArrival where "no_arrival = \<lparr>pa_at = 0, pa_vtype = [], pa_dest = []\<rparr>"

text \<open>The part of \<open>Attach\<close> that starts a flow.\<close>

definition start_flow :: "(f64 \<Rightarrow> f64) \<Rightarrow> u64 \<Rightarrow> nat \<Rightarrow> Flow \<Rightarrow> flow_state" where
  "start_flow ln seed i f = advance ln \<lparr>fw_idx = i, fw_sampler = newFlowSampler f seed i, fw_pending = no_arrival, fw_exhausted = False\<rparr>"

definition verb_of :: "f64 \<Rightarrow> flow_state \<Rightarrow> spawn_verb" where
  "verb_of dt w =
     (let fs = fw_sampler w; a = fw_pending w in
      \<lparr>sv_RequestID = spawn_id (fw_idx w) (fs_ordinal fs - 1), sv_Origin = fl_Origin (fs_flow fs), sv_VType = pa_vtype a,
       sv_EarliestTick = at_tick dt a, sv_Destination = pa_dest a, sv_OffsetM = fl_OffsetM (fs_flow fs)\<rparr>)"

record director_cfg =
  dc_dt :: f64
  dc_endS :: f64
  dc_Lead :: u64

text \<open>
  The arrivals a flow owes at a snapshot, in order. The loop ends because time passes between
  arrivals, which depends on the rates; a loop that does not end is \<open>None\<close>.
\<close>

partial_function (option) drain :: "(f64 \<Rightarrow> f64) \<Rightarrow> director_cfg \<Rightarrow> u64 \<Rightarrow> flow_state \<Rightarrow> (flow_state \<times> spawn_verb list) option" where
  "drain ln c tick w =
     (if fw_exhausted w then Some (w, [])
      else if flt (dc_endS c) (pa_at (fw_pending w)) then Some (w\<lparr>fw_exhausted := True\<rparr>, [])
      else if tick + dc_Lead c < at_tick (dc_dt c) (fw_pending w) then Some (w, [])
      else Option.bind (drain ln c tick (advance ln w)) (\<lambda>r. Some (fst r, verb_of (dc_dt c) w # snd r)))"

text \<open>The arrivals that a warm start skips; the count of them.\<close>

partial_function (option) fastForward :: "(f64 \<Rightarrow> f64) \<Rightarrow> director_cfg \<Rightarrow> u64 \<Rightarrow> flow_state \<Rightarrow> (flow_state \<times> nat) option" where
  "fastForward ln c startTick w =
     (if fw_exhausted w \<or> startTick < at_tick (dc_dt c) (fw_pending w) then Some (w, 0)
      else Option.bind (fastForward ln c startTick (advance ln w)) (\<lambda>r. Some (fst r, Suc (snd r))))"

fun demand_snapshot :: "(f64 \<Rightarrow> f64) \<Rightarrow> director_cfg \<Rightarrow> u64 \<Rightarrow> flow_state list \<Rightarrow> (flow_state list \<times> spawn_verb list) option" where
  "demand_snapshot ln c tick [] = Some ([], [])"
| "demand_snapshot ln c tick (w # ws) =
     (case drain ln c tick w of None \<Rightarrow> None
      | Some (w', vs) \<Rightarrow> (case demand_snapshot ln c tick ws of None \<Rightarrow> None | Some (ws', us) \<Rightarrow> Some (w' # ws', vs @ us)))"

end
