(* ===== verification/DemandClaims.thy ===== *)
theory DemandClaims
  imports Demand
begin

text \<open>
  The demand director: when its verb loop ends, that what it has sent depends on the last snapshot
  only, that a warm start continues the cold run's program, and a valid rate program it cuts short.
\<close>

section \<open>The loop ends at the first arrival that is not due\<close>

definition rests :: "director_cfg \<Rightarrow> u64 \<Rightarrow> flow_state \<Rightarrow> bool" where
  "rests c tick w \<longleftrightarrow> fw_exhausted w \<or> flt (dc_endS c) (pa_at (fw_pending w)) \<or> tick + dc_Lead c < at_tick (dc_dt c) (fw_pending w)"

definition rested :: "director_cfg \<Rightarrow> flow_state \<Rightarrow> flow_state" where
  "rested c w = (if \<not> fw_exhausted w \<and> flt (dc_endS c) (pa_at (fw_pending w)) then w\<lparr>fw_exhausted := True\<rparr> else w)"

lemma drain_rests: "rests c tick w \<Longrightarrow> drain ln c tick w = Some (rested c w, [])"
  by (subst drain.simps) (auto simp: rests_def rested_def)

lemma drain_sends:
  "\<not> rests c tick w \<Longrightarrow> drain ln c tick w =
     Option.bind (drain ln c tick (advance ln w)) (\<lambda>r. Some (fst r, verb_of (dc_dt c) w # snd r))"
  by (subst drain.simps) (auto simp: rests_def)

lemma drain_returns:
  "rests c tick ((advance ln ^^ n) w) \<Longrightarrow> \<exists>r. drain ln c tick w = Some r"
proof (induction n arbitrary: w)
  case 0
  then show ?case using drain_rests by simp
next
  case (Suc n)
  have "rests c tick ((advance ln ^^ n) (advance ln w))" using Suc.prems by (simp add: funpow_swap1)
  then obtain r where "drain ln c tick (advance ln w) = Some r" using Suc.IH by blast
  then show ?case using drain_rests [of c tick w ln] drain_sends [of c tick w ln] by (cases "rests c tick w") simp_all
qed

lemma rests_earlier: "rests c t2 w \<Longrightarrow> t1 + dc_Lead c \<le> t2 + dc_Lead c \<Longrightarrow> rests c t1 w"
  by (auto simp: rests_def)

lemma drain_rested: "rests c tick w \<Longrightarrow> drain ln c tick' (rested c w) = drain ln c tick' w"
proof -
  have "drain ln c tick' w = Some (rested c w, [])" if "\<not> fw_exhausted w" "flt (dc_endS c) (pa_at (fw_pending w))"
    using that drain_rests [of c tick' w ln] by (simp add: rests_def)
  moreover have "drain ln c tick' (w\<lparr>fw_exhausted := True\<rparr>) = Some (w\<lparr>fw_exhausted := True\<rparr>, [])"
    by (subst drain.simps) simp
  ultimately show ?thesis by (auto simp: rested_def)
qed

lemma drain_twice:
  "rests c t2 ((advance ln ^^ n) w) \<Longrightarrow> t1 + dc_Lead c \<le> t2 + dc_Lead c \<Longrightarrow>
   \<exists>w1 v1 w2 v. drain ln c t1 w = Some (w1, v1) \<and> drain ln c t2 w1 = Some (w2, v) \<and> drain ln c t2 w = Some (w2, v1 @ v)"
proof (induction n arbitrary: w)
  case 0
  then have "rests c t1 w" "rests c t2 w" using rests_earlier by auto
  then show ?case using drain_rests [of c t1 w ln] drain_rests [of c t2 w ln] drain_rested [of c t1 w ln t2] by auto
next
  case (Suc n)
  show ?case
  proof (cases "rests c t1 w")
    case True
    obtain w2 v where "drain ln c t2 w = Some (w2, v)" using drain_returns [OF Suc.prems(1)] by auto
    then show ?thesis using True drain_rests [of c t1 w ln] drain_rested [of c t1 w ln t2] by auto
  next
    case False
    then have no: "\<not> rests c t2 w" using rests_earlier Suc.prems(2) by blast
    have "rests c t2 ((advance ln ^^ n) (advance ln w))" using Suc.prems(1) by (simp add: funpow_swap1)
    from Suc.IH [OF this Suc.prems(2)] show ?thesis
      using drain_sends [OF False] drain_sends [OF no] by auto
  qed
qed

text \<open>
  C31: what the director has sent depends on the last snapshot, not on the rhythm of snapshots. When
  one of the next arrivals is not due at the later tick, the loop returns at both ticks, and a flow
  served at the earlier and then at the later tick sends, in the same order, exactly the verbs it
  sends when served at the later tick only, and ends in the same state.
\<close>
theorem cadence_independent:
  assumes "rests c t2 ((advance ln ^^ n) w)" and "t1 + dc_Lead c \<le> t2 + dc_Lead c"
  shows "\<exists>w1 v1 w2 v. drain ln c t1 w = Some (w1, v1) \<and> drain ln c t2 w1 = Some (w2, v) \<and>
    drain ln c t2 w = Some (w2, v1 @ v)"
  using drain_twice [OF assms] .

section \<open>Warm start\<close>

lemma forward_stops: "fw_exhausted w \<or> s < at_tick (dc_dt c) (fw_pending w) \<Longrightarrow> fastForward ln c s w = Some (w, 0)"
  by (subst fastForward.simps) auto

lemma forward_skips:
  "\<not> (fw_exhausted w \<or> s < at_tick (dc_dt c) (fw_pending w)) \<Longrightarrow>
   fastForward ln c s w = Option.bind (fastForward ln c s (advance ln w)) (\<lambda>r. Some (fst r, Suc (snd r)))"
  by (subst fastForward.simps) auto

text \<open>The first \<open>k\<close> verbs are due by tick \<open>s\<close>, and the one after them, when there is one, is not.\<close>

definition skipped :: "u64 \<Rightarrow> nat \<Rightarrow> spawn_verb list \<Rightarrow> bool" where
  "skipped s k vs \<longleftrightarrow> k \<le> length vs \<and> (\<forall>v \<in> set (take k vs). sv_EarliestTick v \<le> s) \<and>
     (k < length vs \<longrightarrow> s < sv_EarliestTick (vs ! k))"

lemma verb_tick [simp]: "sv_EarliestTick (verb_of d w) = at_tick d (fw_pending w)"
  by (simp add: verb_of_def Let_def)

lemma drain_first:
  assumes "drain ln c t w = Some (w2, vs)" and "vs \<noteq> []"
  shows "\<not> fw_exhausted w \<and> vs ! 0 = verb_of (dc_dt c) w"
proof (cases "rests c t w")
  case True
  then show ?thesis using assms drain_rests [OF True, of ln] by simp
next
  case False
  then show ?thesis using assms drain_sends [OF False, of ln] by (auto simp: rests_def bind_eq_Some_conv)
qed

lemma forward_core:
  "rests c t ((advance ln ^^ n) w) \<Longrightarrow> s \<le> t + dc_Lead c \<Longrightarrow>
   list_all (\<lambda>j. \<not> flt (dc_endS c) (pa_at (fw_pending ((advance ln ^^ j) w)))) [0..<Suc n] \<Longrightarrow>
   \<exists>w1 k w2 vs. fastForward ln c s w = Some (w1, k) \<and> drain ln c t w = Some (w2, vs) \<and> skipped s k vs \<and>
     drain ln c t w1 = Some (w2, drop k vs)"
proof (induction n arbitrary: w)
  case 0
  then have "fw_exhausted w \<or> s < at_tick (dc_dt c) (fw_pending w)" by (auto simp: rests_def)
  then show ?case using 0 drain_rests [of c t w ln] forward_stops [of w s c ln] by (auto simp: skipped_def)
next
  case (Suc n)
  show ?case
  proof (cases "fw_exhausted w \<or> s < at_tick (dc_dt c) (fw_pending w)")
    case True
    obtain w2 vs where d: "drain ln c t w = Some (w2, vs)" using drain_returns [OF Suc.prems(1)] by auto
    have "skipped s 0 vs" using drain_first [OF d] True by (cases "vs = []") (auto simp: skipped_def)
    then show ?thesis using d forward_stops [OF True, of ln] by auto
  next
    case False
    have "0 \<in> set [0..<Suc (Suc n)]" by (simp add: set_upt del: upt_Suc)
    then have "\<not> flt (dc_endS c) (pa_at (fw_pending ((advance ln ^^ 0) w)))"
      using Suc.prems(3) unfolding list_all_iff by blast
    then have a: "\<not> flt (dc_endS c) (pa_at (fw_pending w))" by simp
    have no: "\<not> rests c t w" using False a Suc.prems(2) by (auto simp: rests_def)
    have "list_all (\<lambda>j. \<not> flt (dc_endS c) (pa_at (fw_pending ((advance ln ^^ j) (advance ln w))))) [0..<Suc n]"
    proof -
      have "\<not> flt (dc_endS c) (pa_at (fw_pending ((advance ln ^^ Suc j) w)))" if "j < Suc n" for j
        using Suc.prems(3) that by (simp only: list_all_iff set_upt) (metis Suc_less_eq atLeastLessThan_iff zero_le)
      then show ?thesis by (simp add: list_all_iff funpow_swap1)
    qed
    moreover have "rests c t ((advance ln ^^ n) (advance ln w))" using Suc.prems(1) by (simp add: funpow_swap1)
    ultimately obtain w1 k w2 vs where ih: "fastForward ln c s (advance ln w) = Some (w1, k)"
      "drain ln c t (advance ln w) = Some (w2, vs)" "skipped s k vs" "drain ln c t w1 = Some (w2, drop k vs)"
      using Suc.IH [OF _ Suc.prems(2), of "advance ln w"] by blast
    then have "fastForward ln c s w = Some (w1, Suc k)" "drain ln c t w = Some (w2, verb_of (dc_dt c) w # vs)"
      using forward_skips [OF False] drain_sends [OF no] by simp_all
    moreover have "skipped s (Suc k) (verb_of (dc_dt c) w # vs)" using ih(3) False by (auto simp: skipped_def not_less)
    ultimately show ?thesis using ih(4) by auto
  qed
qed

text \<open>
  C32: a warm start continues the cold program. Suppose no arrival up to the first that is not yet
  due at the snapshot lies past the end of the run, and the start tick is within the snapshot's lead.
  Then a flow fast-forwarded to the start tick and then served sends exactly the verbs of the cold
  flow without the first k, with the same request ids, and ends in the same state; the k verbs left
  out are those due by the start tick: every one of them is, and the one after them is not.
\<close>
theorem warm_start_continues:
  assumes "rests c t ((advance ln ^^ n) w)" and "s \<le> t + dc_Lead c"
    and "list_all (\<lambda>j. \<not> flt (dc_endS c) (pa_at (fw_pending ((advance ln ^^ j) w)))) [0..<Suc n]"
  shows "\<exists>w1 k w2 vs. fastForward ln c s w = Some (w1, k) \<and> drain ln c t w = Some (w2, vs) \<and>
    k \<le> length vs \<and> (\<forall>v \<in> set (take k vs). sv_EarliestTick v \<le> s) \<and>
    (k < length vs \<longrightarrow> s < sv_EarliestTick (vs ! k)) \<and> drain ln c t w1 = Some (w2, drop k vs)"
  using forward_core [OF assms] unfolding skipped_def by (simp only: conj_assoc)

section \<open>A rate program that is cut short\<close>

definition gap_flow :: Flow where
  "gap_flow = \<lparr>fl_Origin = ''a'', fl_VehPerH = 0, fl_Spacing = ''constant'', fl_VTypes = [],
     fl_Slices = [\<lparr>sl_StartS = 0, sl_EndS = f64_lit 60 1, sl_VehPerH = 0\<rparr>,
       \<lparr>sl_StartS = f64_lit 60 1, sl_EndS = f64_lit 120 1, sl_VehPerH = f64_lit 600 1\<rparr>],
     fl_UntilS = 0, fl_Destinations = [], fl_OffsetM = 0\<rparr>"

text \<open>
  (counterexample to the piecewise-constant rate) A slice of rate zero is a valid part of a rate
  program, and the flow has the rate of 600 vehicles per hour in the slice after it, but its sampler is
  exhausted at once: the search for the next window finds the window it is in.
\<close>
theorem zero_slice_ends_flow:
  "rate_valid gap_flow \<and> rateAt gap_flow (f64_lit 60 1) = f64_lit 600 1 \<and>
   fw_exhausted (start_flow (\<lambda>x. x) 1 0 gap_flow)"
  by code_simp

section \<open>Witnesses\<close>

text \<open>One vehicle every six seconds, served at ticks 20 and 80 of ten to the second.\<close>

definition steady_flow :: Flow where
  "steady_flow = gap_flow\<lparr>fl_VehPerH := f64_lit 600 1, fl_Slices := []\<rparr>"

definition steady_cfg :: director_cfg where
  "steady_cfg = \<lparr>dc_dt = f64_lit 1 10, dc_endS = f64_lit 1000 1, dc_Lead = 30\<rparr>"

text \<open>The flow after its arrival at \<open>a\<close>: no stream is drawn from, the next arrival is six seconds on.\<close>

definition steady_state :: "u64 \<Rightarrow> f64 \<Rightarrow> f64 \<Rightarrow> flow_state" where
  "steady_state n t a =
     \<lparr>fw_idx = 0, fw_sampler = (newFlowSampler steady_flow 1 0)\<lparr>fs_ordinal := n, fs_nextS := t\<rparr>,
      fw_pending = \<lparr>pa_at = a, pa_vtype = ''car'', pa_dest = []\<rparr>, fw_exhausted = False\<rparr>"

lemma steady_gap: "fdiv (f64_lit 3600 1) (f64_lit 600 1) = f64_lit 6 1"
  by code_simp

lemma steady_rate: "\<not> fle (f64_lit 600 1) 0" and steady_until: "\<not> flt 0 (0 :: f64)"
  by code_simp+

lemma steady_draws:
  assumes "fs_flow fs = steady_flow"
  shows "next_arrival ln fs =
    (Some \<lparr>pa_at = fs_nextS fs, pa_vtype = ''car'', pa_dest = []\<rparr>,
     fs\<lparr>fs_ordinal := fs_ordinal fs + 1, fs_nextS := fadd (fs_nextS fs) (f64_lit 6 1)\<rparr>)"
  using assms steady_gap steady_rate steady_until
  by (simp add: next_arrival_def draw_arrival_def steady_flow_def gap_flow_def rateAt_def pickType_def pickWeighted_def Let_def)

lemma steady_advance: "advance ln (steady_state n t a) = steady_state (n + 1) (fadd t (f64_lit 6 1)) t"
  by (simp add: advance_def steady_state_def steady_draws newFlowSampler_def)

lemma steady_start: "start_flow ln 1 0 steady_flow = steady_state 1 (fadd 0 (f64_lit 6 1)) 0"
  by (simp add: start_flow_def advance_def steady_state_def steady_draws newFlowSampler_def)

lemma steady_arrivals:
  "(advance ln ^^ 0) (start_flow ln 1 0 steady_flow) = steady_state 1 (f64_lit 6 1) 0"
  "(advance ln ^^ 1) (start_flow ln 1 0 steady_flow) = steady_state 2 (f64_lit 12 1) (f64_lit 6 1)"
  "(advance ln ^^ 2) (start_flow ln 1 0 steady_flow) = steady_state 3 (f64_lit 18 1) (f64_lit 12 1)"
proof -
  have "fadd 0 (f64_lit 6 1) = f64_lit 6 1" "fadd (f64_lit 6 1) (f64_lit 6 1) = f64_lit 12 1"
    "fadd (f64_lit 12 1) (f64_lit 6 1) = f64_lit 18 1" by code_simp+
  then show "(advance ln ^^ 0) (start_flow ln 1 0 steady_flow) = steady_state 1 (f64_lit 6 1) 0"
    "(advance ln ^^ 1) (start_flow ln 1 0 steady_flow) = steady_state 2 (f64_lit 12 1) (f64_lit 6 1)"
    "(advance ln ^^ 2) (start_flow ln 1 0 steady_flow) = steady_state 3 (f64_lit 18 1) (f64_lit 12 1)"
    by (simp_all add: steady_start steady_advance numeral_2_eq_2)
qed

lemma steady_due:
  "at_tick (f64_lit 1 10) \<lparr>pa_at = f64_lit 12 1, pa_vtype = ''car'', pa_dest = []\<rparr> = 120"
  by code_simp

lemma steady_rests: "rests steady_cfg 80 ((advance ln ^^ 2) (start_flow ln 1 0 steady_flow))"
  by (simp add: steady_arrivals rests_def steady_state_def steady_cfg_def steady_due)

lemma steady_within:
  "list_all (\<lambda>j. \<not> flt (dc_endS steady_cfg) (pa_at (fw_pending ((advance ln ^^ j) (start_flow ln 1 0 steady_flow))))) [0..<Suc 2]"
proof -
  have "\<not> flt (f64_lit 1000 1) 0" "\<not> flt (f64_lit 1000 1) (f64_lit 6 1)" "\<not> flt (f64_lit 1000 1) (f64_lit 12 1)"
    by code_simp+
  then have "\<forall>j \<in> {0, 1, 2 :: nat}. \<not> flt (dc_endS steady_cfg)
      (pa_at (fw_pending ((advance ln ^^ j) (start_flow ln 1 0 steady_flow))))"
    using steady_arrivals [of ln] by (simp add: steady_state_def steady_cfg_def)
  moreover have "set [0..<Suc 2] = {0, 1, 2 :: nat}" by auto
  ultimately show ?thesis by (simp only: list_all_iff)
qed

lemma cadence_independent_witness:
  "let w = start_flow (\<lambda>x. x) 1 0 steady_flow in \<exists>w1 v1 w2 v. drain (\<lambda>x. x) steady_cfg 20 w = Some (w1, v1) \<and>
     drain (\<lambda>x. x) steady_cfg 80 w1 = Some (w2, v) \<and> drain (\<lambda>x. x) steady_cfg 80 w = Some (w2, v1 @ v)"
  unfolding Let_def by (rule cadence_independent [OF steady_rests]) code_simp

lemma warm_start_continues_witness:
  "let w = start_flow (\<lambda>x. x) 1 0 steady_flow in \<exists>w1 k w2 vs. fastForward (\<lambda>x. x) steady_cfg 50 w = Some (w1, k) \<and>
     drain (\<lambda>x. x) steady_cfg 80 w = Some (w2, vs) \<and> k \<le> length vs \<and> (\<forall>v \<in> set (take k vs). sv_EarliestTick v \<le> 50) \<and>
     (k < length vs \<longrightarrow> 50 < sv_EarliestTick (vs ! k)) \<and> drain (\<lambda>x. x) steady_cfg 80 w1 = Some (w2, drop k vs)"
  unfolding Let_def by (rule warm_start_continues [OF steady_rests _ steady_within]) code_simp

end
