(* ===== verification/Netfile.thy ===== *)
theory Netfile
  imports Director
begin

text \<open>
  \<open>engine/netfile.go\<close>, \<open>network.go\<close> and \<open>scenario_i80.go\<close>: the compiled network file, its
  validation and linking, and the built-in networks. A pointer to a lane is its position, the lane map
  is the search for an id. The fields that the kernel's lanes do not have (width, shape, junction name,
  provenance) are checked but not kept. Reading and decoding a file is the parameter of \<open>BuildNet\<close>.
\<close>

subsection \<open>The file\<close>

record NetLane =
  nl_ID :: string
  nl_Section :: string
  nl_Edge :: string
  nl_EdgeIndex :: int
  nl_Length :: f64
  nl_SpeedLimit :: f64
  nl_Width :: f64
  nl_Successors :: "string list"
  nl_Origin :: bool
  nl_Exit :: bool
  nl_EndWall :: bool
  nl_Internal :: bool
  nl_Junction :: string
  nl_Row :: string
  nl_FoesCross :: "string list"
  nl_FoesMerge :: "string list"
  nl_TL :: string
  nl_TLLink :: "int option"

record NetSignal =
  ns_ID :: string
  ns_Junction :: string
  ns_Offset :: f64
  ns_Phases :: "SignalPhase list"

record NetFile =
  nf_Version :: int
  nf_Lanes :: "NetLane list"
  nf_Signals :: "NetSignal list"

datatype net_error =
    Bad_version int
  | No_lanes
  | Empty_lane_id nat
  | Duplicate_lane string
  | Bad_length string f64
  | Bad_limit string f64
  | Bad_width string f64
  | Unknown_successor string string
  | Self_successor string
  | Successors_at_end string
  | Dangling string
  | Exit_and_wall string
  | Unknown_row string string
  | Row_outside string
  | Unknown_foe string string
  | Foe_outside string string
  | Duplicate_program string
  | Program_error sig_error
  | Binding_outside string
  | Half_binding string
  | Unknown_program string string
  | Bad_link string int
  | Binding_without_programs string
  | Duplicate_index string int
  | Length_mismatch string string string
  | Unreadable string
  | Unknown_kind string
  | Negative_lanes int

subsection \<open>Lanes\<close>

fun mapE :: "('a \<Rightarrow> 'e + 'b) \<Rightarrow> 'a list \<Rightarrow> 'e + 'b list" where
  "mapE f [] = Inr []"
| "mapE f (x # xs) = bindE (f x) (\<lambda>y. bindE (mapE f xs) (\<lambda>ys. Inr (y # ys)))"

definition load_lane :: "nat \<Rightarrow> string list \<Rightarrow> NetLane \<Rightarrow> net_error + Lane" where
  "load_lane i seen nl =
     (if nl_ID nl = [] then Inl (Empty_lane_id i)
      else if nl_ID nl \<in> set seen then Inl (Duplicate_lane (nl_ID nl))
      else if fle (nl_Length nl) 0 then Inl (Bad_length (nl_ID nl) (nl_Length nl))
      else if fle (nl_SpeedLimit nl) 0 then Inl (Bad_limit (nl_ID nl) (nl_SpeedLimit nl))
      else if flt (nl_Width nl) 0 then Inl (Bad_width (nl_ID nl) (nl_Width nl))
      else Inr \<lparr>l_ID = nl_ID nl, l_Section = nl_Section nl, l_Length = nl_Length nl, l_SpeedLimit = nl_SpeedLimit nl,
        l_Successors = [], l_Prevs = [], l_Left = None, l_Right = None, l_Exit = nl_Exit nl, l_EndWall = nl_EndWall nl,
        l_Internal = nl_Internal nl, l_Row = RowNone, l_FoesCross = [], l_FoesMerge = [], l_Signal = None, l_LinkIdx = 0,
        l_ttEMA = 0\<rparr>)"

fun load_lanes :: "nat \<Rightarrow> string list \<Rightarrow> NetLane list \<Rightarrow> net_error + Lane list" where
  "load_lanes i seen [] = Inr []"
| "load_lanes i seen (nl # nls) =
     bindE (load_lane i seen nl) (\<lambda>l. bindE (load_lanes (Suc i) (nl_ID nl # seen) nls) (\<lambda>ls. Inr (l # ls)))"

definition lane_pos :: "NetLane list \<Rightarrow> string \<Rightarrow> nat option" where
  "lane_pos nls sid = find_index (\<lambda>nl. nl_ID nl = sid) nls"

definition find_successor :: "NetLane list \<Rightarrow> nat \<Rightarrow> string \<Rightarrow> net_error + nat" where
  "find_successor nls i sid =
     (case lane_pos nls sid of
        None \<Rightarrow> Inl (Unknown_successor (nl_ID (nls ! i)) sid)
      | Some k \<Rightarrow> if k = i then Inl (Self_successor (nl_ID (nls ! i))) else Inr k)"

text \<open>The end-of-lane contract.\<close>

definition end_contract :: "NetLane \<Rightarrow> bool \<Rightarrow> net_error + unit" where
  "end_contract nl ahead =
     (if ahead \<and> (nl_Exit nl \<or> nl_EndWall nl) then Inl (Successors_at_end (nl_ID nl))
      else if \<not> ahead \<and> \<not> nl_Exit nl \<and> \<not> nl_EndWall nl then Inl (Dangling (nl_ID nl))
      else if nl_Exit nl \<and> nl_EndWall nl then Inl (Exit_and_wall (nl_ID nl))
      else Inr ())"

definition link_lane :: "NetLane list \<Rightarrow> Lane list \<Rightarrow> nat \<Rightarrow> net_error + Lane" where
  "link_lane nls ls i =
     bindE (mapE (find_successor nls i) (nl_Successors (nls ! i))) (\<lambda>ks.
     bindE (end_contract (nls ! i) (ks \<noteq> [])) (\<lambda>_. Inr ((ls ! i)\<lparr>l_Successors := ks\<rparr>)))"

subsection \<open>Right of way\<close>

definition ParseRowState :: "string \<Rightarrow> RowState option" where
  "ParseRowState s =
     (if s = [] then Some RowNone else if s = ''major'' then Some RowMajor else if s = ''minor'' then Some RowMinor
      else if s = ''stop'' then Some RowStop else None)"

definition find_foe :: "NetLane list \<Rightarrow> nat \<Rightarrow> string \<Rightarrow> net_error + nat" where
  "find_foe nls i fid =
     (case lane_pos nls fid of
        None \<Rightarrow> Inl (Unknown_foe (nl_ID (nls ! i)) fid)
      | Some k \<Rightarrow> if \<not> nl_Internal (nls ! k) then Inl (Foe_outside (nl_ID (nls ! i)) fid) else Inr k)"

definition row_fields :: "NetLane \<Rightarrow> bool" where
  "row_fields nl \<longleftrightarrow> nl_Row nl \<noteq> [] \<or> nl_Junction nl \<noteq> [] \<or> nl_FoesCross nl \<noteq> [] \<or> nl_FoesMerge nl \<noteq> []"

definition row_lane :: "NetLane list \<Rightarrow> Lane list \<Rightarrow> nat \<Rightarrow> net_error + Lane" where
  "row_lane nls ls i =
     (let nl = nls ! i in
      case ParseRowState (nl_Row nl) of
        None \<Rightarrow> Inl (Unknown_row (nl_ID nl) (nl_Row nl))
      | Some row \<Rightarrow>
          if \<not> nl_Internal nl \<and> row_fields nl then Inl (Row_outside (nl_ID nl))
          else bindE (mapE (find_foe nls i) (nl_FoesCross nl)) (\<lambda>cross.
            bindE (mapE (find_foe nls i) (nl_FoesMerge nl)) (\<lambda>merge.
            Inr ((ls ! i)\<lparr>l_Row := row, l_FoesCross := cross, l_FoesMerge := merge\<rparr>))))"

subsection \<open>Signal programs\<close>

fun load_programs :: "string list \<Rightarrow> NetSignal list \<Rightarrow> net_error + SignalProgram list" where
  "load_programs seen [] = Inr []"
| "load_programs seen (ns # nss) =
     (if ns_ID ns \<in> set seen then Inl (Duplicate_program (ns_ID ns))
      else case newSignalProgram (ns_ID ns) (ns_Junction ns) (ns_Offset ns) (ns_Phases ns) of
          Inl e \<Rightarrow> Inl (Program_error e)
        | Inr p \<Rightarrow> bindE (load_programs (ns_ID ns # seen) nss) (\<lambda>ps. Inr (p # ps)))"

definition links_of :: "SignalProgram \<Rightarrow> nat" where "links_of p = length (ph_State (pg_Phases p ! 0))"

definition bind_lane :: "NetLane list \<Rightarrow> SignalProgram list \<Rightarrow> Lane list \<Rightarrow> nat \<Rightarrow> net_error + Lane" where
  "bind_lane nls ps ls i =
     (let nl = nls ! i in
      if nl_TL nl = [] \<and> nl_TLLink nl = None then Inr (ls ! i)
      else if \<not> nl_Internal nl then Inl (Binding_outside (nl_ID nl))
      else case nl_TLLink nl of
          None \<Rightarrow> Inl (Half_binding (nl_ID nl))
        | Some k \<Rightarrow>
            if nl_TL nl = [] then Inl (Half_binding (nl_ID nl))
            else (case find_index (\<lambda>p. pg_ID p = nl_TL nl) ps of
                None \<Rightarrow> Inl (Unknown_program (nl_ID nl) (nl_TL nl))
              | Some j \<Rightarrow>
                  if k < 0 \<or> int (links_of (ps ! j)) \<le> k then Inl (Bad_link (nl_ID nl) k)
                  else Inr ((ls ! i)\<lparr>l_Signal := Some j, l_LinkIdx := nat k\<rparr>)))"

definition no_binding :: "NetLane \<Rightarrow> net_error + unit" where
  "no_binding nl =
     (if nl_TL nl \<noteq> [] \<or> nl_TLLink nl \<noteq> None then Inl (Binding_without_programs (nl_ID nl)) else Inr ())"

definition load_signals :: "NetFile \<Rightarrow> Lane list \<Rightarrow> net_error + (SignalProgram list \<times> Lane list)" where
  "load_signals nf ls =
     (if nf_Signals nf \<noteq> [] then
        bindE (load_programs [] (nf_Signals nf)) (\<lambda>ps.
        bindE (mapE (bind_lane (nf_Lanes nf) ps ls) [0..<length (nf_Lanes nf)]) (\<lambda>ls'. Inr (ps, ls')))
      else bindE (mapE no_binding (nf_Lanes nf)) (\<lambda>_. Inr ([], ls)))"

subsection \<open>Lateral chains\<close>

text \<open>The lanes of an edge in the order of their index; the first index that repeats.\<close>

definition edge_lanes :: "NetLane list \<Rightarrow> string \<Rightarrow> nat list" where
  "edge_lanes nls e =
     stable_sort (\<lambda>a b. nl_EdgeIndex (nls ! a) < nl_EdgeIndex (nls ! b)) (filter (\<lambda>i. nl_Edge (nls ! i) = e) [0..<length nls])"

fun repeated :: "int list \<Rightarrow> int list \<Rightarrow> int option" where
  "repeated seen [] = None"
| "repeated seen (x # xs) = (if x \<in> set seen then Some x else repeated (x # seen) xs)"

definition join_lanes :: "nat \<Rightarrow> nat \<Rightarrow> Lane list \<Rightarrow> Lane list" where
  "join_lanes a b ls = (let ls1 = ls[a := (ls ! a)\<lparr>l_Left := Some b\<rparr>] in ls1[b := (ls1 ! b)\<lparr>l_Right := Some a\<rparr>])"

fun chain_lanes :: "NetLane list \<Rightarrow> nat list \<Rightarrow> Lane list \<Rightarrow> net_error + Lane list" where
  "chain_lanes nls (a # b # idxs) ls =
     (if nl_EdgeIndex (nls ! b) \<noteq> nl_EdgeIndex (nls ! a) + 1 then chain_lanes nls (b # idxs) ls
      else if \<not> feq (l_Length (ls ! a)) (l_Length (ls ! b))
      then Inl (Length_mismatch (nl_Edge (nls ! a)) (l_ID (ls ! a)) (l_ID (ls ! b)))
      else chain_lanes nls (b # idxs) (join_lanes a b ls))"
| "chain_lanes nls idxs ls = Inr ls"

definition chain_edge :: "NetLane list \<Rightarrow> Lane list \<Rightarrow> string \<Rightarrow> net_error + Lane list" where
  "chain_edge nls ls e =
     (case repeated [] (map (\<lambda>i. nl_EdgeIndex (nls ! i)) (edge_lanes nls e)) of
        Some x \<Rightarrow> Inl (Duplicate_index e x)
      | None \<Rightarrow> chain_lanes nls (edge_lanes nls e) ls)"

text \<open>Go visits the edges in an unspecified order; only the choice of the reported error depends on it.\<close>

definition edges_of :: "NetLane list \<Rightarrow> string list" where
  "edges_of nls = remdups (filter (\<lambda>e. e \<noteq> []) (map nl_Edge nls))"

fun chain_edges :: "NetLane list \<Rightarrow> string list \<Rightarrow> Lane list \<Rightarrow> net_error + Lane list" where
  "chain_edges nls [] ls = Inr ls"
| "chain_edges nls (e # es) ls = bindE (chain_edge nls ls e) (chain_edges nls es)"

subsection \<open>The network\<close>

definition add_prev :: "nat \<Rightarrow> Lane list \<Rightarrow> nat \<Rightarrow> Lane list" where
  "add_prev i ls s = ls[s := (ls ! s)\<lparr>l_Prevs := l_Prevs (ls ! s) @ [i]\<rparr>]"

definition prevs_from :: "Lane list \<Rightarrow> nat \<Rightarrow> Lane list" where
  "prevs_from ls i = foldl (add_prev i) ls (l_Successors (ls ! i))"

definition linkPrevs :: "Network \<Rightarrow> Network" where
  "linkPrevs n = n\<lparr>n_Lanes := foldl prevs_from (n_Lanes n) [0..<length (n_Lanes n)]\<rparr>"

definition CompileNet :: "NetFile \<Rightarrow> net_error + Network" where
  "CompileNet nf =
     (let nls = nf_Lanes nf; is = [0..<length nls] in
      if nf_Version nf \<noteq> 1 then Inl (Bad_version (nf_Version nf))
      else if nls = [] then Inl No_lanes
      else bindE (load_lanes 0 [] nls) (\<lambda>ls0.
        bindE (mapE (link_lane nls ls0) is) (\<lambda>ls1.
        bindE (mapE (row_lane nls ls1) is) (\<lambda>ls2.
        bindE (load_signals nf ls2) (\<lambda>(ps, ls3).
        bindE (chain_edges nls (edges_of nls) ls3) (\<lambda>ls4.
        Inr (linkPrevs \<lparr>n_Lanes = ls4, n_Origins = filter (\<lambda>i. nl_Origin (nls ! i)) is, n_Signals = ps\<rparr>)))))))"

subsection \<open>The built-in networks\<close>

record NetSpec =
  ne_Kind :: string
  ne_Path :: string
  ne_Length :: f64
  ne_SectionLen :: f64
  ne_SpeedLimit :: f64
  ne_DownstreamLimit :: f64
  ne_DropLanes :: int

definition plain_lane :: "string \<Rightarrow> string \<Rightarrow> f64 \<Rightarrow> f64 \<Rightarrow> Lane" where
  "plain_lane lid sec len lim =
     \<lparr>l_ID = lid, l_Section = sec, l_Length = len, l_SpeedLimit = lim, l_Successors = [], l_Prevs = [], l_Left = None,
      l_Right = None, l_Exit = False, l_EndWall = False, l_Internal = False, l_Row = RowNone, l_FoesCross = [],
      l_FoesMerge = [], l_Signal = None, l_LinkIdx = 0, l_ttEMA = 0\<rparr>"

definition f64_default :: "f64 \<Rightarrow> f64 \<Rightarrow> f64" where "f64_default d x = (if feq x 0 then d else x)"

definition ring_net :: "NetSpec \<Rightarrow> Network" where
  "ring_net sp =
     \<lparr>n_Lanes = [(plain_lane ''R0'' ''ring'' (f64_default (f64_lit 230 1) (ne_Length sp)) (f64_default (f64_lit 25 3) (ne_SpeedLimit sp)))
        \<lparr>l_Successors := [0]\<rparr>], n_Origins = [], n_Signals = []\<rparr>"

definition lanedrop_net :: "NetSpec \<Rightarrow> Network" where
  "lanedrop_net sp =
     (let sec = f64_default (f64_lit 600 1) (ne_SectionLen sp); limit = f64_default (f64_lit 333 10) (ne_SpeedLimit sp) in
      \<lparr>n_Lanes =
        [(plain_lane ''A0'' ''A'' sec limit)\<lparr>l_Successors := [3], l_Left := Some 1\<rparr>,
         (plain_lane ''A1'' ''A'' sec limit)\<lparr>l_Successors := [4], l_Left := Some 2, l_Right := Some 0\<rparr>,
         (plain_lane ''A2'' ''A'' sec limit)\<lparr>l_EndWall := True, l_Right := Some 1\<rparr>,
         (plain_lane ''B0'' ''B'' sec limit)\<lparr>l_Exit := True, l_Left := Some 4\<rparr>,
         (plain_lane ''B1'' ''B'' sec limit)\<lparr>l_Exit := True, l_Right := Some 3\<rparr>],
       n_Origins = [0, 1, 2], n_Signals = []\<rparr>)"

definition straight_net :: "NetSpec \<Rightarrow> Network" where
  "straight_net sp =
     \<lparr>n_Lanes = [(plain_lane ''S0'' ''main'' (f64_default (f64_lit 5000 1) (ne_Length sp)) (f64_default (f64_lit 333 10) (ne_SpeedLimit sp)))
        \<lparr>l_Exit := True\<rparr>], n_Origins = [0], n_Signals = []\<rparr>"

text \<open>
  The NGSIM I-80 network: runway \<open>U\<close> (0 to 5), section \<open>A\<close> (6 to 11), ramp 12, section \<open>B\<close> (13 to
  18), downstream \<open>D\<close> (from 19). The digit of a lane is one byte below eighty lanes.
\<close>

definition digit_id :: "char \<Rightarrow> nat \<Rightarrow> string" where "digit_id c i = [c, char_of (48 + i)]"

definition left_in :: "nat \<Rightarrow> nat \<Rightarrow> nat \<Rightarrow> nat option" where
  "left_in base n i = (if Suc i < n then Some (base + Suc i) else None)"

definition right_in :: "nat \<Rightarrow> nat \<Rightarrow> nat option" where
  "right_in base i = (if 0 < i then Some (base + (i - 1)) else None)"

definition i80_limit :: "NetSpec \<Rightarrow> f64" where "i80_limit sp = f64_default (f64_lit 290576 10000) (ne_SpeedLimit sp)"

definition i80_drop :: "NetSpec \<Rightarrow> int" where "i80_drop sp = (if ne_DropLanes sp = 0 then 4 else ne_DropLanes sp)"

definition i80_up :: "NetSpec \<Rightarrow> nat \<Rightarrow> Lane" where
  "i80_up sp i = (plain_lane (digit_id CHR ''U'' i) ''i80-up'' (f64_lit 600 1) (i80_limit sp))
     \<lparr>l_Successors := [6 + i], l_Left := left_in 0 6 i, l_Right := right_in 0 i\<rparr>"

definition i80_main :: "NetSpec \<Rightarrow> nat \<Rightarrow> Lane" where
  "i80_main sp i = (plain_lane (digit_id CHR ''A'' i) ''i80-main'' (f64_lit 21336 100) (i80_limit sp))
     \<lparr>l_Successors := [13 + i], l_Left := left_in 6 6 i, l_Right := (if i = 0 then Some 12 else right_in 6 i)\<rparr>"

definition i80_ramp :: "NetSpec \<Rightarrow> Lane" where
  "i80_ramp sp = (plain_lane ''AR'' ''i80-main'' (f64_lit 21336 100) (i80_limit sp))\<lparr>l_EndWall := True, l_Left := Some 6\<rparr>"

definition i80_section :: "NetSpec \<Rightarrow> nat \<Rightarrow> Lane" where
  "i80_section sp i = (plain_lane (digit_id CHR ''B'' i) ''i80-main'' (f64_lit 3325368 10000) (i80_limit sp))
     \<lparr>l_Successors := (if int i < i80_drop sp then [19 + i] else []), l_EndWall := (i80_drop sp \<le> int i),
       l_Left := left_in 13 6 i, l_Right := right_in 13 i\<rparr>"

definition i80_down :: "NetSpec \<Rightarrow> nat \<Rightarrow> Lane" where
  "i80_down sp i = (plain_lane (digit_id CHR ''D'' i) ''i80-down'' (f64_lit 800 1) (f64_default (i80_limit sp) (ne_DownstreamLimit sp)))
     \<lparr>l_Exit := True, l_Left := left_in 19 (nat (i80_drop sp)) i, l_Right := right_in 19 i\<rparr>"

definition buildI80Net :: "NetSpec \<Rightarrow> net_error + Network" where
  "buildI80Net sp =
     (if i80_drop sp < 0 then Inl (Negative_lanes (i80_drop sp))
      else Inr \<lparr>n_Lanes = map (i80_up sp) [0..<6] @ map (i80_main sp) [0..<6] @ [i80_ramp sp] @ map (i80_section sp) [0..<6] @
          map (i80_down sp) [0..<nat (i80_drop sp)],
        n_Origins = [0..<6] @ [12], n_Signals = []\<rparr>)"

text \<open>\<open>files\<close> reads and decodes a network file; \<open>None\<close> is an error of either.\<close>

definition LoadNetFile :: "(string \<Rightarrow> NetFile option) \<Rightarrow> string \<Rightarrow> net_error + Network" where
  "LoadNetFile files path = (case files path of None \<Rightarrow> Inl (Unreadable path) | Some nf \<Rightarrow> CompileNet nf)"

definition BuildNet :: "(string \<Rightarrow> NetFile option) \<Rightarrow> NetSpec \<Rightarrow> net_error + Network" where
  "BuildNet files sp =
     bindE (if ne_Kind sp = ''ring'' then Inr (ring_net sp)
            else if ne_Kind sp = ''lanedrop'' then Inr (lanedrop_net sp)
            else if ne_Kind sp = ''straight'' then Inr (straight_net sp)
            else if ne_Kind sp = ''i80'' then buildI80Net sp
            else if ne_Kind sp = ''file'' then LoadNetFile files (ne_Path sp)
            else Inl (Unknown_kind (ne_Kind sp))) (\<lambda>n. Inr (linkPrevs n))"

end
