(* ===== verification/NetfileClaims.thy ===== *)
theory NetfileClaims
  imports Netfile LatDepth
begin

text \<open>
  Compiling a network file: which files are accepted, and what the kernel may rely on in a network
  that was built.
\<close>

section \<open>Passes over the lanes\<close>

lemma mapE_Inr: "mapE f xs = Inr ys \<longleftrightarrow> list_all2 (\<lambda>x y. f x = Inr y) xs ys"
proof (induction xs arbitrary: ys)
  case (Cons x xs)
  then show ?case by (cases ys) (auto simp: bindE_Inr_iff)
qed auto


lemma mapE_set: "mapE f xs = Inr ys \<Longrightarrow> y \<in> set ys \<Longrightarrow> \<exists>x \<in> set xs. f x = Inr y"
  by (induction xs arbitrary: ys) (auto simp: bindE_Inr_iff)

lemma mapE_nth:
  assumes "mapE f [0..<n] = Inr ys"
  shows "length ys = n" and "i < n \<Longrightarrow> f i = Inr (ys ! i)"
  using assms by (auto simp: mapE_Inr list_all2_conv_all_nth)

lemma lane_pos_Some:
  assumes "lane_pos nls sid = Some k"
  shows "k < length nls" and "nl_ID (nls ! k) = sid"
  using assms by (auto simp: lane_pos_def find_index_Some_iff)



section \<open>Loading\<close>

text \<open>What the lanes keep of the file through all passes.\<close>

definition framed :: "NetLane list \<Rightarrow> Lane list \<Rightarrow> bool" where
  "framed nls ls \<longleftrightarrow> list_all2 (\<lambda>nl l. l_ID l = nl_ID nl \<and> l_Length l = nl_Length nl \<and> l_SpeedLimit l = nl_SpeedLimit nl \<and>
     l_Exit l = nl_Exit nl \<and> l_EndWall l = nl_EndWall nl \<and> l_Internal l = nl_Internal nl) nls ls"

lemma framedD:
  assumes "framed nls ls"
  shows "length ls = length nls"
    and "i < length nls \<Longrightarrow> l_ID (ls ! i) = nl_ID (nls ! i) \<and> l_Length (ls ! i) = nl_Length (nls ! i) \<and>
      l_SpeedLimit (ls ! i) = nl_SpeedLimit (nls ! i) \<and> l_Exit (ls ! i) = nl_Exit (nls ! i) \<and>
      l_EndWall (ls ! i) = nl_EndWall (nls ! i) \<and> l_Internal (ls ! i) = nl_Internal (nls ! i)"
  using assms by (auto simp: framed_def list_all2_conv_all_nth)

lemma framedI:
  assumes "length ls = length nls"
    and "\<And>i. i < length nls \<Longrightarrow> l_ID (ls ! i) = nl_ID (nls ! i) \<and> l_Length (ls ! i) = nl_Length (nls ! i) \<and>
      l_SpeedLimit (ls ! i) = nl_SpeedLimit (nls ! i) \<and> l_Exit (ls ! i) = nl_Exit (nls ! i) \<and>
      l_EndWall (ls ! i) = nl_EndWall (nls ! i) \<and> l_Internal (ls ! i) = nl_Internal (nls ! i)"
  shows "framed nls ls"
  using assms by (simp add: framed_def list_all2_conv_all_nth)

definition lane_valid :: "NetLane \<Rightarrow> bool" where
  "lane_valid nl \<longleftrightarrow> nl_ID nl \<noteq> [] \<and> \<not> fle (nl_Length nl) 0 \<and> \<not> fle (nl_SpeedLimit nl) 0 \<and> \<not> flt (nl_Width nl) 0"

definition blank :: "Lane \<Rightarrow> bool" where
  "blank l \<longleftrightarrow> l_Successors l = [] \<and> l_Prevs l = [] \<and> l_Left l = None \<and> l_Right l = None \<and> l_Row l = RowNone \<and>
     l_FoesCross l = [] \<and> l_FoesMerge l = [] \<and> l_Signal l = None"

lemma load_lane_Inr:
  "load_lane i seen nl = Inr l \<Longrightarrow> lane_valid nl \<and> nl_ID nl \<notin> set seen \<and> framed [nl] [l] \<and> blank l"
  by (auto simp: load_lane_def lane_valid_def framed_def blank_def split: if_splits)

lemma load_lanes_Inr:
  "load_lanes i seen nls = Inr ls \<Longrightarrow> framed nls ls \<and> list_all blank ls \<and> list_all lane_valid nls \<and>
     distinct (map nl_ID nls) \<and> set (map nl_ID nls) \<inter> set seen = {}"
proof (induction i seen nls arbitrary: ls rule: load_lanes.induct)
  case (2 i seen nl nls)
  then obtain l ls' where s: "load_lane i seen nl = Inr l" "load_lanes (Suc i) (nl_ID nl # seen) nls = Inr ls'" "ls = l # ls'"
    by (auto simp: bindE_Inr_iff)
  from 2(1) [OF s(2)] load_lane_Inr [OF s(1)] show ?case using s(3) by (auto simp: framed_def)
qed (simp add: framed_def)


section \<open>Successors and the end of a lane\<close>

definition ends_well :: "bool \<Rightarrow> bool \<Rightarrow> bool \<Rightarrow> bool" where
  "ends_well ahead exit wall \<longleftrightarrow> ahead \<and> \<not> exit \<and> \<not> wall \<or> \<not> ahead \<and> exit \<noteq> wall"

lemma end_contract_Inr: "end_contract nl ahead = Inr u \<longleftrightarrow> ends_well ahead (nl_Exit nl) (nl_EndWall nl)"
  by (auto simp: end_contract_def ends_well_def)


lemma find_successor_Inr:
  assumes "find_successor nls i sid = Inr k"
  shows "k < length nls" and "nl_ID (nls ! k) = sid" and "k \<noteq> i"
  using assms lane_pos_Some [of nls sid] by (auto simp: find_successor_def split: option.splits if_splits)


lemma mapE_empty: "mapE f xs = Inr ys \<Longrightarrow> ys = [] \<longleftrightarrow> xs = []"
  by (cases xs) (auto simp: bindE_Inr_iff)


lemma link_lane_Inr:
  assumes "link_lane nls ls i = Inr l"
  obtains ks where "l = (ls ! i)\<lparr>l_Successors := ks\<rparr>" and "\<forall>k \<in> set ks. k < length nls \<and> k \<noteq> i"
    and "map (\<lambda>k. nl_ID (nls ! k)) ks = nl_Successors (nls ! i)"
    and "ends_well (ks \<noteq> []) (nl_Exit (nls ! i)) (nl_EndWall (nls ! i))"
proof -
  from assms obtain ks where ks: "mapE (find_successor nls i) (nl_Successors (nls ! i)) = Inr ks" "l = (ls ! i)\<lparr>l_Successors := ks\<rparr>"
    "ends_well (ks \<noteq> []) (nl_Exit (nls ! i)) (nl_EndWall (nls ! i))"
    by (auto simp: link_lane_def bindE_Inr_iff end_contract_Inr)
  have "\<forall>k \<in> set ks. k < length nls \<and> k \<noteq> i" using mapE_set [OF ks(1)] find_successor_Inr [of nls i] by blast
  moreover have "map (\<lambda>k. nl_ID (nls ! k)) ks = nl_Successors (nls ! i)"
    using ks(1) find_successor_Inr(2) [of nls i] by (auto simp: mapE_Inr list_all2_conv_all_nth intro!: nth_equalityI)
  ultimately show thesis using that ks(2,3) by blast
qed

section \<open>Right of way\<close>


lemma find_foe_Inr:
  assumes "find_foe nls i fid = Inr k"
  shows "k < length nls" and "nl_Internal (nls ! k)"
  using assms lane_pos_Some [of nls fid] by (auto simp: find_foe_def split: option.splits if_splits)




lemma row_lane_Inr:
  assumes "row_lane nls ls i = Inr l"
  obtains row c m where "l = (ls ! i)\<lparr>l_Row := row, l_FoesCross := c, l_FoesMerge := m\<rparr>"
    and "\<forall>k \<in> set c \<union> set m. k < length nls \<and> nl_Internal (nls ! k)"
    and "row \<noteq> RowNone \<or> c \<noteq> [] \<or> m \<noteq> [] \<Longrightarrow> nl_Internal (nls ! i)"
proof -
  from assms obtain row c m where l: "l = (ls ! i)\<lparr>l_Row := row, l_FoesCross := c, l_FoesMerge := m\<rparr>"
    and r: "ParseRowState (nl_Row (nls ! i)) = Some row" and i: "nl_Internal (nls ! i) \<or> \<not> row_fields (nls ! i)"
    and c: "mapE (find_foe nls i) (nl_FoesCross (nls ! i)) = Inr c" and m: "mapE (find_foe nls i) (nl_FoesMerge (nls ! i)) = Inr m"
    by (auto simp: row_lane_def Let_def bindE_Inr_iff split: option.splits if_splits)
  have "\<forall>k \<in> set c \<union> set m. k < length nls \<and> nl_Internal (nls ! k)"
    using mapE_set [OF c] mapE_set [OF m] find_foe_Inr [of nls i] by blast
  moreover have "nl_Internal (nls ! i)" if "row \<noteq> RowNone \<or> c \<noteq> [] \<or> m \<noteq> []"
    using that i r mapE_empty [OF c] mapE_empty [OF m] by (auto simp: row_fields_def ParseRowState_def)
  ultimately show thesis using that l by blast
qed

section \<open>Signal programs\<close>










lemma bind_lane_Inr:
  assumes "bind_lane nls ps ls i = Inr l"
  shows "l = ls ! i \<or> (\<exists>j k. l = (ls ! i)\<lparr>l_Signal := Some j, l_LinkIdx := k\<rparr> \<and> j < length ps \<and> k < links_of (ps ! j) \<and>
    nl_Internal (nls ! i))"
proof (cases "nl_TL (nls ! i) = [] \<and> nl_TLLink (nls ! i) = None")
  case True
  then show ?thesis using assms by (simp add: bind_lane_def Let_def)
next
  case False
  then obtain j k where j: "find_index (\<lambda>p. pg_ID p = nl_TL (nls ! i)) ps = Some j" and k: "0 \<le> k" "k < int (links_of (ps ! j))"
    and l: "l = (ls ! i)\<lparr>l_Signal := Some j, l_LinkIdx := nat k\<rparr>" "nl_Internal (nls ! i)"
    using assms unfolding bind_lane_def Let_def by (simp add: not_less not_le split: if_splits option.splits) blast
  have "nat k < links_of (ps ! j)" using k by linarith
  then show ?thesis using l find_index_bound [OF j] by blast
qed




section \<open>Lateral chains\<close>

text \<open>Lane \<open>b\<close> is the next lane to the left of lane \<open>a\<close> on its edge.\<close>

definition beside :: "NetLane list \<Rightarrow> nat \<Rightarrow> nat \<Rightarrow> bool" where
  "beside nls a b \<longleftrightarrow> nl_Edge (nls ! a) = nl_Edge (nls ! b) \<and> nl_EdgeIndex (nls ! b) = nl_EdgeIndex (nls ! a) + 1"

interpretation edge_order: strict_weak "\<lambda>a b. nl_EdgeIndex (nls ! a) < nl_EdgeIndex (nls ! b)" for nls :: "NetLane list"
  by unfold_locales auto

lemma set_edge_lanes: "set (edge_lanes nls e) = {i. i < length nls \<and> nl_Edge (nls ! i) = e}"
  by (auto simp: edge_lanes_def)

lemma repeated_None: "repeated seen xs = None \<longleftrightarrow> distinct xs \<and> set xs \<inter> set seen = {}"
  by (induction seen xs rule: repeated.induct) auto

definition rising :: "NetLane list \<Rightarrow> nat list \<Rightarrow> bool" where
  "rising nls idxs \<longleftrightarrow> sorted_wrt (\<lambda>a b. nl_EdgeIndex (nls ! a) < nl_EdgeIndex (nls ! b)) idxs"

lemma edge_lanes_rising:
  assumes "distinct (map (\<lambda>i. nl_EdgeIndex (nls ! i)) (edge_lanes nls e))"
  shows "rising nls (edge_lanes nls e)"
proof -
  have "sorted_wrt (\<lambda>a b. nl_EdgeIndex (nls ! a) \<le> nl_EdgeIndex (nls ! b)) (edge_lanes nls e)"
    using edge_order.sorted_stable [of nls] by (simp add: edge_lanes_def not_less)
  moreover have "rising nls idxs"
    if "sorted_wrt (\<lambda>a b. nl_EdgeIndex (nls ! a) \<le> nl_EdgeIndex (nls ! b)) idxs" "distinct (map (\<lambda>i. nl_EdgeIndex (nls ! i)) idxs)" for idxs
    using that by (induction idxs) (auto simp: rising_def order_le_less)
  ultimately show ?thesis using assms by blast
qed

text \<open>Lanes that agree but for their lateral links.\<close>

definition same_but_sides :: "Lane list \<Rightarrow> Lane list \<Rightarrow> bool" where
  "same_but_sides ls ls' \<longleftrightarrow> list_all2 (\<lambda>l l'. l'\<lparr>l_Left := None, l_Right := None\<rparr> = l\<lparr>l_Left := None, l_Right := None\<rparr>) ls ls'"

lemma same_but_sides_refl [simp]: "same_but_sides ls ls"
  by (simp add: same_but_sides_def list_all2_refl)

lemma same_but_sides_trans: "same_but_sides a b \<Longrightarrow> same_but_sides b c \<Longrightarrow> same_but_sides a c"
  by (simp add: same_but_sides_def list_all2_conv_all_nth)

lemma same_but_sidesD:
  assumes "same_but_sides ls ls'"
  shows "length ls' = length ls"
    and "i < length ls \<Longrightarrow> ls' ! i = (ls ! i)\<lparr>l_Left := l_Left (ls' ! i), l_Right := l_Right (ls' ! i)\<rparr>"
proof -
  show "length ls' = length ls" using assms by (simp add: same_but_sides_def list_all2_lengthD)
  assume "i < length ls"
  then have "(ls' ! i)\<lparr>l_Left := None, l_Right := None\<rparr> = (ls ! i)\<lparr>l_Left := None, l_Right := None\<rparr>"
    using assms by (simp add: same_but_sides_def list_all2_conv_all_nth)
  then show "ls' ! i = (ls ! i)\<lparr>l_Left := l_Left (ls' ! i), l_Right := l_Right (ls' ! i)\<rparr>"
    by (cases "ls ! i"; cases "ls' ! i") simp
qed

lemma join_same [simp]: "same_but_sides ls (join_lanes a b ls)"
proof -
  have "(join_lanes a b ls ! i)\<lparr>l_Left := None, l_Right := None\<rparr> = (ls ! i)\<lparr>l_Left := None, l_Right := None\<rparr>" if "i < length ls" for i
    using that by (cases "i = a"; cases "i = b") (auto simp: join_lanes_def Let_def)
  then show ?thesis by (simp add: same_but_sides_def list_all2_conv_all_nth) (simp add: join_lanes_def Let_def)
qed

lemma join_sides:
  assumes "a < length ls" and "b < length ls" and "a \<noteq> b"
  shows "l_Left (join_lanes a b ls ! i) = (if i = a then Some b else l_Left (ls ! i))"
    and "l_Right (join_lanes a b ls ! i) = (if i = b then Some a else l_Right (ls ! i))"
  using assms by (auto simp: join_lanes_def Let_def nth_list_update)

lemma chain_lanes_same: "chain_lanes nls idxs ls = Inr ls' \<Longrightarrow> same_but_sides ls ls'"
  by (induction nls idxs ls rule: chain_lanes.induct)
    (auto split: if_splits intro: same_but_sides_trans [OF join_same])

text \<open>The step of the induction over a rising list: the lane after the first is the only one beside it.\<close>

lemma rising_step:
  assumes "rising nls (a # b # idxs)"
  shows "rising nls (b # idxs)" and "a \<notin> set (b # idxs)"
    and "x \<in> set (b # idxs) \<Longrightarrow> nl_EdgeIndex (nls ! a) \<noteq> nl_EdgeIndex (nls ! x) + 1"
    and "x \<in> set (b # idxs) \<Longrightarrow> nl_EdgeIndex (nls ! b) \<noteq> nl_EdgeIndex (nls ! x) + 1"
    and "x \<in> set idxs \<Longrightarrow> nl_EdgeIndex (nls ! x) \<noteq> nl_EdgeIndex (nls ! a) + 1"
  using assms by (auto simp: rising_def)

lemma chain_lanes_links:
  assumes "chain_lanes nls idxs ls = Inr ls'" and "rising nls idxs" and "set idxs \<subseteq> {..<length ls}"
  shows "(\<forall>a \<in> set idxs. \<forall>b \<in> set idxs. nl_EdgeIndex (nls ! b) = nl_EdgeIndex (nls ! a) + 1 \<longrightarrow>
        l_Left (ls' ! a) = Some b \<and> l_Right (ls' ! b) = Some a) \<and>
      (\<forall>a. (a \<notin> set idxs \<or> (\<forall>b \<in> set idxs. nl_EdgeIndex (nls ! b) \<noteq> nl_EdgeIndex (nls ! a) + 1)) \<longrightarrow> l_Left (ls' ! a) = l_Left (ls ! a)) \<and>
      (\<forall>b. (b \<notin> set idxs \<or> (\<forall>a \<in> set idxs. nl_EdgeIndex (nls ! b) \<noteq> nl_EdgeIndex (nls ! a) + 1)) \<longrightarrow> l_Right (ls' ! b) = l_Right (ls ! b))"
  using assms
proof (induction nls idxs ls rule: chain_lanes.induct)
  case (1 nls a b idxs ls)
  note st = rising_step [OF 1(4)]
  show ?case
  proof (cases "nl_EdgeIndex (nls ! b) = nl_EdgeIndex (nls ! a) + 1")
    case False
    then have "chain_lanes nls (b # idxs) ls = Inr ls'" using 1(3) by simp
    from 1(1) [OF False this st(1)] 1(5) show ?thesis using False st(3,5) by auto
  next
    case True
    then have f: "feq (l_Length (ls ! a)) (l_Length (ls ! b))" and c: "chain_lanes nls (b # idxs) (join_lanes a b ls) = Inr ls'"
      using 1(3) by (auto split: if_splits)
    have ab: "a < length ls" "b < length ls" "a \<noteq> b" using 1(5) st(2) by auto
    have "length (join_lanes a b ls) = length ls" by (simp add: join_lanes_def Let_def)
    with 1(2) [OF _ _ c st(1)] True f 1(5)
    have ih: "(\<forall>x \<in> set (b # idxs). \<forall>y \<in> set (b # idxs). nl_EdgeIndex (nls ! y) = nl_EdgeIndex (nls ! x) + 1 \<longrightarrow>
        l_Left (ls' ! x) = Some y \<and> l_Right (ls' ! y) = Some x)"
      "(\<forall>x. (x \<notin> set (b # idxs) \<or> (\<forall>y \<in> set (b # idxs). nl_EdgeIndex (nls ! y) \<noteq> nl_EdgeIndex (nls ! x) + 1)) \<longrightarrow>
        l_Left (ls' ! x) = l_Left (join_lanes a b ls ! x))"
      "(\<forall>y. (y \<notin> set (b # idxs) \<or> (\<forall>x \<in> set (b # idxs). nl_EdgeIndex (nls ! y) \<noteq> nl_EdgeIndex (nls ! x) + 1)) \<longrightarrow>
        l_Right (ls' ! y) = l_Right (join_lanes a b ls ! y))"
      by auto
    have "l_Left (ls' ! a) = Some b" "l_Right (ls' ! b) = Some a"
      using ih(2,3) st(2,4) join_sides [OF ab] by auto
    then show ?thesis using ih st(3,5) join_sides [OF ab] True by auto
  qed
qed (auto simp: rising_def)


section \<open>All edges\<close>

definition joined :: "NetLane list \<Rightarrow> string set \<Rightarrow> nat \<Rightarrow> nat \<Rightarrow> bool" where
  "joined nls E a b \<longleftrightarrow> a < length nls \<and> b < length nls \<and> nl_Edge (nls ! a) \<in> E \<and> beside nls a b"

lemma same_framed: "same_but_sides ls ls' \<Longrightarrow> framed nls ls \<Longrightarrow> framed nls ls'"
proof (rule framedI)
  assume s: "same_but_sides ls ls'" and f: "framed nls ls"
  show "length ls' = length nls" using same_but_sidesD(1) [OF s] framedD(1) [OF f] by simp
  fix i assume i: "i < length nls"
  then have e: "ls' ! i = (ls ! i)\<lparr>l_Left := l_Left (ls' ! i), l_Right := l_Right (ls' ! i)\<rparr>"
    using same_but_sidesD(2) [OF s] framedD(1) [OF f] by simp
  show "l_ID (ls' ! i) = nl_ID (nls ! i) \<and> l_Length (ls' ! i) = nl_Length (nls ! i) \<and>
    l_SpeedLimit (ls' ! i) = nl_SpeedLimit (nls ! i) \<and> l_Exit (ls' ! i) = nl_Exit (nls ! i) \<and>
    l_EndWall (ls' ! i) = nl_EndWall (nls ! i) \<and> l_Internal (ls' ! i) = nl_Internal (nls ! i)"
    using framedD(2) [OF f i] by (subst (1 2 3 4 5 6) e) simp
qed

lemma chain_edge_Inr:
  assumes "chain_edge nls ls e = Inr ls'" and "length ls = length nls"
  shows "same_but_sides ls ls'"
    and "joined nls {e} a b \<Longrightarrow> l_Left (ls' ! a) = Some b \<and> l_Right (ls' ! b) = Some a"
    and "\<not> (\<exists>b. joined nls {e} a b) \<Longrightarrow> l_Left (ls' ! a) = l_Left (ls ! a)"
    and "\<not> (\<exists>a. joined nls {e} a b) \<Longrightarrow> l_Right (ls' ! b) = l_Right (ls ! b)"
proof -
  from assms(1) have c: "chain_lanes nls (edge_lanes nls e) ls = Inr ls'"
    and d: "distinct (map (\<lambda>i. nl_EdgeIndex (nls ! i)) (edge_lanes nls e))"
    by (auto simp: chain_edge_def repeated_None split: option.splits)
  show "same_but_sides ls ls'" using chain_lanes_same [OF c] .
  have "set (edge_lanes nls e) \<subseteq> {..<length ls}" using assms(2) by (auto simp: set_edge_lanes)
  note l = chain_lanes_links [OF c edge_lanes_rising [OF d] this]
  show "joined nls {e} a b \<Longrightarrow> l_Left (ls' ! a) = Some b \<and> l_Right (ls' ! b) = Some a"
    using l by (auto simp: joined_def beside_def set_edge_lanes)
  show "\<not> (\<exists>b. joined nls {e} a b) \<Longrightarrow> l_Left (ls' ! a) = l_Left (ls ! a)"
    using l by (auto simp: joined_def beside_def set_edge_lanes)
  show "\<not> (\<exists>a. joined nls {e} a b) \<Longrightarrow> l_Right (ls' ! b) = l_Right (ls ! b)"
    using l by (auto simp: joined_def beside_def set_edge_lanes)
qed




lemma joined_mono: "joined nls E a b \<longleftrightarrow> (\<exists>e \<in> E. joined nls {e} a b)"
  by (auto simp: joined_def)

lemma joined_other: "joined nls {e} a b \<Longrightarrow> e' \<noteq> e \<Longrightarrow> \<not> joined nls {e'} a c \<and> \<not> joined nls {e'} c b"
  by (auto simp: joined_def beside_def)

lemma chain_edges_Inr:
  "chain_edges nls es ls = Inr ls' \<Longrightarrow> distinct es \<Longrightarrow> length ls = length nls \<Longrightarrow>
     same_but_sides ls ls' \<and>
     (\<forall>a b. joined nls (set es) a b \<longrightarrow> l_Left (ls' ! a) = Some b \<and> l_Right (ls' ! b) = Some a) \<and>
     (\<forall>a. \<not> (\<exists>b. joined nls (set es) a b) \<longrightarrow> l_Left (ls' ! a) = l_Left (ls ! a)) \<and>
     (\<forall>b. \<not> (\<exists>a. joined nls (set es) a b) \<longrightarrow> l_Right (ls' ! b) = l_Right (ls ! b))"
proof (induction es arbitrary: ls)
  case Nil
  then show ?case by (simp add: joined_def)
next
  case (Cons e es)
  then obtain ls1 where s: "chain_edge nls ls e = Inr ls1" "chain_edges nls es ls1 = Inr ls'"
    by (auto simp: bindE_Inr_iff)
  note c = chain_edge_Inr [OF s(1) Cons.prems(3)]
  have len: "length ls1 = length nls" using same_but_sidesD(1) [OF c(1)] Cons.prems(3) by simp
  have d: "distinct es" using Cons.prems(2) by simp
  note ih = Cons.IH [OF s(2) d len]
  have j: "joined nls (set (e # es)) a b \<longleftrightarrow> joined nls {e} a b \<or> joined nls (set es) a b" for a b
    by (auto simp: joined_def)
  have o: "\<not> joined nls (set es) a c \<and> \<not> joined nls (set es) c b" if "joined nls {e} a b" for a b c
    using that Cons.prems(2) joined_mono [of nls "set es"] joined_other [OF that] by (auto simp: joined_def beside_def)
  have "same_but_sides ls ls'" using c(1) ih same_but_sides_trans by blast
  moreover have "l_Left (ls' ! a) = Some b \<and> l_Right (ls' ! b) = Some a" if "joined nls {e} a b" for a b
    using ih o [OF that] c(2) [OF that] by auto
  moreover have "l_Left (ls' ! a) = l_Left (ls ! a)" if "\<not> (\<exists>b. joined nls (set (e # es)) a b)" for a
    using ih c(3) [of a] that j by auto
  moreover have "l_Right (ls' ! b) = l_Right (ls ! b)" if "\<not> (\<exists>a. joined nls (set (e # es)) a b)" for b
    using ih c(4) [of b] that j by auto
  ultimately show ?case using ih j by blast
qed


section \<open>Predecessors\<close>

lemma add_prev_nth:
  "length (add_prev i ls s) = length ls"
  "u < length ls \<Longrightarrow> add_prev i ls s ! u = (ls ! u)\<lparr>l_Prevs := l_Prevs (ls ! u) @ (if s = u then [i] else [])\<rparr>"
  by (auto simp: add_prev_def nth_list_update)

lemma add_prevs_nth:
  "length (foldl (add_prev i) ls ss) = length ls"
  "u < length ls \<Longrightarrow> foldl (add_prev i) ls ss ! u = (ls ! u)\<lparr>l_Prevs := l_Prevs (ls ! u) @ map (\<lambda>_. i) (filter (\<lambda>s. s = u) ss)\<rparr>"
  by (induction ss arbitrary: ls) (simp_all add: add_prev_nth)

lemma prevs_from_length: "length (prevs_from ls i) = length ls" "length (foldl prevs_from ls is) = length ls"
  by (induction "is" arbitrary: ls) (simp_all add: prevs_from_def add_prevs_nth)

lemma prevs_from_succ: "k < length ls \<Longrightarrow> l_Successors (prevs_from ls i ! k) = l_Successors (ls ! k)"
  by (simp add: prevs_from_def add_prevs_nth)

lemma prevs_from_nth:
  "u < length ls \<Longrightarrow> set is \<subseteq> {..<length ls} \<Longrightarrow> foldl prevs_from ls is ! u =
     (ls ! u)\<lparr>l_Prevs := l_Prevs (ls ! u) @ concat (map (\<lambda>i. map (\<lambda>_. i) (filter (\<lambda>s. s = u) (l_Successors (ls ! i)))) is)\<rparr>"
proof (induction "is" arbitrary: ls)
  case (Cons i "is")
  have m: "map (\<lambda>j. map (\<lambda>_. j) (filter (\<lambda>s. s = u) (l_Successors (prevs_from ls i ! j)))) is =
      map (\<lambda>j. map (\<lambda>_. j) (filter (\<lambda>s. s = u) (l_Successors (ls ! j)))) is"
    using Cons.prems(2) prevs_from_succ [of _ ls i] by auto
  have p: "prevs_from ls i ! u = (ls ! u)\<lparr>l_Prevs := l_Prevs (ls ! u) @ map (\<lambda>_. i) (filter (\<lambda>s. s = u) (l_Successors (ls ! i)))\<rparr>"
    using Cons.prems(1) by (simp add: prevs_from_def add_prevs_nth)
  have "u < length (prevs_from ls i)" "set is \<subseteq> {..<length (prevs_from ls i)}"
    using Cons.prems by (simp_all add: prevs_from_length)
  from Cons.IH [OF this] show ?case unfolding m p by simp
qed simp

lemma linkPrevs_nth:
  assumes "u < length (n_Lanes n)"
  shows "n_Lanes (linkPrevs n) ! u = (n_Lanes n ! u)\<lparr>l_Prevs := l_Prevs (n_Lanes n ! u) @ routePreds n ! u\<rparr>"
  using prevs_from_nth [OF assms, of "[0..<length (n_Lanes n)]"] assms
  by (simp add: linkPrevs_def routePreds_def lessThan_atLeast0)

lemma linkPrevs_other [simp]:
  "length (n_Lanes (linkPrevs n)) = length (n_Lanes n)" "n_Origins (linkPrevs n) = n_Origins n" "n_Signals (linkPrevs n) = n_Signals n"
  by (simp_all add: linkPrevs_def prevs_from_length)

section \<open>Which files are accepted\<close>


lemma updated_framed:
  assumes "framed nls ls" and "mapE f [0..<length nls] = Inr ls'"
    and "\<And>i. i < length nls \<Longrightarrow> \<exists>g. ls' ! i = g (ls ! i) \<and> (\<forall>l. l_ID (g l) = l_ID l \<and> l_Length (g l) = l_Length l \<and>
      l_SpeedLimit (g l) = l_SpeedLimit l \<and> l_Exit (g l) = l_Exit l \<and> l_EndWall (g l) = l_EndWall l \<and> l_Internal (g l) = l_Internal l)"
  shows "framed nls ls'"
proof (rule framedI)
  show "length ls' = length nls" using mapE_nth(1) [OF assms(2)] .
  fix i assume i: "i < length nls"
  obtain g where "ls' ! i = g (ls ! i)" "\<forall>l. l_ID (g l) = l_ID l \<and> l_Length (g l) = l_Length l \<and>
      l_SpeedLimit (g l) = l_SpeedLimit l \<and> l_Exit (g l) = l_Exit l \<and> l_EndWall (g l) = l_EndWall l \<and> l_Internal (g l) = l_Internal l"
    using assms(3) [OF i] by blast
  then show "l_ID (ls' ! i) = nl_ID (nls ! i) \<and> l_Length (ls' ! i) = nl_Length (nls ! i) \<and>
    l_SpeedLimit (ls' ! i) = nl_SpeedLimit (nls ! i) \<and> l_Exit (ls' ! i) = nl_Exit (nls ! i) \<and>
    l_EndWall (ls' ! i) = nl_EndWall (nls ! i) \<and> l_Internal (ls' ! i) = nl_Internal (nls ! i)"
    using framedD(2) [OF assms(1) i] by simp
qed

lemma linked_framed:
  assumes "framed nls ls" and "mapE (link_lane nls ls) [0..<length nls] = Inr ls'"
  shows "framed nls ls'"
proof (rule updated_framed [OF assms])
  fix i assume "i < length nls"
  then have "link_lane nls ls i = Inr (ls' ! i)" using mapE_nth(2) [OF assms(2)] by blast
  then obtain ks where "ls' ! i = (ls ! i)\<lparr>l_Successors := ks\<rparr>" using link_lane_Inr by blast
  then show "\<exists>g. ls' ! i = g (ls ! i) \<and> (\<forall>l. l_ID (g l) = l_ID l \<and> l_Length (g l) = l_Length l \<and>
      l_SpeedLimit (g l) = l_SpeedLimit l \<and> l_Exit (g l) = l_Exit l \<and> l_EndWall (g l) = l_EndWall l \<and> l_Internal (g l) = l_Internal l)"
    by (intro exI [of _ "\<lambda>l. l\<lparr>l_Successors := ks\<rparr>"]) simp
qed

lemma rowed_framed:
  assumes "framed nls ls" and "mapE (row_lane nls ls) [0..<length nls] = Inr ls'"
  shows "framed nls ls'"
proof (rule updated_framed [OF assms])
  fix i assume "i < length nls"
  then have "row_lane nls ls i = Inr (ls' ! i)" using mapE_nth(2) [OF assms(2)] by blast
  then obtain r c m where "ls' ! i = (ls ! i)\<lparr>l_Row := r, l_FoesCross := c, l_FoesMerge := m\<rparr>" by (rule row_lane_Inr) (rule that)
  then show "\<exists>g. ls' ! i = g (ls ! i) \<and> (\<forall>l. l_ID (g l) = l_ID l \<and> l_Length (g l) = l_Length l \<and>
      l_SpeedLimit (g l) = l_SpeedLimit l \<and> l_Exit (g l) = l_Exit l \<and> l_EndWall (g l) = l_EndWall l \<and> l_Internal (g l) = l_Internal l)"
    by (intro exI [of _ "\<lambda>l. l\<lparr>l_Row := r, l_FoesCross := c, l_FoesMerge := m\<rparr>"]) simp
qed

lemma bound_lanes:
  assumes "load_signals nf ls = Inr (ps, ls')" and "length ls = length (nf_Lanes nf)"
  shows "length ls' = length (nf_Lanes nf)"
    and "i < length (nf_Lanes nf) \<Longrightarrow> ls' ! i = ls ! i \<or>
      (\<exists>j k. ls' ! i = (ls ! i)\<lparr>l_Signal := Some j, l_LinkIdx := k\<rparr> \<and> j < length ps \<and> k < links_of (ps ! j) \<and> nl_Internal (nf_Lanes nf ! i))"
proof -
  have "length ls' = length (nf_Lanes nf) \<and> (i < length (nf_Lanes nf) \<longrightarrow> ls' ! i = ls ! i \<or>
      (\<exists>j k. ls' ! i = (ls ! i)\<lparr>l_Signal := Some j, l_LinkIdx := k\<rparr> \<and> j < length ps \<and> k < links_of (ps ! j) \<and> nl_Internal (nf_Lanes nf ! i)))"
  proof (cases "nf_Signals nf = []")
    case True
    then have "ls' = ls" using assms(1) by (auto simp: load_signals_def bindE_Inr_iff)
    then show ?thesis using assms(2) by simp
  next
    case False
    then have b: "mapE (bind_lane (nf_Lanes nf) ps ls) [0..<length (nf_Lanes nf)] = Inr ls'"
      using assms(1) by (auto simp: load_signals_def bindE_Inr_iff)
    then show ?thesis using mapE_nth [OF b] bind_lane_Inr [of "nf_Lanes nf" ps ls i "ls' ! i"] by blast
  qed
  then show "length ls' = length (nf_Lanes nf)"
    "i < length (nf_Lanes nf) \<Longrightarrow> ls' ! i = ls ! i \<or>
      (\<exists>j k. ls' ! i = (ls ! i)\<lparr>l_Signal := Some j, l_LinkIdx := k\<rparr> \<and> j < length ps \<and> k < links_of (ps ! j) \<and> nl_Internal (nf_Lanes nf ! i))"
    by blast+
qed

lemma bound_framed:
  assumes "framed (nf_Lanes nf) ls" and "load_signals nf ls = Inr (ps, ls')"
  shows "framed (nf_Lanes nf) ls'"
proof (rule framedI)
  note b = bound_lanes [OF assms(2) framedD(1) [OF assms(1)]]
  show "length ls' = length (nf_Lanes nf)" using b(1) .
  fix i assume i: "i < length (nf_Lanes nf)"
  show "l_ID (ls' ! i) = nl_ID (nf_Lanes nf ! i) \<and> l_Length (ls' ! i) = nl_Length (nf_Lanes nf ! i) \<and>
    l_SpeedLimit (ls' ! i) = nl_SpeedLimit (nf_Lanes nf ! i) \<and> l_Exit (ls' ! i) = nl_Exit (nf_Lanes nf ! i) \<and>
    l_EndWall (ls' ! i) = nl_EndWall (nf_Lanes nf ! i) \<and> l_Internal (ls' ! i) = nl_Internal (nf_Lanes nf ! i)"
    using b(2) [OF i] framedD(2) [OF assms(1) i] by auto
qed

lemma compile_stages:
  "CompileNet nf = Inr n \<longleftrightarrow> nf_Version nf = 1 \<and> nf_Lanes nf \<noteq> [] \<and>
     (\<exists>ls0 ls1 ls2 ps ls3 ls4. load_lanes 0 [] (nf_Lanes nf) = Inr ls0 \<and>
        mapE (link_lane (nf_Lanes nf) ls0) [0..<length (nf_Lanes nf)] = Inr ls1 \<and>
        mapE (row_lane (nf_Lanes nf) ls1) [0..<length (nf_Lanes nf)] = Inr ls2 \<and>
        load_signals nf ls2 = Inr (ps, ls3) \<and> chain_edges (nf_Lanes nf) (edges_of (nf_Lanes nf)) ls3 = Inr ls4 \<and>
        n = linkPrevs \<lparr>n_Lanes = ls4, n_Origins = filter (\<lambda>i. nl_Origin (nf_Lanes nf ! i)) [0..<length (nf_Lanes nf)], n_Signals = ps\<rparr>)"
  unfolding CompileNet_def Let_def by (simp add: bindE_Inr_iff split: prod.splits) (auto intro: sym)




section \<open>What the kernel may rely on\<close>

definition sides_ok :: "Lane list \<Rightarrow> bool" where
  "sides_ok ls \<longleftrightarrow> (\<forall>a < length ls. \<forall>b. (l_Left (ls ! a) = Some b \<longrightarrow> b < length ls \<and> l_Right (ls ! b) = Some a) \<and>
     (l_Right (ls ! a) = Some b \<longrightarrow> b < length ls \<and> l_Left (ls ! b) = Some a))"

definition lane_links_ok :: "Network \<Rightarrow> Lane \<Rightarrow> bool" where
  "lane_links_ok n l \<longleftrightarrow> (\<forall>u \<in> set (l_Successors l). u < length (n_Lanes n)) \<and>
     ends_well (l_Successors l \<noteq> []) (l_Exit l) (l_EndWall l) \<and>
     (\<forall>f \<in> set (l_FoesCross l) \<union> set (l_FoesMerge l). f < length (n_Lanes n) \<and> l_Internal (n_Lanes n ! f)) \<and>
     (\<forall>j. l_Signal l = Some j \<longrightarrow> j < length (n_Signals n) \<and> l_LinkIdx l < links_of (n_Signals n ! j) \<and> l_Internal l)"

definition roads_ok :: "Network \<Rightarrow> bool" where
  "roads_ok n \<longleftrightarrow> distinct (map l_ID (n_Lanes n)) \<and> list_all (lane_links_ok n) (n_Lanes n) \<and> sides_ok (n_Lanes n) \<and>
     net_ok n \<and> n_Lanes n \<noteq> []"

definition prevs_ok :: "Network \<Rightarrow> bool" where
  "prevs_ok n \<longleftrightarrow> (\<forall>u < length (n_Lanes n). set (l_Prevs (n_Lanes n ! u)) =
     {p. p < length (n_Lanes n) \<and> u \<in> set (l_Successors (n_Lanes n ! p))})"

lemma sides_lanes: "roads_ok n \<Longrightarrow> lanes_ok n"
proof -
  assume u: "roads_ok n"
  have lat: "x \<in> set (laterals n i) \<longleftrightarrow> l_Left (n_Lanes n ! i) = Some x \<or> l_Right (n_Lanes n ! i) = Some x" for x i
    by (auto simp: laterals_def Let_def split: option.splits)
  have s: "sides_ok (n_Lanes n)" and l: "\<And>i. i < length (n_Lanes n) \<Longrightarrow> lane_links_ok n (n_Lanes n ! i)"
    using u by (auto simp: roads_ok_def list_all_length)
  show ?thesis unfolding lanes_ok_def lat
  proof (intro allI impI conjI ballI)
    fix i x assume i: "i < length (n_Lanes n)"
    show "x < length (n_Lanes n)" if "x \<in> set (l_Successors (n_Lanes n ! i))"
      using l [OF i] that by (simp add: lane_links_ok_def)
    assume "x \<in> set (laterals n i)"
    then show "x < length (n_Lanes n)" "l_Left (n_Lanes n ! x) = Some i \<or> l_Right (n_Lanes n ! x) = Some i"
      using s i unfolding sides_ok_def lat by blast+
  qed
qed

lemma linkPrevs_field:
  assumes "\<And>l ps. g (l\<lparr>l_Prevs := ps\<rparr>) = g l"
  shows "map g (n_Lanes (linkPrevs n)) = map g (n_Lanes n)"
  by (rule nth_equalityI) (simp_all add: linkPrevs_nth assms)

lemma linkPrevs_fields:
  assumes "i < length (n_Lanes n)"
  shows "l_ID (n_Lanes (linkPrevs n) ! i) = l_ID (n_Lanes n ! i)"
    and "l_Successors (n_Lanes (linkPrevs n) ! i) = l_Successors (n_Lanes n ! i)"
    and "l_Left (n_Lanes (linkPrevs n) ! i) = l_Left (n_Lanes n ! i)"
    and "l_Right (n_Lanes (linkPrevs n) ! i) = l_Right (n_Lanes n ! i)"
    and "l_Exit (n_Lanes (linkPrevs n) ! i) = l_Exit (n_Lanes n ! i)"
    and "l_EndWall (n_Lanes (linkPrevs n) ! i) = l_EndWall (n_Lanes n ! i)"
    and "l_Internal (n_Lanes (linkPrevs n) ! i) = l_Internal (n_Lanes n ! i)"
    and "l_FoesCross (n_Lanes (linkPrevs n) ! i) = l_FoesCross (n_Lanes n ! i)"
    and "l_FoesMerge (n_Lanes (linkPrevs n) ! i) = l_FoesMerge (n_Lanes n ! i)"
    and "l_Signal (n_Lanes (linkPrevs n) ! i) = l_Signal (n_Lanes n ! i)"
    and "l_LinkIdx (n_Lanes (linkPrevs n) ! i) = l_LinkIdx (n_Lanes n ! i)"
  by (simp_all add: linkPrevs_nth [OF assms])

lemma linkPrevs_roads: "roads_ok (linkPrevs n) = roads_ok n"
proof -
  have "map l_ID (n_Lanes (linkPrevs n)) = map l_ID (n_Lanes n)" by (rule linkPrevs_field) simp
  moreover have "sides_ok (n_Lanes (linkPrevs n)) = sides_ok (n_Lanes n)"
  proof -
    have f: "b < length (n_Lanes n) \<and> l_Right (n_Lanes (linkPrevs n) ! b) = x \<longleftrightarrow> b < length (n_Lanes n) \<and> l_Right (n_Lanes n ! b) = x"
      "b < length (n_Lanes n) \<and> l_Left (n_Lanes (linkPrevs n) ! b) = x \<longleftrightarrow> b < length (n_Lanes n) \<and> l_Left (n_Lanes n ! b) = x" for b x
      using linkPrevs_fields(3,4) [of b n] by auto
    show ?thesis unfolding sides_ok_def linkPrevs_other f by (metis linkPrevs_fields(3,4))
  qed
  moreover have "list_all (lane_links_ok (linkPrevs n)) (n_Lanes (linkPrevs n)) = list_all (lane_links_ok n) (n_Lanes n)"
  proof -
    have f: "b < length (n_Lanes n) \<and> l_Internal (n_Lanes (linkPrevs n) ! b) \<longleftrightarrow> b < length (n_Lanes n) \<and> l_Internal (n_Lanes n ! b)" for b
      using linkPrevs_fields(7) [of b n] by auto
    have "lane_links_ok (linkPrevs n) (n_Lanes (linkPrevs n) ! i) = lane_links_ok n (n_Lanes n ! i)" if "i < length (n_Lanes n)" for i
      unfolding lane_links_ok_def linkPrevs_fields [OF that] linkPrevs_other f ..
    then show ?thesis by (simp add: list_all_length)
  qed
  moreover have "n_Lanes (linkPrevs n) = [] \<longleftrightarrow> n_Lanes n = []" by (metis length_0_conv linkPrevs_other(1))
  ultimately show ?thesis by (simp add: roads_ok_def net_ok_def)
qed

lemma set_routePreds:
  "u < length (n_Lanes n) \<Longrightarrow> set (routePreds n ! u) = {p. p < length (n_Lanes n) \<and> u \<in> set (l_Successors (n_Lanes n ! p))}"
  by (auto simp: routePreds_def)

lemma linkPrevs_prevs:
  assumes "\<forall>u < length (n_Lanes n). l_Prevs (n_Lanes n ! u) = []"
  shows "prevs_ok (linkPrevs n)" and "prevs_ok (linkPrevs (linkPrevs n))"
proof -
  have same: "routePreds (linkPrevs n) = routePreds n"
  proof -
    have "map (\<lambda>i. map (\<lambda>_. i) (filter (\<lambda>s. s = u) (l_Successors (n_Lanes (linkPrevs n) ! i)))) [0..<length (n_Lanes n)] =
        map (\<lambda>i. map (\<lambda>_. i) (filter (\<lambda>s. s = u) (l_Successors (n_Lanes n ! i)))) [0..<length (n_Lanes n)]" for u
      by (rule map_cong) (simp_all add: linkPrevs_fields)
    then show ?thesis by (simp only: routePreds_def linkPrevs_other)
  qed
  show "prevs_ok (linkPrevs n)" "prevs_ok (linkPrevs (linkPrevs n))"
    using assms by (auto simp: prevs_ok_def linkPrevs_nth same set_routePreds)
qed

section \<open>Compiled files\<close>

lemma blank_lane:
  assumes "load_lanes 0 [] nls = Inr ls" and "i < length nls"
  shows "blank (ls ! i)"
  using load_lanes_Inr [OF assms(1)] assms(2) framedD(1) [of nls ls] by (simp add: list_all_length)

lemma compiled_roads:
  assumes s0: "load_lanes 0 [] (nf_Lanes nf) = Inr ls0"
    and s1: "mapE (link_lane (nf_Lanes nf) ls0) [0..<length (nf_Lanes nf)] = Inr ls1"
    and s2: "mapE (row_lane (nf_Lanes nf) ls1) [0..<length (nf_Lanes nf)] = Inr ls2"
    and s3: "load_signals nf ls2 = Inr (ps, ls3)"
    and s4: "chain_edges (nf_Lanes nf) (edges_of (nf_Lanes nf)) ls3 = Inr ls4" and ne: "nf_Lanes nf \<noteq> []"
  shows "roads_ok \<lparr>n_Lanes = ls4, n_Origins = filter (\<lambda>i. nl_Origin (nf_Lanes nf ! i)) [0..<length (nf_Lanes nf)], n_Signals = ps\<rparr>"
    (is "roads_ok ?n")
    and "i < length (nf_Lanes nf) \<Longrightarrow> l_Prevs (ls4 ! i) = []"
    and "a < length (nf_Lanes nf) \<Longrightarrow> l_Left (ls4 ! a) = Some b \<longleftrightarrow>
      b < length (nf_Lanes nf) \<and> nl_Edge (nf_Lanes nf ! a) \<noteq> [] \<and> beside (nf_Lanes nf) a b"
    and "framed (nf_Lanes nf) ls4"
proof -
  let ?nls = "nf_Lanes nf" let ?N = "length (nf_Lanes nf)"
  have f0: "framed ?nls ls0" and d: "distinct (map nl_ID ?nls)" using load_lanes_Inr [OF s0] by auto
  have f1: "framed ?nls ls1" using linked_framed [OF f0 s1] .
  have f2: "framed ?nls ls2" using rowed_framed [OF f1 s2] .
  have f3: "framed ?nls ls3" using bound_framed [OF f2 s3] .
  have es: "distinct (edges_of ?nls)" by (simp add: edges_of_def)
  note c = chain_edges_Inr [OF s4 es framedD(1) [OF f3]]
  have f4: "framed ?nls ls4" using same_framed [OF conjunct1 [OF c] f3] .
  then show "framed ?nls ls4" .
  have row: "\<exists>ks r fc fm. ls2 ! i = (ls0 ! i)\<lparr>l_Successors := ks, l_Row := r, l_FoesCross := fc, l_FoesMerge := fm\<rparr> \<and>
      (\<forall>k \<in> set ks. k < ?N) \<and> ends_well (ks \<noteq> []) (nl_Exit (?nls ! i)) (nl_EndWall (?nls ! i)) \<and>
      (\<forall>k \<in> set fc \<union> set fm. k < ?N \<and> nl_Internal (?nls ! k))" if i: "i < ?N" for i
  proof -
    obtain ks where k: "ls1 ! i = (ls0 ! i)\<lparr>l_Successors := ks\<rparr>" "\<forall>k \<in> set ks. k < ?N \<and> k \<noteq> i"
      "ends_well (ks \<noteq> []) (nl_Exit (?nls ! i)) (nl_EndWall (?nls ! i))"
      using mapE_nth(2) [OF s1 i] by (rule link_lane_Inr) (rule that)
    obtain r fc fm where r: "ls2 ! i = (ls1 ! i)\<lparr>l_Row := r, l_FoesCross := fc, l_FoesMerge := fm\<rparr>"
      "\<forall>k \<in> set fc \<union> set fm. k < ?N \<and> nl_Internal (?nls ! k)"
      using mapE_nth(2) [OF s2 i] by (rule row_lane_Inr) (rule that)
    have "ls2 ! i = (ls0 ! i)\<lparr>l_Successors := ks, l_Row := r, l_FoesCross := fc, l_FoesMerge := fm\<rparr>"
      unfolding r(1) k(1) ..
    moreover have "\<forall>k \<in> set ks. k < ?N" using k(2) by blast
    ultimately show ?thesis using k(3) r(2) by blast
  qed
  note b = bound_lanes [OF s3 framedD(1) [OF f2]]
  have same: "ls4 ! i = (ls3 ! i)\<lparr>l_Left := l_Left (ls4 ! i), l_Right := l_Right (ls4 ! i)\<rparr>" if "i < ?N" for i
    using c same_but_sidesD(2) [of ls3 ls4 i] framedD(1) [OF f3] that by simp
  have bl: "l_Prevs (ls3 ! i) = [] \<and> l_Left (ls3 ! i) = None \<and> l_Right (ls3 ! i) = None" if i: "i < ?N" for i
    using row [OF i] b(2) [OF i] blank_lane [OF s0 i] by (auto simp: blank_def)
  show "l_Prevs (ls4 ! i) = []" if "i < ?N"
    using arg_cong [OF same [OF that], of l_Prevs] bl [OF that] by simp
  have cl: "joined ?nls (set (edges_of ?nls)) a b \<Longrightarrow> l_Left (ls4 ! a) = Some b \<and> l_Right (ls4 ! b) = Some a"
    "\<not> (\<exists>b. joined ?nls (set (edges_of ?nls)) a b) \<Longrightarrow> l_Left (ls4 ! a) = l_Left (ls3 ! a)"
    "\<not> (\<exists>a. joined ?nls (set (edges_of ?nls)) a b) \<Longrightarrow> l_Right (ls4 ! b) = l_Right (ls3 ! b)" for a b
    using c by blast+
  have left: "l_Left (ls4 ! a) = Some b \<longleftrightarrow> joined ?nls (set (edges_of ?nls)) a b" if "a < ?N" for a b
    using cl(1) [of a] cl(2) [of a] bl [OF that] by (cases "\<exists>x. joined ?nls (set (edges_of ?nls)) a x") auto
  have right: "l_Right (ls4 ! a) = Some b \<longleftrightarrow> joined ?nls (set (edges_of ?nls)) b a" if "a < ?N" for a b
    using cl(1) [of _ a] cl(3) [of a] bl [OF that] by (cases "\<exists>x. joined ?nls (set (edges_of ?nls)) x a") auto
  show "l_Left (ls4 ! a) = Some b \<longleftrightarrow> b < ?N \<and> nl_Edge (?nls ! a) \<noteq> [] \<and> beside ?nls a b" if "a < ?N"
    using left [OF that] that by (auto simp: joined_def edges_of_def)
  have "sides_ok ls4"
    using left right by (auto simp: sides_ok_def framedD(1) [OF f4] joined_def)
  moreover have "lane_links_ok ?n (ls4 ! i)" if i: "i < ?N" for i
  proof -
    obtain ks r fc fm where r: "ls2 ! i = (ls0 ! i)\<lparr>l_Successors := ks, l_Row := r, l_FoesCross := fc, l_FoesMerge := fm\<rparr>"
      and k: "\<forall>k \<in> set ks. k < ?N" "ends_well (ks \<noteq> []) (nl_Exit (?nls ! i)) (nl_EndWall (?nls ! i))"
        "\<forall>k \<in> set fc \<union> set fm. k < ?N \<and> nl_Internal (?nls ! k)"
      using row [OF i] by blast
    have fld: "l_Successors (ls3 ! i) = ks" "l_FoesCross (ls3 ! i) = fc" "l_FoesMerge (ls3 ! i) = fm"
      using b(2) [OF i] r by auto
    have sig: "j < length ps \<and> l_LinkIdx (ls3 ! i) < links_of (ps ! j) \<and> nl_Internal (?nls ! i)" if "l_Signal (ls3 ! i) = Some j" for j
      using b(2) [OF i] r that blank_lane [OF s0 i] by (auto simp: blank_def)
    have int: "l_Internal (ls4 ! k) = nl_Internal (?nls ! k)" if "k < ?N" for k
      using framedD(2) [OF f4 that] by simp
    have "lane_links_ok ?n (ls3 ! i)"
      using fld k sig int framedD(2) [OF f3 i] framedD(1) [OF f4] by (auto simp: lane_links_ok_def)
    then show ?thesis by (subst same [OF i]) (simp add: lane_links_ok_def)
  qed
  moreover have "map l_ID ls4 = map nl_ID ?nls"
    using framedD [OF f4] by (auto intro!: nth_equalityI)
  moreover have "net_ok ?n" using framedD(1) [OF f4] by (auto simp: net_ok_def list_all_iff)
  ultimately show "roads_ok ?n"
    using d ne framedD(1) [OF f4] by (auto simp: roads_ok_def list_all_length)
qed

text \<open>A compiled lane keeps its place, and its left neighbour is the next lane of its edge.\<close>

lemma compile_lanes:
  assumes "CompileNet nf = Inr n"
  shows "map l_ID (n_Lanes n) = map nl_ID (nf_Lanes nf)"
    and "a < length (n_Lanes n) \<Longrightarrow> l_Left (n_Lanes n ! a) = Some b \<longleftrightarrow>
      b < length (n_Lanes n) \<and> nl_Edge (nf_Lanes nf ! a) \<noteq> [] \<and> beside (nf_Lanes nf) a b"
proof -
  obtain ls0 ls1 ls2 ps ls3 ls4 where ne: "nf_Lanes nf \<noteq> []" and s: "load_lanes 0 [] (nf_Lanes nf) = Inr ls0"
    "mapE (link_lane (nf_Lanes nf) ls0) [0..<length (nf_Lanes nf)] = Inr ls1"
    "mapE (row_lane (nf_Lanes nf) ls1) [0..<length (nf_Lanes nf)] = Inr ls2"
    "load_signals nf ls2 = Inr (ps, ls3)" "chain_edges (nf_Lanes nf) (edges_of (nf_Lanes nf)) ls3 = Inr ls4"
    and n: "n = linkPrevs \<lparr>n_Lanes = ls4, n_Origins = filter (\<lambda>i. nl_Origin (nf_Lanes nf ! i)) [0..<length (nf_Lanes nf)], n_Signals = ps\<rparr>"
    using assms by (auto simp: compile_stages)
  note c = compiled_roads [OF s ne]
  have "map l_ID (n_Lanes n) = map l_ID ls4" unfolding n using linkPrevs_field [of l_ID] by simp
  also have "\<dots> = map nl_ID (nf_Lanes nf)" using framedD [OF c(4)] by (auto intro!: nth_equalityI)
  finally show i: "map l_ID (n_Lanes n) = map nl_ID (nf_Lanes nf)" .
  then have "length (n_Lanes n) = length (nf_Lanes nf)" by (metis length_map)
  then show "a < length (n_Lanes n) \<Longrightarrow> l_Left (n_Lanes n ! a) = Some b \<longleftrightarrow>
      b < length (n_Lanes n) \<and> nl_Edge (nf_Lanes nf ! a) \<noteq> [] \<and> beside (nf_Lanes nf) a b"
    using c(3) [of a b] framedD(1) [OF c(4)] unfolding n by (simp add: linkPrevs_fields)
qed

lemma compile_ok:
  assumes "CompileNet nf = Inr n"
  shows "roads_ok n" and "prevs_ok n" and "prevs_ok (linkPrevs n)"
proof -
  obtain ls0 ls1 ls2 ps ls3 ls4 where ne: "nf_Lanes nf \<noteq> []" and s: "load_lanes 0 [] (nf_Lanes nf) = Inr ls0"
    "mapE (link_lane (nf_Lanes nf) ls0) [0..<length (nf_Lanes nf)] = Inr ls1"
    "mapE (row_lane (nf_Lanes nf) ls1) [0..<length (nf_Lanes nf)] = Inr ls2"
    "load_signals nf ls2 = Inr (ps, ls3)" "chain_edges (nf_Lanes nf) (edges_of (nf_Lanes nf)) ls3 = Inr ls4"
    and n: "n = linkPrevs \<lparr>n_Lanes = ls4, n_Origins = filter (\<lambda>i. nl_Origin (nf_Lanes nf ! i)) [0..<length (nf_Lanes nf)], n_Signals = ps\<rparr>"
    using assms by (auto simp: compile_stages)
  note c = compiled_roads [OF s ne]
  show "roads_ok n" using c(1) unfolding n linkPrevs_roads .
  show "prevs_ok n" "prevs_ok (linkPrevs n)" unfolding n using linkPrevs_prevs c(2) framedD(1) [OF c(4)] by simp_all
qed

section \<open>The built-in networks\<close>

lemma ring_ok: "roads_ok (ring_net sp)" "\<forall>u < length (n_Lanes (ring_net sp)). l_Prevs (n_Lanes (ring_net sp) ! u) = []"
  by (simp_all add: roads_ok_def ring_net_def plain_lane_def lane_links_ok_def ends_well_def sides_ok_def net_ok_def)

lemma straight_ok: "roads_ok (straight_net sp)" "\<forall>u < length (n_Lanes (straight_net sp)). l_Prevs (n_Lanes (straight_net sp) ! u) = []"
  by (simp_all add: roads_ok_def straight_net_def plain_lane_def lane_links_ok_def ends_well_def sides_ok_def net_ok_def)

lemma lanedrop_ok: "roads_ok (lanedrop_net sp)" "\<forall>u < length (n_Lanes (lanedrop_net sp)). l_Prevs (n_Lanes (lanedrop_net sp) ! u) = []"
  by (auto simp: roads_ok_def lanedrop_net_def plain_lane_def lane_links_ok_def ends_well_def sides_ok_def net_ok_def
      Let_def less_Suc_eq numeral_eq_Suc)

text \<open>The lanes of the I-80 network by position.\<close>

definition i80_lane :: "NetSpec \<Rightarrow> nat \<Rightarrow> Lane" where
  "i80_lane sp i = (if i < 6 then i80_up sp i else if i < 12 then i80_main sp (i - 6) else if i = 12 then i80_ramp sp
     else if i < 19 then i80_section sp (i - 13) else i80_down sp (i - 19))"

lemmas i80_defs = i80_lane_def i80_up_def i80_main_def i80_ramp_def i80_section_def i80_down_def plain_lane_def

lemma i80_lanes:
  assumes "buildI80Net sp = Inr n"
  shows "n_Lanes n = map (i80_lane sp) [0..<19 + nat (i80_drop sp)]" and "n_Origins n = [0..<6] @ [12]" and "n_Signals n = []"
    and "0 \<le> i80_drop sp"
proof -
  have n: "n_Lanes n = map (i80_up sp) [0..<6] @ map (i80_main sp) [0..<6] @ [i80_ramp sp] @ map (i80_section sp) [0..<6] @
      map (i80_down sp) [0..<nat (i80_drop sp)]"
    using assms by (auto simp: buildI80Net_def split: if_splits)
  show "n_Lanes n = map (i80_lane sp) [0..<19 + nat (i80_drop sp)]"
  proof (rule nth_equalityI)
    fix i assume "i < length (n_Lanes n)"
    then show "n_Lanes n ! i = map (i80_lane sp) [0..<19 + nat (i80_drop sp)] ! i"
      unfolding n by (auto simp: i80_lane_def nth_append nth_Cons' not_less)
  qed (simp add: n)
  show "n_Origins n = [0..<6] @ [12]" "n_Signals n = []" "0 \<le> i80_drop sp"
    using assms by (auto simp: buildI80Net_def split: if_splits)
qed

lemma byte_char: "m < 256 \<Longrightarrow> char_of m = c \<longleftrightarrow> of_char c = (m :: nat)"
  by (auto simp: take_bit_nat_eq_self_iff)

lemma digit_inj: "i < 80 \<Longrightarrow> j < 80 \<Longrightarrow> digit_id c i = digit_id c' j \<longleftrightarrow> c = c' \<and> i = j"
  by (auto simp: digit_id_def byte_char take_bit_nat_eq_self_iff)

lemma i80_ids:
  assumes "i < 99" and "j < 99" and "l_ID (i80_lane sp i) = l_ID (i80_lane sp j)"
  shows "i = j"
proof -
  have r: "''AR'' \<noteq> digit_id CHR ''A'' k" "digit_id CHR ''A'' k \<noteq> ''AR''" if "k < 6" for k
    using that byte_char [of "48 + k" "CHR ''R''"] by (auto simp: digit_id_def)
  have o: "''AR'' \<noteq> digit_id c k" "digit_id c k \<noteq> ''AR''" if "c \<noteq> CHR ''A''" for c k
    using that by (auto simp: digit_id_def)
  show ?thesis
    using assms r [of "i - 6"] r [of "j - 6"] o by (auto simp: i80_defs digit_inj split: if_splits)
qed

lemma i80_sides:
  assumes "i < 19 + nat (i80_drop sp)" and "0 \<le> i80_drop sp"
  shows "l_Left (i80_lane sp i) = Some b \<Longrightarrow> b < 19 + nat (i80_drop sp) \<and> l_Right (i80_lane sp b) = Some i"
    and "l_Right (i80_lane sp i) = Some b \<Longrightarrow> b < 19 + nat (i80_drop sp) \<and> l_Left (i80_lane sp b) = Some i"
  using assms by (auto simp: i80_defs left_in_def right_in_def split: if_splits)

lemma i80_ok:
  assumes "buildI80Net sp = Inr n" and "i80_drop sp < 80"
  shows "roads_ok n" and "\<forall>u < length (n_Lanes n). l_Prevs (n_Lanes n ! u) = []"
proof -
  note l = i80_lanes [OF assms(1)]
  let ?N = "19 + nat (i80_drop sp)"
  have nth: "n_Lanes n ! i = i80_lane sp i" if "i < ?N" for i using that by (simp add: l(1))
  have len: "length (n_Lanes n) = ?N" by (simp add: l(1))
  have "distinct (map l_ID (n_Lanes n))"
    using i80_ids [of _ _ sp] assms(2) l(4) by (auto simp: distinct_conv_nth len nth)
  moreover have "sides_ok (n_Lanes n)"
    unfolding sides_ok_def len using i80_sides [OF _ l(4)] nth by metis
  moreover have "lane_links_ok n (i80_lane sp i)" if "i < ?N" for i
    using that l(4) by (auto simp: lane_links_ok_def len i80_defs ends_well_def)
  ultimately show "roads_ok n"
  proof -
    have "net_ok n" by (simp add: net_ok_def l(2) len list_all_iff)
    moreover have "n_Lanes n \<noteq> []" using len by auto
    ultimately show ?thesis using \<open>distinct _\<close> \<open>sides_ok _\<close> len nth
        \<open>\<And>i. i < ?N \<Longrightarrow> lane_links_ok n (i80_lane sp i)\<close> by (simp add: roads_ok_def list_all_length)
  qed
  show "\<forall>u < length (n_Lanes n). l_Prevs (n_Lanes n ! u) = []"
    by (simp add: len nth) (simp add: i80_defs)
qed

text \<open>
  C13: every network that \<open>BuildNet\<close> returns, built in or read from a file, is one the kernel can run
  on. Lane ids are distinct; successors, lateral neighbours, foes, origins and signal links refer to
  lanes and links that exist; lateral links are mutual; every lane has successors or ends in exactly
  one of an exit and a wall; foes and signal bindings are on internal lanes; and the reverse links of
  a lane are its predecessors. (Below eighty lanes past the drop of the I-80 network.)
\<close>
theorem build_ok:
  assumes "BuildNet files sp = Inr n" and "i80_drop sp < 80"
  shows "roads_ok n \<and> lanes_ok n \<and> prevs_ok n"
proof -
  obtain m where m: "n = linkPrevs m" and "roads_ok m"
    and p: "prevs_ok (linkPrevs m)"
  proof -
    consider "ne_Kind sp = ''ring''" "n = linkPrevs (ring_net sp)" | "n = linkPrevs (lanedrop_net sp)" | "n = linkPrevs (straight_net sp)"
      | m where "buildI80Net sp = Inr m" "n = linkPrevs m" | m nf where "CompileNet nf = Inr m" "n = linkPrevs m"
      using assms(1) by (auto simp: BuildNet_def LoadNetFile_def bindE_Inr_iff split: if_splits option.splits)
    then show thesis
    proof cases
      case 1 then show ?thesis using that ring_ok linkPrevs_prevs by blast
    next
      case 2 then show ?thesis using that lanedrop_ok linkPrevs_prevs by blast
    next
      case 3 then show ?thesis using that straight_ok linkPrevs_prevs by blast
    next
      case 4 then show ?thesis using that i80_ok [OF _ assms(2)] linkPrevs_prevs by blast
    next
      case 5 then show ?thesis using that compile_ok by blast
    qed
  qed
  then have "roads_ok n" by (simp add: linkPrevs_roads)
  then show ?thesis using sides_lanes m p by blast
qed

section \<open>Witness\<close>

text \<open>A road of two lanes into a box under a light, and an exit.\<close>

definition file_lane :: "string \<Rightarrow> string list \<Rightarrow> NetLane" where
  "file_lane lid ss = \<lparr>nl_ID = lid, nl_Section = ''s'', nl_Edge = [], nl_EdgeIndex = 0, nl_Length = f64_lit 100 1,
     nl_SpeedLimit = f64_lit 14 1, nl_Width = 0, nl_Successors = ss, nl_Origin = False, nl_Exit = False, nl_EndWall = False,
     nl_Internal = False, nl_Junction = [], nl_Row = [], nl_FoesCross = [], nl_FoesMerge = [], nl_TL = [], nl_TLLink = None\<rparr>"

definition box_file :: NetFile where
  "box_file = \<lparr>nf_Version = 1, nf_Lanes = [
     (file_lane ''a0'' [''b''])\<lparr>nl_Edge := ''a'', nl_Origin := True\<rparr>,
     (file_lane ''a1'' [''b''])\<lparr>nl_Edge := ''a'', nl_EdgeIndex := 1, nl_Origin := True\<rparr>,
     (file_lane ''b'' [''c''])\<lparr>nl_Internal := True, nl_Row := ''minor'', nl_TL := ''j1'', nl_TLLink := Some 1\<rparr>,
     (file_lane ''c'' [])\<lparr>nl_Exit := True\<rparr>],
     nf_Signals = [\<lparr>ns_ID = ''j1'', ns_Junction = ''j1'', ns_Offset = 0, ns_Phases = pg_Phases demo_compiled\<rparr>]\<rparr>"

definition file_spec :: NetSpec where
  "file_spec = \<lparr>ne_Kind = ''file'', ne_Path = ''box.json'', ne_Length = 0, ne_SectionLen = 0, ne_SpeedLimit = 0,
     ne_DownstreamLimit = 0, ne_DropLanes = 0\<rparr>"

lemma box_built:
  "case BuildNet (\<lambda>p. if p = ''box.json'' then Some box_file else None) file_spec of
     Inl _ \<Rightarrow> False
   | Inr n \<Rightarrow> map l_Left (n_Lanes n) = [Some 1, None, None, None] \<and> map l_Signal (n_Lanes n) = [None, None, Some 0, None] \<and>
       n_Origins n = [0, 1]"
  by code_simp

lemma build_ok_witness:
  "case BuildNet (\<lambda>p. if p = ''box.json'' then Some box_file else None) file_spec of
     Inl _ \<Rightarrow> False | Inr n \<Rightarrow> n_Origins n = [0, 1] \<and> roads_ok n \<and> lanes_ok n \<and> prevs_ok n"
proof -
  obtain n where n: "BuildNet (\<lambda>p. if p = ''box.json'' then Some box_file else None) file_spec = Inr n" "n_Origins n = [0, 1]"
    using box_built by (auto split: sum.splits)
  moreover have "i80_drop file_spec < 80" by (simp add: i80_drop_def file_spec_def)
  ultimately show ?thesis using build_ok [of _ file_spec n] by simp
qed

end
