(* ===== verification/Spec2Isabelle.thy ===== *)
theory Spec2Isabelle
  imports ContractRun Crc RouteClaims LatDepth Kernel ActuatedClaims DemandClaims NetfileClaims
begin

text \<open>
  A model of the traffic simulation engine (Go, \<open>src/engine\<close>): the deterministic kernel, its
  state codecs, the live plane that connects it to controllers, and two of these controllers.

  \<^bold>\<open>The program.\<close> An engine holds a network of lanes, the vehicles on it, the signal programs and the
  queues of what the controllers ask for. A tick (\<open>Step\<close>, \<open>engine.go\<close>) refreshes the routing
  weights, injects vehicles of the spawner and of the director's queue, installs signal commands,
  arbitrates and applies the queued intents, decides every acceleration, moves the vehicles over the
  lane ends, lets them change lanes, takes hopelessly jammed ones out, and folds the state into a
  checksum. A keyframe saves and restores the whole dynamic state. Controllers reach the kernel
  through messages: the bus (\<open>natsio/bus.go\<close>) decodes and buffers them, the contract layer
  (\<open>natsio/contract.go\<close>) decides which of them are entitled to what, keeps the intent of a silent
  controller in force for a while, and answers verbs once. The actuated signal controller
  (\<open>natsio/sigctl\<close>) and the demand director (\<open>natsio/demand\<close>) are clients.

  \<^bold>\<open>Theories.\<close> Each opens with its own text; in the order of the imports:
  \<^item> \<open>Prelude\<close>: words, strings, sums of errors, list and map lemmas, the collections of hints.
    \<open>Bytes\<close>: little-endian fields and the byte cursors. \<open>Float64\<close>, \<open>FloatMath\<close>: binary64 on bit
    patterns. \<open>Rng\<close> (\<open>rng.go\<close>): the streams of the vehicles. \<open>World\<close>: the records of the state.
    \<open>Demo\<close>: a small world on which witnesses evaluate the model.
  \<^item> Signals: \<open>Signal\<close> and \<open>SigDisplay\<close> (\<open>signal.go\<close>), \<open>SigCtl\<close> (\<open>sigctl.go\<close>), \<open>SigFrame\<close>
    (\<open>natsio/sigframe.go\<close>).
  \<^item> Queues: \<open>Intents\<close> (\<open>intent.go\<close>), \<open>Director\<close> and the queue half in \<open>Spawn\<close> (\<open>director.go\<close>,
    \<open>spawn.go\<close>), \<open>Injection\<close> (what entering means).
  \<^item> Roads: \<open>Netfile\<close>, \<open>NetfileClaims\<close> (\<open>netfile.go\<close>, \<open>network.go\<close>, \<open>scenario_i80.go\<close>),
    \<open>Routing\<close>, \<open>RouteClaims\<close>, \<open>LatDepth\<close> (\<open>routing.go\<close>).
  \<^item> The tick: \<open>Motion\<close> (integration and lane ends), \<open>Occupancy\<close>, \<open>OccSync\<close> (lane lists), \<open>Policy\<close>
    (\<open>policy.go\<close>, \<open>vehicle.go\<close>, \<open>mobil.go\<close>), \<open>Lateral\<close>, \<open>RightOfWay\<close> (\<open>rightofway.go\<close>), \<open>Accel\<close>
    (accelerations), \<open>Gridlock\<close> (\<open>gridlock.go\<close>), \<open>Step\<close> (their composition), \<open>Kernel\<close> (its invariant).
  \<^item> State codecs: \<open>Keyframe\<close> (\<open>keyframe.go\<close>), \<open>Crc\<close> (the checksum of \<open>engine.go\<close>).
  \<^item> Live plane: \<open>IntentCodec\<close> (\<open>bus.go\<close>, \<open>tsib.go\<close>, \<open>tslb.go\<close>, \<open>recorder.go\<close>), \<open>IntentBus\<close>
    (\<open>bus.go\<close>), \<open>Contract\<close>, \<open>ContractClaims\<close>, \<open>ContractRun\<close> (\<open>contract.go\<close>).
  \<^item> Clients: \<open>Actuated\<close>, \<open>ActuatedClaims\<close> (\<open>natsio/sigctl\<close>), \<open>Demand\<close>, \<open>DemandClaims\<close>
    (\<open>natsio/demand\<close>).

  \<^bold>\<open>How the state corresponds.\<close> A Go struct is a record with the Go names after a short prefix
  (\<open>e_\<close> of \<open>Engine\<close>, \<open>v_\<close> of \<open>Vehicle\<close>, \<open>l_\<close> of \<open>Lane\<close>). A pointer to a lane, a vehicle, a type or a
  program is its index in the slice that owns it, \<open>nil\<close> is \<open>None\<close>. Go's \<open>int\<close> is \<open>int\<close> where the
  code cannot overflow it, sized integers are words, \<open>float64\<close> is its bit pattern and every
  arithmetic step rounds as the code's does. \<open>(value, error)\<close> is a sum with the error on the left.
  A Go map is a map or an association list; where the code iterates, it does so over a slice, and so
  does the model. In-place updates of a loop are folds over the record, in the loop's order;
  \<open>Accel.accels_snapshot\<close> and \<open>Motion.boundary_independent\<close> say where that order does not matter.
  The lane lists are the \<open>occupancy\<close> argument, since they outlive a tick.

  \<^bold>\<open>What is a parameter.\<close> \<open>norm\<close>, the normal draw of \<open>math/rand/v2\<close>; \<open>ln\<close>, the logarithm of the Go
  library; the reader of files, which gives \<open>BuildNet\<close> a decoded \<open>NetFile\<close> or an error; the
  transport of a message. A restored or cold
  route cache is an argument, and \<open>route_cache_invisible\<close> and \<open>boundary_independent\<close> say that it does
  not show.

  \<^bold>\<open>Lemma groups.\<close> Signals: the schedule and its clearance, the onset a display shows, the
  starvation bound of commanded holds, what a verb does, and that a client derives the kernel's light
  from a frame. Intents: one winner per vehicle, independence of arrival order, physical bounds;
  losses of the codecs stated exactly. Contract: claims and ownership stay inverse in every reachable
  state, only entitled intents get through, hold-last is exact, verbs are idempotent. Roads: which
  network files are accepted, what a built network guarantees, that route tables lead to the
  destination and lateral depths are least. Tick: accelerations respect both gates and the lights,
  no two vehicles wait for each other at a junction, lists stay in step with positions, lane hops and
  removals are justified, entries are safe, directives are accounted for, and the invariant
  \<open>kernel_ok\<close> over \<open>Step\<close>. Codecs: the snapshot's round trip. Clients: the prediction of the actuated
  controller refines the kernel's history, a switch needs a call, a chunked table is taken over whole;
  the director's sends depend on the last snapshot only, and a warm start continues the cold run.

  \<^bold>\<open>Interfaces.\<close> The contracts between components are locales, each interpreted on the model's own
  definitions where they are provided: \<open>field\<close> (\<open>Bytes\<close>: a reader gets back what the writer put) and
  \<open>record_codec\<close> (\<open>Keyframe\<close>: the same for a record that is validated while it is read),
  \<open>fixed_width\<close> (\<open>Crc\<close>), \<open>strict_weak\<close> (\<open>Prelude\<close>: the order a sort of the code uses), \<open>linear_on\<close>
  (\<open>OccSync\<close>: the order of a lane list), \<open>keeps\<close> (\<open>ContractClaims\<close>: an invariant through a loop of
  steps) and \<open>phase\<close> (\<open>Kernel\<close>: what every phase of the tick keeps of the engine).

  \<^bold>\<open>Bounds and termination.\<close> The lookahead walks over lanes stop after \<open>maxLaneHops\<close> = 12 lanes, as in
  the code. The layered and the shortest-path searches, the walk of a vehicle over lane ends and the
  merge scan are total functions with measures. The verb loops of the director are partial functions:
  the properties state when they return. No other function takes fuel.

  \<^bold>\<open>Not modelled.\<close> Counters and statistics no operation reads, metrics, geometry and display frames,
  the transport (connections, subscriptions, acknowledgement of streams), JSON and YAML decoding,
  the record plane's cursors and playback, the importers and the commands. What is left out of a
  modelled part is said in the text of its theory.
\<close>

end
